(* ===== verification/Lil_Prelude.thy ===== *)
theory Lil_Prelude
  imports Main "HOL-Library.Word" "HOL-Library.Finite_Map" "HOL-Library.List_Lexorder"
    "HOL-Library.Char_ord"
begin

text \<open>
  Shared vocabulary of the development.

  \<^item> Machine integers are words of the source's width (\<open>u8\<close>, \<open>u32\<close>, \<open>u64\<close>).
  \<^item> A Rust \<open>String\<close> is the list of its UTF-8 bytes, a \<^typ>\<open>string\<close>; the order on
    \<^typ>\<open>string\<close> (\<open>List_Lexorder\<close> over \<open>Char_ord\<close>) is the byte-lexicographic order of
    \<open>str\<close>.
  \<^item> \<open>BTreeMap\<close> and \<open>HashMap\<close> are finite maps (\<open>fmap\<close>); iteration over a \<open>BTreeMap\<close> is the
    list of its bindings in key order, \<open>BTreeSet\<close> is \<open>fset\<close>.
  \<^item> \<open>io::Result<T>\<close> is \<open>io_error + 'a\<close>; an error is represented by its \<open>io::ErrorKind\<close>
    (message texts are not modelled).
  \<^item> String functions of the standard library that the program uses.
\<close>

section \<open>Types\<close>

type_synonym u8 = "8 word"
type_synonym u16 = "16 word"
type_synonym u32 = "32 word"
type_synonym u64 = "64 word"
type_synonym bytes = "u8 list"

datatype io_error =
    NotFound
  | PermissionDenied
  | NotADirectory
  | InvalidInput
  | InvalidData
  | TimedOut
  | UnexpectedEof
  | Other

type_synonym 'a io_result = "io_error + 'a"

text \<open>Room above a 64-bit counter: it can be advanced \<open>n\<close> times without wrapping.\<close>

definition word_room :: "u64 \<Rightarrow> nat \<Rightarrow> bool" where
  "word_room l n \<longleftrightarrow> uint l + int n < 2 ^ 64"

lemma word_room_nat: "word_room l n \<longleftrightarrow> unat l + n < 2 ^ 64"
proof -
  have "uint l + int n < 2 ^ 64 \<longleftrightarrow> int (unat l + n) < int (2 ^ 64)" by simp
  then show ?thesis unfolding word_room_def by (simp only: of_nat_less_iff)
qed

section \<open>Ordered maps\<close>

text \<open>\<open>BTreeMap::iter\<close>, \<open>keys\<close>, \<open>values\<close> and \<open>BTreeSet::iter\<close>: ascending key order.\<close>

definition fm_iter :: "('k::linorder, 'v) fmap \<Rightarrow> ('k \<times> 'v) list" where
  "fm_iter m = map (\<lambda>k. (k, the (fmlookup m k))) (sorted_list_of_fset (fmdom m))"

definition fm_values :: "('k::linorder, 'v) fmap \<Rightarrow> 'v list" where
  "fm_values m = map snd (fm_iter m)"

definition fm_keys :: "('k::linorder, 'v) fmap \<Rightarrow> 'k list" where
  "fm_keys m = sorted_list_of_fset (fmdom m)"

text \<open>Collecting an iterator of pairs into a map: a later pair overwrites an earlier one.\<close>

definition fm_collect :: "('k \<times> 'v) list \<Rightarrow> ('k, 'v) fmap" where
  "fm_collect xs = fold (\<lambda>(k, v) m. fmupd k v m) xs fmempty"

named_theorems fm_simps \<open>rewrite rules for iteration over finite maps\<close>

lemma sorted_list_of_fset_set [simp]: "set (sorted_list_of_fset A) = fset A"
  by (simp add: sorted_list_of_fset.rep_eq)

lemma sorted_list_of_fset_distinct [simp]: "distinct (sorted_list_of_fset A)"
  by (simp add: sorted_list_of_fset.rep_eq)

lemma sorted_list_of_fset_sorted [simp]: "sorted (sorted_list_of_fset A)"
  by (simp add: sorted_list_of_fset.rep_eq)

lemma sorted_list_of_fset_empty [simp]: "sorted_list_of_fset {||} = []"
  by (simp add: sorted_list_of_fset.rep_eq)

lemma sorted_list_of_fset_inject [simp]:
  "sorted_list_of_fset A = sorted_list_of_fset B \<longleftrightarrow> A = B"
  by (metis fset_inject sorted_list_of_fset_set)

lemma fm_keys_set [simp]: "set (fm_keys m) = fmdom' m"
  by (simp add: fm_keys_def fmdom'_alt_def)

lemma fm_keys_distinct [simp]: "distinct (fm_keys m)"
  by (simp add: fm_keys_def)

lemma map_fst_fm_iter [simp]: "map fst (fm_iter m) = fm_keys m"
  by (simp add: fm_iter_def fm_keys_def comp_def)

lemma in_fm_iter [fm_simps]: "(k, v) \<in> set (fm_iter m) \<longleftrightarrow> fmlookup m k = Some v"
  by (auto simp: fm_iter_def fmlookup_dom_iff intro!: image_eqI)

lemma in_fm_values [fm_simps]: "v \<in> set (fm_values m) \<longleftrightarrow> (\<exists>k. fmlookup m k = Some v)"
  by (auto simp: fm_values_def fm_simps image_iff Bex_def)

lemma bex_fm_values [fm_simps]:
  "(\<exists>v \<in> set (fm_values m). P v) \<longleftrightarrow> (\<exists>k v. fmlookup m k = Some v \<and> P v)"
  using in_fm_values [of _ m] by blast

lemma ball_fm_values [fm_simps]:
  "(\<forall>v \<in> set (fm_values m). P v) \<longleftrightarrow> (\<forall>k v. fmlookup m k = Some v \<longrightarrow> P v)"
  using in_fm_values [of _ m] by blast

lemma fm_iter_empty [simp]: "fm_iter fmempty = []"
  by (simp add: fm_iter_def)

lemma fm_iter_eq_Nil [simp]: "fm_iter m = [] \<longleftrightarrow> m = fmempty"
proof
  assume "fm_iter m = []"
  then have "fm_keys m = []" by (metis list.simps(8) map_fst_fm_iter)
  then have "fmdom' m = {}" by (metis fm_keys_set empty_set)
  then show "m = fmempty"
    by (intro fmap_ext) (auto simp: fmdom'_notD)
qed simp

lemma fm_iter_inject [simp]: "fm_iter m = fm_iter n \<longleftrightarrow> m = n"
proof
  assume eq: "fm_iter m = fm_iter n"
  show "m = n"
  proof (rule fmap_ext)
    fix k
    have "\<And>v. fmlookup m k = Some v \<longleftrightarrow> fmlookup n k = Some v"
      using eq by (metis in_fm_iter)
    then show "fmlookup m k = fmlookup n k"
      by (metis option.exhaust)
  qed
qed simp

lemma fmlookup_fold_fmupd:
  "fmlookup (fold (\<lambda>(k, v) m. fmupd k v m) xs m0) k =
     (case map_of (rev xs) k of Some v \<Rightarrow> Some v | None \<Rightarrow> fmlookup m0 k)"
  by (induction xs arbitrary: m0) (auto simp: map_add_def split: option.splits)

lemma fmlookup_fm_collect [fm_simps]: "fmlookup (fm_collect xs) k = map_of (rev xs) k"
  by (simp add: fm_collect_def fmlookup_fold_fmupd split: option.splits)

lemma fm_collect_empty [simp]: "fm_collect xs = fmempty \<longleftrightarrow> xs = []"
proof
  assume "fm_collect xs = fmempty"
  then have "\<And>k. map_of (rev xs) k = None"
    by (metis fmempty_lookup fmlookup_fm_collect)
  then have "fst ` set xs = {}"
    by (metis dom_eq_empty_conv dom_map_of_conv_image_fst set_rev)
  then show "xs = []" by simp
qed (simp add: fm_collect_def)

lemma fm_collect_Nil [simp]: "fm_collect [] = fmempty"
  by (simp add: fm_collect_def)

lemma fm_collect_in:
  "fmlookup (fm_collect xs) k = Some v \<Longrightarrow> (k, v) \<in> set xs"
  by (simp add: fmlookup_fm_collect) (metis map_of_SomeD set_rev)

lemma fm_collect_dom: "fmlookup (fm_collect xs) k \<noteq> None \<longleftrightarrow> k \<in> fst ` set xs"
  by (simp add: fmlookup_fm_collect) (metis dom_map_of_conv_image_fst domIff set_rev not_Some_eq)

lemma in_map_filter: "y \<in> set (List.map_filter f xs) \<longleftrightarrow> (\<exists>x \<in> set xs. f x = Some y)"
  by (induction xs) (auto simp: map_filter_simps split: option.splits)

lemma fm_collect_functional:
  assumes "\<And>v'. (k, v') \<in> set xs \<Longrightarrow> v' = v"
  shows "fmlookup (fm_collect xs) k = Some v \<longleftrightarrow> (k, v) \<in> set xs"
proof
  assume "(k, v) \<in> set xs"
  then obtain v' where "fmlookup (fm_collect xs) k = Some v'"
    using fm_collect_dom [of xs k] by force
  then show "fmlookup (fm_collect xs) k = Some v" using assms fm_collect_in by fastforce
qed (rule fm_collect_in)

section \<open>String functions of the standard library\<close>

text \<open>\<open>str::split\<close> on a character: always at least one part.\<close>

fun split_char :: "char \<Rightarrow> string \<Rightarrow> string list" where
  "split_char c [] = [[]]"
| "split_char c (x # xs) =
     (if x = c then [] # split_char c xs
      else (case split_char c xs of [] \<Rightarrow> [[x]] | y # ys \<Rightarrow> (x # y) # ys))"

text \<open>\<open>[&str]::join\<close> with a one-character separator.\<close>

fun join_char :: "char \<Rightarrow> string list \<Rightarrow> string" where
  "join_char c [] = []"
| "join_char c [x] = x"
| "join_char c (x # y # ys) = x @ c # join_char c (y # ys)"

definition starts_with :: "string \<Rightarrow> string \<Rightarrow> bool" where
  "starts_with s p \<longleftrightarrow> take (length p) s = p"

definition trim_start_matches :: "char \<Rightarrow> string \<Rightarrow> string" where
  "trim_start_matches c s = dropWhile (\<lambda>x. x = c) s"

definition trim_end_matches :: "char \<Rightarrow> string \<Rightarrow> string" where
  "trim_end_matches c s = rev (dropWhile (\<lambda>x. x = c) (rev s))"

definition trim_matches :: "char \<Rightarrow> string \<Rightarrow> string" where
  "trim_matches c s = trim_end_matches c (trim_start_matches c s)"

text \<open>\<open>str::rsplit_once\<close>: split at the last occurrence of the character.\<close>

definition rsplit_once :: "char \<Rightarrow> string \<Rightarrow> (string \<times> string) option" where
  "rsplit_once c s =
     (case dropWhile (\<lambda>x. x \<noteq> c) (rev s) of
        [] \<Rightarrow> None
      | _ # r \<Rightarrow> Some (rev r, rev (takeWhile (\<lambda>x. x \<noteq> c) (rev s))))"

text \<open>\<open>Display\<close> of an unsigned integer: decimal digits without leading zeros.\<close>

function nat_to_string :: "nat \<Rightarrow> string" where
  "nat_to_string n =
     (if n < 10 then [char_of (48 + n)] else nat_to_string (n div 10) @ [char_of (48 + n mod 10)])"
  by pat_completeness auto
termination
  by (relation "measure id") auto

declare nat_to_string.simps [simp del]

lemma split_char_not_Nil [simp]: "split_char c s \<noteq> []"
  by (induction s) (auto split: list.splits)

lemma join_split_char [simp]: "join_char c (split_char c s) = s"
proof (induction s)
  case (Cons x xs)
  show ?case
  proof (cases "split_char c xs")
    case (Cons y ys)
    with Cons.IH show ?thesis by (cases ys) auto
  qed simp
qed simp

lemma split_char_no_sep: "c \<notin> set s \<Longrightarrow> split_char c s = [s]"
  by (induction s) auto

lemma split_char_append:
  "c \<notin> set x \<Longrightarrow> split_char c (x @ c # s) = x # split_char c s"
  by (induction x) auto

lemma split_join_char:
  "xs \<noteq> [] \<Longrightarrow> (\<forall>x \<in> set xs. c \<notin> set x) \<Longrightarrow> split_char c (join_char c xs) = xs"
  by (induction c xs rule: join_char.induct) (auto simp: split_char_no_sep split_char_append)

lemma split_char_parts: "x \<in> set (split_char c s) \<Longrightarrow> c \<notin> set x"
  by (induction s arbitrary: x) (auto split: list.splits if_splits)

lemma split_char_subset: "x \<in> set (split_char c s) \<Longrightarrow> set x \<subseteq> set s"
  by (induction s arbitrary: x) (fastforce split: list.splits if_splits)+

lemma rsplit_once_Some:
  "rsplit_once c s = Some (p, n) \<longleftrightarrow> s = p @ c # n \<and> c \<notin> set n"
proof
  assume "rsplit_once c s = Some (p, n)"
  then obtain x where d: "dropWhile (\<lambda>x. x \<noteq> c) (rev s) = x # rev p"
    and n: "n = rev (takeWhile (\<lambda>x. x \<noteq> c) (rev s))"
    by (auto simp: rsplit_once_def split: list.splits)
  have x: "x = c"
    using d by (metis (mono_tags, lifting) dropWhile_eq_Cons_conv)
  have "rev s = takeWhile (\<lambda>x. x \<noteq> c) (rev s) @ c # rev p"
    using d x by (metis takeWhile_dropWhile_id)
  then have "s = p @ c # n"
    using n by (metis append_Cons append_assoc append_Nil rev_append rev.simps(2) rev_rev_ident)
  moreover have "c \<notin> set n"
    using n by (auto dest: set_takeWhileD)
  ultimately show "s = p @ c # n \<and> c \<notin> set n" ..
next
  assume s: "s = p @ c # n \<and> c \<notin> set n"
  then have n: "\<And>x. x \<in> set (rev n) \<Longrightarrow> x \<noteq> c" by auto
  have r: "rev s = rev n @ c # rev p" using s by simp
  have "dropWhile (\<lambda>x. x \<noteq> c) (rev s) = c # rev p"
    unfolding r using n by (subst dropWhile_append2) auto
  moreover have "takeWhile (\<lambda>x. x \<noteq> c) (rev s) = rev n"
    unfolding r using n by (subst takeWhile_append2) auto
  ultimately show "rsplit_once c s = Some (p, n)"
    by (simp add: rsplit_once_def)
qed

lemma rsplit_once_None: "rsplit_once c s = None \<longleftrightarrow> c \<notin> set s"
proof
  assume none: "rsplit_once c s = None"
  then have "dropWhile (\<lambda>x. x \<noteq> c) (rev s) = []"
    by (auto simp: rsplit_once_def split: list.splits)
  then show "c \<notin> set s" by (auto simp: dropWhile_eq_Nil_conv)
next
  assume "c \<notin> set s"
  then have "dropWhile (\<lambda>x. x \<noteq> c) (rev s) = []"
    by (auto simp: dropWhile_eq_Nil_conv)
  then show "rsplit_once c s = None"
    by (simp add: rsplit_once_def del: dropWhile_eq_Nil_conv)
qed

lemma starts_with_append [simp]: "starts_with (p @ s) p"
  by (simp add: starts_with_def)

lemma starts_with_iff: "starts_with s p \<longleftrightarrow> (\<exists>r. s = p @ r)"
  by (metis append_take_drop_id starts_with_append starts_with_def)

lemma trim_start_matches_id: "\<not> (\<exists>r. s = c # r) \<Longrightarrow> trim_start_matches c s = s"
  by (cases s) (auto simp: trim_start_matches_def)

lemma trim_end_matches_id: "\<not> (\<exists>r. s = r @ [c]) \<Longrightarrow> trim_end_matches c s = s"
proof -
  assume "\<not> (\<exists>r. s = r @ [c])"
  then have "\<not> (\<exists>r. rev s = c # r)"
    by (metis rev.simps(2) rev_rev_ident)
  then have "dropWhile (\<lambda>x. x = c) (rev s) = rev s"
    by (cases "rev s") auto
  then show ?thesis by (simp add: trim_end_matches_def)
qed

lemma trim_matches_id:
  "\<not> (\<exists>r. s = c # r) \<Longrightarrow> \<not> (\<exists>r. s = r @ [c]) \<Longrightarrow> trim_matches c s = s"
  by (simp add: trim_matches_def trim_start_matches_id trim_end_matches_id)

end
