(* ===== verification/Lil_Entries.thy ===== *)
theory Lil_Entries
  imports Lil_Bytes
begin

text \<open>
  The core data types of \<open>src/entries.rs\<close>: entry kinds, versions and their order, entries,
  changes, tombstones, and the validation of symlink targets. The version order is the one the
  replication protocol resolves conflicts with; here it is shown to be a linear order and is
  registered as such, so that \<open>max\<close>, sorting and the library's order reasoning apply to it.
\<close>

section \<open>Kinds, versions, entries\<close>

type_synonym hash32 = bytes

type_synonym gc_watermark = "(string, u64) fmap"

datatype entry_kind = File | Dir | Tombstone | Symlink

fun kind_as_str :: "entry_kind \<Rightarrow> string" where
  "kind_as_str File = ''file''"
| "kind_as_str Dir = ''dir''"
| "kind_as_str Tombstone = ''tombstone''"
| "kind_as_str Symlink = ''symlink''"

datatype version = Version (v_lamport: u64) (v_origin: string)

record entry =
  e_path :: string
  e_kind :: entry_kind
  e_content_hash :: "hash32 option"
  e_symlink_target :: "string option"
  e_size :: u64
  e_mode :: "u32 option"
  e_version :: version

record change =
  c_path :: string
  c_old :: "entry option"
  c_new :: entry

subsection \<open>The order on versions\<close>

datatype ordering = Less | Equal | Greater

definition ord_cmp :: "'a::linorder \<Rightarrow> 'a \<Rightarrow> ordering" where
  "ord_cmp a b = (if a < b then Less else if a = b then Equal else Greater)"

fun then_with :: "ordering \<Rightarrow> ordering \<Rightarrow> ordering" where
  "then_with Equal o2 = o2"
| "then_with o1 o2 = o1"

definition version_cmp :: "version \<Rightarrow> version \<Rightarrow> ordering" where
  "version_cmp a b =
     then_with (ord_cmp (v_lamport a) (v_lamport b)) (ord_cmp (v_origin a) (v_origin b))"

lemma ord_cmp_simps [simp]:
  "ord_cmp a b = Less \<longleftrightarrow> a < b"
  "ord_cmp a b = Equal \<longleftrightarrow> a = b"
  "ord_cmp a b = Greater \<longleftrightarrow> b < a"
  by (auto simp: ord_cmp_def)

lemma then_with_Less [simp]: "then_with x y = Less \<longleftrightarrow> x = Less \<or> x = Equal \<and> y = Less"
  by (cases x) auto

lemma then_with_Greater [simp]:
  "then_with x y = Greater \<longleftrightarrow> x = Greater \<or> x = Equal \<and> y = Greater"
  by (cases x) auto

text \<open>\<open>PartialOrd\<close>, of which \<open><\<close> is derived.\<close>

definition version_partial_cmp :: "version \<Rightarrow> version \<Rightarrow> ordering option" where
  "version_partial_cmp a b = Some (version_cmp a b)"

instantiation version :: linorder
begin

definition less_version :: "version \<Rightarrow> version \<Rightarrow> bool" where
  "a < b \<longleftrightarrow> version_partial_cmp a b = Some Less"

definition less_eq_version :: "version \<Rightarrow> version \<Rightarrow> bool" where
  "a \<le> b \<longleftrightarrow> version_cmp a b \<noteq> Greater"

instance
proof
  fix a b c :: version
  show "a < b \<longleftrightarrow> a \<le> b \<and> \<not> b \<le> a"
    by (auto simp: less_version_def version_partial_cmp_def less_eq_version_def version_cmp_def)
  show "a \<le> a"
    by (simp add: less_eq_version_def version_cmp_def)
  show "a \<le> c" if "a \<le> b" "b \<le> c"
    using that by (auto simp: less_eq_version_def version_cmp_def)
  show "a = b" if "a \<le> b" "b \<le> a"
    using that by (cases a; cases b) (auto simp: less_eq_version_def version_cmp_def)
  show "a \<le> b \<or> b \<le> a"
    by (auto simp: less_eq_version_def version_cmp_def)
qed

end

lemma version_less_iff:
  "a < b \<longleftrightarrow> v_lamport a < v_lamport b \<or> v_lamport a = v_lamport b \<and> v_origin a < v_origin b"
  by (auto simp: less_version_def version_partial_cmp_def version_cmp_def)

lemma version_less_lamport: "v_lamport a < v_lamport b \<Longrightarrow> a < b"
  by (simp add: version_less_iff)

subsection \<open>Changes and tombstones\<close>

fun verb_of :: "entry option \<Rightarrow> entry_kind \<Rightarrow> string" where
  "verb_of None File = ''file new''"
| "verb_of None Dir = ''dir new''"
| "verb_of None Tombstone = ''tombstone new''"
| "verb_of (Some old) Tombstone = ''delete''"
| "verb_of (Some old) File =
     (if e_kind old = File then ''file update'' else ''file replace'')"
| "verb_of (Some old) Dir =
     (if e_kind old = Dir then ''dir update'' else ''dir replace'')"
| "verb_of None Symlink = ''symlink new''"
| "verb_of (Some old) Symlink =
     (if e_kind old = Symlink then ''symlink update'' else ''symlink replace'')"

definition change_verb :: "change \<Rightarrow> string" where
  "change_verb c = verb_of (c_old c) (e_kind (c_new c))"

definition tombstone_entry :: "string \<Rightarrow> entry \<Rightarrow> version \<Rightarrow> entry" where
  "tombstone_entry p old v =
     \<lparr>e_path = p, e_kind = Tombstone, e_content_hash = None, e_symlink_target = None,
      e_size = 0, e_mode = e_mode old, e_version = v\<rparr>"

definition placeholder_version :: version where
  "placeholder_version = Version 0 []"

definition same_observed_state :: "entry \<Rightarrow> entry \<Rightarrow> bool" where
  "same_observed_state l r \<longleftrightarrow>
     e_path l = e_path r \<and> e_kind l = e_kind r \<and> e_content_hash l = e_content_hash r \<and>
     e_symlink_target l = e_symlink_target r \<and> e_size l = e_size r \<and> e_mode l = e_mode r"

lemma tombstone_entry_simps [simp]:
  "e_path (tombstone_entry p old v) = p"
  "e_kind (tombstone_entry p old v) = Tombstone"
  "e_version (tombstone_entry p old v) = v"
  by (simp_all add: tombstone_entry_def)

lemma same_observed_state_version:
  "same_observed_state l r \<longleftrightarrow> l\<lparr>e_version := e_version r\<rparr> = r"
  by (cases l; cases r) (auto simp: same_observed_state_def)

section \<open>Paths and symlink targets\<close>

text \<open>
  \<open>Path::components\<close> on Unix: a leading \<open>/\<close> gives \<open>RootDir\<close>; empty parts and \<open>.\<close> parts are
  dropped, except a leading \<open>.\<close> of a relative path, which is \<open>CurDir\<close>.
\<close>

datatype component = RootDir | CurDir | ParentDir | Normal string

definition component_of :: "string \<Rightarrow> component option" where
  "component_of p =
     (if p = [] \<or> p = ''.'' then None
      else if p = ''..'' then Some ParentDir else Some (Normal p))"

definition path_components :: "string \<Rightarrow> component list" where
  "path_components s =
     (let parts = split_char CHR ''/'' s in
      if starts_with s ''/'' then RootDir # List.map_filter component_of parts
      else if hd parts = ''.'' then CurDir # List.map_filter component_of (tl parts)
      else List.map_filter component_of parts)"

definition is_absolute :: "string \<Rightarrow> bool" where
  "is_absolute s \<longleftrightarrow> starts_with s ''/''"

fun unsafe_component :: "component \<Rightarrow> bool" where
  "unsafe_component (Normal _) = False"
| "unsafe_component _ = True"

definition validate_symlink_target :: "string \<Rightarrow> unit io_result" where
  "validate_symlink_target target =
     (if target = [] \<or> CHR 0x00 \<in> set target \<or> CHR 0x5C \<in> set target then Inl InvalidInput
      else if is_absolute target \<or> list_ex unsafe_component (path_components target)
      then Inl InvalidInput
      else Inr ())"

text \<open>
  Lexical resolution of a path against a directory given as its list of names below the
  synced root (innermost last): \<open>None\<close> when the walk leaves the root.
\<close>

fun resolve_components :: "string list \<Rightarrow> component list \<Rightarrow> string list option" where
  "resolve_components base [] = Some base"
| "resolve_components base (RootDir # cs) = None"
| "resolve_components base (CurDir # cs) = resolve_components base cs"
| "resolve_components base (ParentDir # cs) =
     (if base = [] then None else resolve_components (butlast base) cs)"
| "resolve_components base (Normal n # cs) = resolve_components (base @ [n]) cs"

lemma resolve_components_normal:
  "\<not> list_ex unsafe_component cs \<Longrightarrow>
     \<exists>ns. cs = map Normal ns \<and> resolve_components base cs = Some (base @ ns)"
proof (induction cs arbitrary: base)
  case (Cons c cs)
  then obtain n where c: "c = Normal n"
    by (cases c) auto
  with Cons.prems have "\<not> list_ex unsafe_component cs" by simp
  from Cons.IH [OF this, of "base @ [n]"] obtain ns where
    "cs = map Normal ns" "resolve_components (base @ [n]) cs = Some (base @ n # ns)"
    by auto
  with c show ?case
    by (intro exI [of _ "n # ns"]) simp
qed simp

lemma validate_symlink_target_Inr:
  "validate_symlink_target t = Inr () \<longleftrightarrow>
     t \<noteq> [] \<and> CHR 0x00 \<notin> set t \<and> CHR 0x5C \<notin> set t \<and> \<not> is_absolute t \<and>
     \<not> list_ex unsafe_component (path_components t)"
  by (simp add: validate_symlink_target_def)

end
