(* ===== verification/Lil_Fs.thy ===== *)
theory Lil_Fs
  imports Lil_Entries
begin

text \<open>
  The part of \<open>std::fs\<close> the program uses, on a file system given as a finite map from absolute
  paths (lists of names; the root directory is the empty list) to nodes. Symbolic links are
  followed as the operating system does, with its limit of 40 links per lookup. Operations pass
  the file system explicitly and return it together with their \<open>io_result\<close>, so that an error
  keeps the effects that preceded it. A fault injected at a path (\<open>fs_faults\<close>) makes every
  operation on it fail with the given error. Directory modes are enforced for removal only.

  File and directory names are taken to be UTF-8, so that \<open>to_string_lossy\<close> is the identity.
\<close>

unbundle bit_operations_syntax

section \<open>Nodes and metadata\<close>

type_synonym abspath = "string list"

datatype fs_node =
    FsFile (ff_content: bytes) (ff_mode: u32) (ff_mtime: int)
  | FsDir (fd_mode: u32)
  | FsLink (fl_target: string)
  | FsSpecial (fp_mode: u32)

record fs =
  fs_nodes :: "(abspath, fs_node) fmap"
  fs_faults :: "(abspath, io_error) fmap"
  fs_now :: int
  fs_file_mode :: u32
  fs_dir_mode :: u32

datatype file_type = FtFile | FtDir | FtSymlink | FtOther

record metadata =
  md_type :: file_type
  md_len :: u64
  md_modified :: "int option"
  md_mode :: u32

fun metadata_of :: "fs_node \<Rightarrow> metadata" where
  "metadata_of (FsFile c m t) = \<lparr>md_type = FtFile, md_len = of_nat (length c), md_modified = Some t, md_mode = m\<rparr>"
| "metadata_of (FsDir m) = \<lparr>md_type = FtDir, md_len = 0, md_modified = Some 0, md_mode = m\<rparr>"
| "metadata_of (FsLink t) = \<lparr>md_type = FtSymlink, md_len = of_nat (length t), md_modified = Some 0, md_mode = 0xA1FF\<rparr>"
| "metadata_of (FsSpecial m) = \<lparr>md_type = FtOther, md_len = 0, md_modified = Some 0, md_mode = m\<rparr>"

definition node_at :: "fs \<Rightarrow> abspath \<Rightarrow> fs_node option" where
  "node_at fs q = (if q = [] then Some (FsDir 0x41ED) else fmlookup (fs_nodes fs) q)"

fun is_dir_node :: "fs_node option \<Rightarrow> bool" where
  "is_dir_node (Some (FsDir m)) = True"
| "is_dir_node _ = False"

section \<open>Path resolution\<close>

text \<open>
  Follow the components \<open>cs\<close> from the directory \<open>cur\<close>, following at most \<open>n\<close> links. The last
  component may be missing, as for a file about to be created.
\<close>

function walk :: "nat \<Rightarrow> fs \<Rightarrow> abspath \<Rightarrow> component list \<Rightarrow> abspath io_result" where
  "walk n fs cur [] = Inr cur"
| "walk n fs cur (RootDir # cs) = walk n fs [] cs"
| "walk n fs cur (CurDir # cs) = walk n fs cur cs"
| "walk n fs cur (ParentDir # cs) = walk n fs (butlast cur) cs"
| "walk n fs cur (Normal x # cs) =
     (case node_at fs (cur @ [x]) of
        None \<Rightarrow> if \<not> is_dir_node (node_at fs cur) then Inl NotADirectory
                else if cs = [] then Inr (cur @ [x]) else Inl NotFound
      | Some nd \<Rightarrow>
          (case nd of
             FsLink t \<Rightarrow> (case n of 0 \<Rightarrow> Inl Other
                          | Suc k \<Rightarrow> walk k fs cur (path_components t @ cs))
           | _ \<Rightarrow> walk n fs (cur @ [x]) cs))"
  by pat_completeness auto
termination
  by (relation "measures [\<lambda>(n, fs, cur, cs). n, \<lambda>(n, fs, cur, cs). length cs]") auto

definition MAX_LINKS :: nat where
  "MAX_LINKS = 40"

text \<open>\<open>follow\<close> resolves every component, \<open>nofollow\<close> all but the last.\<close>

definition follow :: "fs \<Rightarrow> abspath \<Rightarrow> abspath io_result" where
  "follow fs p = walk MAX_LINKS fs [] (map Normal p)"

definition nofollow :: "fs \<Rightarrow> abspath \<Rightarrow> abspath io_result" where
  "nofollow fs p =
     (if p = [] then Inr []
      else case follow fs (butlast p) of
             Inl e \<Rightarrow> Inl e
           | Inr q \<Rightarrow> (case node_at fs q of
                         None \<Rightarrow> Inl NotFound
                       | Some nd \<Rightarrow> if is_dir_node (Some nd) then Inr (q @ [last p])
                                    else Inl NotADirectory))"

definition fault :: "fs \<Rightarrow> abspath \<Rightarrow> 'a io_result \<Rightarrow> 'a io_result" where
  "fault fs q r = (case fmlookup (fs_faults fs) q of Some e \<Rightarrow> Inl e | None \<Rightarrow> r)"

definition at_node :: "fs \<Rightarrow> abspath \<Rightarrow> (abspath \<times> fs_node) io_result" where
  "at_node fs q = fault fs q (case node_at fs q of None \<Rightarrow> Inl NotFound | Some nd \<Rightarrow> Inr (q, nd))"

definition and_then :: "'a io_result \<Rightarrow> ('a \<Rightarrow> 'b io_result) \<Rightarrow> 'b io_result" where
  "and_then r k = (case r of Inl e \<Rightarrow> Inl e | Inr a \<Rightarrow> k a)"

definition lstat_node :: "fs \<Rightarrow> abspath \<Rightarrow> (abspath \<times> fs_node) io_result" where
  "lstat_node fs p = and_then (nofollow fs p) (at_node fs)"

definition stat_node :: "fs \<Rightarrow> abspath \<Rightarrow> (abspath \<times> fs_node) io_result" where
  "stat_node fs p = and_then (follow fs p) (at_node fs)"

section \<open>Queries\<close>

definition symlink_metadata :: "fs \<Rightarrow> abspath \<Rightarrow> metadata io_result" where
  "symlink_metadata fs p = and_then (lstat_node fs p) (\<lambda>(q, nd). Inr (metadata_of nd))"

definition is_dir :: "fs \<Rightarrow> abspath \<Rightarrow> bool" where
  "is_dir fs p = (case stat_node fs p of Inr (q, FsDir m) \<Rightarrow> True | _ \<Rightarrow> False)"

definition canonicalize :: "fs \<Rightarrow> abspath \<Rightarrow> abspath io_result" where
  "canonicalize fs p = and_then (stat_node fs p) (\<lambda>(q, nd). Inr q)"

definition read_file :: "fs \<Rightarrow> abspath \<Rightarrow> bytes io_result" where
  "read_file fs p =
     and_then (stat_node fs p) (\<lambda>(q, nd). case nd of FsFile c m t \<Rightarrow> Inr c | _ \<Rightarrow> Inl Other)"

definition read_link :: "fs \<Rightarrow> abspath \<Rightarrow> string io_result" where
  "read_link fs p =
     and_then (lstat_node fs p) (\<lambda>(q, nd). case nd of FsLink t \<Rightarrow> Inr t | _ \<Rightarrow> Inl InvalidInput)"

text \<open>\<open>fs::read_dir\<close>: the paths of the children, in the order of the map (the program sorts
  them or does not depend on the order).\<close>

definition child_names :: "fs \<Rightarrow> abspath \<Rightarrow> string list" where
  "child_names fs q = map last (filter (\<lambda>k. k \<noteq> [] \<and> butlast k = q) (fm_keys (fs_nodes fs)))"

definition read_dir :: "fs \<Rightarrow> abspath \<Rightarrow> abspath list io_result" where
  "read_dir fs p =
     and_then (stat_node fs p)
       (\<lambda>(q, nd). case nd of FsDir m \<Rightarrow> Inr (map (\<lambda>n. p @ [n]) (child_names fs q))
                   | _ \<Rightarrow> Inl NotADirectory)"

section \<open>Updates\<close>

definition put_node :: "abspath \<Rightarrow> fs_node \<Rightarrow> fs \<Rightarrow> fs" where
  "put_node q nd fs = fs\<lparr>fs_nodes := fmupd q nd (fs_nodes fs)\<rparr>"

definition drop_node :: "abspath \<Rightarrow> fs \<Rightarrow> fs" where
  "drop_node q fs = fs\<lparr>fs_nodes := fmdrop q (fs_nodes fs)\<rparr>"

definition below :: "abspath \<Rightarrow> abspath \<Rightarrow> bool" where
  "below q k \<longleftrightarrow> take (length q) k = q"

definition with_fs :: "fs \<Rightarrow> 'a io_result \<Rightarrow> ('a \<Rightarrow> unit io_result \<times> fs) \<Rightarrow> unit io_result \<times> fs" where
  "with_fs fs r k = (case r of Inl e \<Rightarrow> (Inl e, fs) | Inr a \<Rightarrow> k a)"

definition remove_file :: "fs \<Rightarrow> abspath \<Rightarrow> unit io_result \<times> fs" where
  "remove_file fs p =
     with_fs fs (lstat_node fs p)
       (\<lambda>(q, nd). case nd of FsDir m \<Rightarrow> (Inl Other, fs) | _ \<Rightarrow> (Inr (), drop_node q fs))"

text \<open>Removing a directory needs read, write and search permission on every directory in it.\<close>

definition dirs_writable :: "fs \<Rightarrow> abspath \<Rightarrow> bool" where
  "dirs_writable fs q =
     list_all (\<lambda>(k, nd). below q k \<longrightarrow>
                 (case nd of FsDir m \<Rightarrow> m AND 0x1C0 = 0x1C0 | _ \<Rightarrow> True)) (fm_iter (fs_nodes fs))"

definition remove_dir_all :: "fs \<Rightarrow> abspath \<Rightarrow> unit io_result \<times> fs" where
  "remove_dir_all fs p =
     with_fs fs (lstat_node fs p)
       (\<lambda>(q, nd). case nd of
           FsDir m \<Rightarrow>
             if dirs_writable fs q
             then (Inr (), fs\<lparr>fs_nodes := fmfilter (\<lambda>k. \<not> below q k) (fs_nodes fs)\<rparr>)
             else (Inl PermissionDenied, fs)
         | FsLink t \<Rightarrow> (Inr (), drop_node q fs)
         | _ \<Rightarrow> (Inl NotADirectory, fs))"

definition free_slot :: "fs \<Rightarrow> abspath \<Rightarrow> abspath io_result" where
  "free_slot fs p =
     and_then (nofollow fs p)
       (\<lambda>q. fault fs q (case node_at fs q of None \<Rightarrow> Inr q | Some _ \<Rightarrow> Inl Other))"

definition create_dir :: "fs \<Rightarrow> abspath \<Rightarrow> unit io_result \<times> fs" where
  "create_dir fs p =
     with_fs fs (free_slot fs p) (\<lambda>q. (Inr (), put_node q (FsDir (fs_dir_mode fs)) fs))"

definition symlink :: "fs \<Rightarrow> string \<Rightarrow> abspath \<Rightarrow> unit io_result \<times> fs" where
  "symlink fs target p =
     with_fs fs (free_slot fs p) (\<lambda>q. (Inr (), put_node q (FsLink target) fs))"

text \<open>\<open>DirBuilder::create_dir_all\<close>: try the directory itself, then its parent, then again; an
  error is ignored when the directory exists.\<close>

definition create_dir_or_exists :: "fs \<Rightarrow> abspath \<Rightarrow> unit io_result \<times> fs" where
  "create_dir_or_exists fs p =
     (case create_dir fs p of
        (Inr _, fs') \<Rightarrow> (Inr (), fs')
      | (Inl e, fs') \<Rightarrow> if is_dir fs' p then (Inr (), fs') else (Inl e, fs'))"

function create_dir_all :: "fs \<Rightarrow> abspath \<Rightarrow> unit io_result \<times> fs" where
  "create_dir_all fs p =
     (if p = [] then (Inr (), fs)
      else case create_dir fs p of
             (Inr _, fs') \<Rightarrow> (Inr (), fs')
           | (Inl e, fs') \<Rightarrow>
               if e = NotFound
               then (case create_dir_all fs (butlast p) of
                       (Inl e', fs1) \<Rightarrow> (Inl e', fs1)
                     | (Inr _, fs1) \<Rightarrow> create_dir_or_exists fs1 p)
               else if is_dir fs p then (Inr (), fs) else (Inl e, fs))"
  by pat_completeness auto
termination
  by (relation "measure (\<lambda>(fs, p). length p)") auto

declare create_dir_all.simps [simp del]

definition write_file :: "fs \<Rightarrow> abspath \<Rightarrow> bytes \<Rightarrow> unit io_result \<times> fs" where
  "write_file fs p c =
     with_fs fs (and_then (follow fs p) (\<lambda>q. fault fs q (Inr q)))
       (\<lambda>q. case node_at fs q of
              None \<Rightarrow> (Inr (), put_node q (FsFile c (fs_file_mode fs) (fs_now fs)) fs)
            | Some (FsFile _ m _) \<Rightarrow> (Inr (), put_node q (FsFile c m (fs_now fs)) fs)
            | Some _ \<Rightarrow> (Inl Other, fs))"

text \<open>\<open>fs::rename\<close> of a file or link; the program renames nothing else. The target, when it
  exists and is not a directory, is replaced.\<close>

definition rename :: "fs \<Rightarrow> abspath \<Rightarrow> abspath \<Rightarrow> unit io_result \<times> fs" where
  "rename fs a b =
     with_fs fs (lstat_node fs a)
       (\<lambda>(qa, nd). with_fs fs (and_then (nofollow fs b) (\<lambda>q. fault fs q (Inr q)))
          (\<lambda>qb. if is_dir_node (Some nd) \<or> is_dir_node (node_at fs qb) then (Inl Other, fs)
                else (Inr (), put_node qb nd (drop_node qa fs))))"

text \<open>\<open>chmod\<close> replaces the permission bits and keeps the type bits of the mode.\<close>

definition chmod_bits :: "u32 \<Rightarrow> u32 \<Rightarrow> u32" where
  "chmod_bits old m = (old AND NOT 0xFFF) OR (m AND 0xFFF)"

definition set_permissions :: "fs \<Rightarrow> abspath \<Rightarrow> u32 \<Rightarrow> unit io_result \<times> fs" where
  "set_permissions fs p m =
     with_fs fs (stat_node fs p)
       (\<lambda>(q, nd). case nd of
           FsFile c old t \<Rightarrow> (Inr (), put_node q (FsFile c (chmod_bits old m) t) fs)
         | FsDir old \<Rightarrow> (Inr (), put_node q (FsDir (chmod_bits old m)) fs)
         | FsSpecial old \<Rightarrow> (Inr (), put_node q (FsSpecial (chmod_bits old m)) fs)
         | FsLink t \<Rightarrow> (Inl Other, fs))"

end
