(* ===== verification/Lil_Ignore.thy ===== *)
theory Lil_Ignore
  imports Lil_Entries
begin

text \<open>
  Ignore rules, \<open>src/ignore.rs\<close>: parsing of \<open>.nolil\<close>, the glob matcher, the evaluation of a
  list of rules on a relative path, and the built-in exclusions. The matcher is related to a
  denotational reading of patterns as languages of strings.
\<close>

section \<open>Constants and patterns\<close>

definition STATE_DIR :: string where
  "STATE_DIR = ''.lil''"

definition IGNORE_FILE_NAME :: string where
  "IGNORE_FILE_NAME = ''.nolil''"

definition IGNORED_FILE_NAMES :: "string list" where
  "IGNORED_FILE_NAMES = [''.DS_Store'', ''Thumbs.db'', ''Desktop.ini'']"

definition IGNORED_FILE_PREFIXES :: "string list" where
  "IGNORED_FILE_PREFIXES = [''._'']"

definition IGNORED_DIR_NAMES :: "string list" where
  "IGNORED_DIR_NAMES =
     [''.Spotlight-V100'', ''.Trashes'', ''.fseventsd'', ''$RECYCLE.BIN'', ''lost+found'']"

record ignore_pattern =
  ip_pattern :: string
  ip_negated :: bool
  ip_directory_only :: bool
  ip_anchored :: bool
  ip_has_slash :: bool

section \<open>Parsing\<close>

text \<open>
  \<open>str::lines\<close>: lines are terminated by a newline (a carriage return before it belongs to the
  terminator), and a final empty line is not reported. \<open>str::trim\<close> removes white space at both
  ends; on bytes this is the ASCII white space.
\<close>

definition strip_cr :: "string \<Rightarrow> string" where
  "strip_cr s = (if s \<noteq> [] \<and> last s = CHR 0x0D then butlast s else s)"

definition str_lines :: "string \<Rightarrow> string list" where
  "str_lines s =
     (let parts = split_char CHR 0x0A s in
      map strip_cr (butlast parts) @ (if last parts = [] then [] else [last parts]))"

definition is_whitespace :: "char \<Rightarrow> bool" where
  "is_whitespace c \<longleftrightarrow> c \<in> {CHR 0x09, CHR 0x0A, CHR 0x0B, CHR 0x0C, CHR 0x0D, CHR 0x20}"

definition str_trim :: "string \<Rightarrow> string" where
  "str_trim s = rev (dropWhile is_whitespace (rev (dropWhile is_whitespace s)))"

definition ends_with_char :: "char \<Rightarrow> string \<Rightarrow> bool" where
  "ends_with_char c s \<longleftrightarrow> s \<noteq> [] \<and> last s = c"

definition parse_ignore_line :: "string \<Rightarrow> ignore_pattern option" where
  "parse_ignore_line raw_line =
     (let line0 = str_trim raw_line in
      if line0 = [] \<or> starts_with line0 ''#'' then None
      else
        let negated = starts_with line0 ''!'';
            line1 = (if negated then drop 1 line0 else line0);
            directory_only = ends_with_char CHR ''/'' line1;
            line2 = (if directory_only then trim_end_matches CHR ''/'' line1 else line1);
            anchored = starts_with line2 ''/'';
            line3 = (if anchored then drop 1 line2 else line2)
        in if line3 = [] then None
           else Some \<lparr>ip_pattern = line3, ip_negated = negated,
                      ip_directory_only = directory_only, ip_anchored = anchored,
                      ip_has_slash = (CHR ''/'' \<in> set line3)\<rparr>)"

definition parse_ignore_patterns :: "string \<Rightarrow> ignore_pattern list" where
  "parse_ignore_patterns contents = List.map_filter parse_ignore_line (str_lines contents)"

section \<open>Matching\<close>

function glob_match_bytes :: "string \<Rightarrow> string \<Rightarrow> bool" where
  "glob_match_bytes [] inp = (inp = [])"
| "glob_match_bytes (c # p) inp =
     (if starts_with (c # p) ''**'' then
        (if glob_match_bytes (tl p) inp then True
         else (case inp of [] \<Rightarrow> False | _ # rest \<Rightarrow> glob_match_bytes (c # p) rest))
      else if c = CHR ''*'' then
        (if glob_match_bytes p inp then True
         else (case inp of [] \<Rightarrow> False
               | t # rest \<Rightarrow> if t = CHR ''/'' then False else glob_match_bytes (c # p) rest))
      else if c = CHR ''?'' then
        (case inp of [] \<Rightarrow> False
         | t # rest \<Rightarrow> if t = CHR ''/'' then False else glob_match_bytes p rest)
      else (case inp of [] \<Rightarrow> False
            | t # rest \<Rightarrow> if c = t then glob_match_bytes p rest else False))"
  by pat_completeness auto
termination
  by (relation "measure (\<lambda>(p, t). length p + length t)") auto

declare glob_match_bytes.simps(2) [simp del]

definition glob_match :: "string \<Rightarrow> string \<Rightarrow> bool" where
  "glob_match pattern inp = glob_match_bytes pattern inp"

definition directory_candidates :: "string \<Rightarrow> string list" where
  "directory_candidates relative =
     (let parts = split_char CHR ''/'' relative in
      map (\<lambda>i. join_char CHR ''/'' (take (Suc i) parts)) [0..<length parts])"

function path_suffix_candidates :: "string \<Rightarrow> string list" where
  "path_suffix_candidates relative =
     relative # (case dropWhile (\<lambda>c. c \<noteq> CHR ''/'') relative of
                   [] \<Rightarrow> []
                 | _ # rest \<Rightarrow> path_suffix_candidates rest)"
  by pat_completeness auto
termination
proof (relation "measure length")
  fix relative x and rest :: string
  assume "dropWhile (\<lambda>c. c \<noteq> CHR ''/'') relative = x # rest"
  then have "length (x # rest) \<le> length relative"
    by (metis length_dropWhile_le)
  then show "(rest, relative) \<in> measure length" by simp
qed simp

declare path_suffix_candidates.simps [simp del]

definition target_matches :: "ignore_pattern \<Rightarrow> string \<Rightarrow> bool" where
  "target_matches pattern target =
     (if ip_anchored pattern then glob_match (ip_pattern pattern) target
      else if ip_has_slash pattern
      then list_ex (glob_match (ip_pattern pattern)) (path_suffix_candidates target)
      else list_ex (glob_match (ip_pattern pattern)) (split_char CHR ''/'' target))"

definition matches_ignore_pattern :: "ignore_pattern \<Rightarrow> string \<Rightarrow> bool" where
  "matches_ignore_pattern pattern relative =
     list_ex (target_matches pattern)
       (if ip_directory_only pattern then directory_candidates relative else [relative])"

definition matches_ignore_patterns :: "ignore_pattern list \<Rightarrow> string \<Rightarrow> bool" where
  "matches_ignore_patterns patterns relative =
     fold (\<lambda>pattern ignored.
             if matches_ignore_pattern pattern relative then \<not> ip_negated pattern else ignored)
       patterns False"

definition should_ignore_component :: "string \<Rightarrow> bool" where
  "should_ignore_component name \<longleftrightarrow>
     name = STATE_DIR \<or> name \<in> set IGNORED_FILE_NAMES \<or>
     list_ex (starts_with name) IGNORED_FILE_PREFIXES \<or> name \<in> set IGNORED_DIR_NAMES"

fun component_str :: "component \<Rightarrow> string" where
  "component_str RootDir = ''/''"
| "component_str CurDir = ''.''"
| "component_str ParentDir = ''..''"
| "component_str (Normal n) = n"

definition should_ignore :: "string \<Rightarrow> ignore_pattern list \<Rightarrow> bool" where
  "should_ignore relative ignore_patterns =
     (if relative = IGNORE_FILE_NAME then False
      else list_ex (\<lambda>c. should_ignore_component (component_str c)) (path_components relative) \<or>
           matches_ignore_patterns ignore_patterns relative)"

section \<open>The language of a glob pattern\<close>

datatype glob_token = AnyPath | AnySegment | AnyChar | Lit char

fun glob_tokens :: "string \<Rightarrow> glob_token list" where
  "glob_tokens [] = []"
| "glob_tokens [c] = [if c = CHR ''*'' then AnySegment else if c = CHR ''?'' then AnyChar else Lit c]"
| "glob_tokens (c # d # p) =
     (if c = CHR ''*'' \<and> d = CHR ''*'' then AnyPath # glob_tokens p
      else (if c = CHR ''*'' then AnySegment else if c = CHR ''?'' then AnyChar else Lit c)
             # glob_tokens (d # p))"

fun token_lang :: "glob_token \<Rightarrow> string set" where
  "token_lang AnyPath = UNIV"
| "token_lang AnySegment = {u. CHR ''/'' \<notin> set u}"
| "token_lang AnyChar = {[c] | c. c \<noteq> CHR ''/''}"
| "token_lang (Lit c) = {[c]}"

fun glob_lang :: "glob_token list \<Rightarrow> string set" where
  "glob_lang [] = {[]}"
| "glob_lang (t # ts) = {u @ v | u v. u \<in> token_lang t \<and> v \<in> glob_lang ts}"

lemma glob_lang_Nil:
  "[] \<in> glob_lang (AnyPath # ts) \<longleftrightarrow> [] \<in> glob_lang ts"
  "[] \<in> glob_lang (AnySegment # ts) \<longleftrightarrow> [] \<in> glob_lang ts"
  "[] \<notin> glob_lang (AnyChar # ts)"
  "[] \<notin> glob_lang (Lit c # ts)"
  by auto

lemma glob_lang_AnyPath_Cons:
  "x # s \<in> glob_lang (AnyPath # ts) \<longleftrightarrow> x # s \<in> glob_lang ts \<or> s \<in> glob_lang (AnyPath # ts)"
proof -
  have "(\<exists>u v. x # s = u @ v \<and> v \<in> glob_lang ts) \<longleftrightarrow>
      x # s \<in> glob_lang ts \<or> (\<exists>u v. s = u @ v \<and> v \<in> glob_lang ts)"
    by (metis append_Nil append_eq_Cons_conv)
  then show ?thesis by simp
qed

lemma glob_lang_AnySegment_Cons:
  "x # s \<in> glob_lang (AnySegment # ts) \<longleftrightarrow>
     x # s \<in> glob_lang ts \<or> (x \<noteq> CHR ''/'' \<and> s \<in> glob_lang (AnySegment # ts))"
proof -
  have "(\<exists>u v. x # s = u @ v \<and> CHR ''/'' \<notin> set u \<and> v \<in> glob_lang ts) \<longleftrightarrow>
      x # s \<in> glob_lang ts \<or>
      (x \<noteq> CHR ''/'' \<and> (\<exists>u v. s = u @ v \<and> CHR ''/'' \<notin> set u \<and> v \<in> glob_lang ts))"
    (is "?L \<longleftrightarrow> ?R")
  proof
    assume ?L
    then obtain u v where "x # s = u @ v" "CHR ''/'' \<notin> set u" "v \<in> glob_lang ts" by blast
    then show ?R by (cases u) auto
  next
    assume ?R
    then show ?L
    proof
      assume "x # s \<in> glob_lang ts"
      then have "x # s = [] @ (x # s) \<and> CHR ''/'' \<notin> set [] \<and> x # s \<in> glob_lang ts" by simp
      then show ?L by blast
    next
      assume "x \<noteq> CHR ''/'' \<and> (\<exists>u v. s = u @ v \<and> CHR ''/'' \<notin> set u \<and> v \<in> glob_lang ts)"
      then obtain u v where "s = u @ v" "CHR ''/'' \<notin> set (x # u)" "v \<in> glob_lang ts" by auto
      then have "x # s = (x # u) @ v \<and> CHR ''/'' \<notin> set (x # u) \<and> v \<in> glob_lang ts" by simp
      then show ?L by blast
    qed
  qed
  then show ?thesis by simp
qed

lemma glob_lang_char_Cons:
  "x # s \<in> glob_lang (AnyChar # ts) \<longleftrightarrow> x \<noteq> CHR ''/'' \<and> s \<in> glob_lang ts"
  "x # s \<in> glob_lang (Lit c # ts) \<longleftrightarrow> c = x \<and> s \<in> glob_lang ts"
  by (auto, rule exI [of _ "[x]"], auto)

lemmas glob_lang_rules =
  glob_lang_Nil glob_lang_AnyPath_Cons glob_lang_AnySegment_Cons glob_lang_char_Cons

lemma glob_match_bytes_lang:
  "glob_match_bytes pattern inp \<longleftrightarrow> inp \<in> glob_lang (glob_tokens pattern)"
proof (induction pattern inp rule: glob_match_bytes.induct)
  case 1
  then show ?case by simp
next
  case (2 c p inp)
  consider (any) q where "c = CHR ''*''" "p = CHR ''*'' # q"
    | (star) "c = CHR ''*''" "\<not> starts_with (c # p) ''**''"
    | (qm) "c = CHR ''?''"
    | (lit) "c \<noteq> CHR ''*''" "c \<noteq> CHR ''?''"
    by (cases p) (auto simp: starts_with_def)
  then show ?case
  proof cases
    case any
    then show ?thesis
      using "2.IH"(1,2)
      by (cases inp) (auto simp: glob_match_bytes.simps(2) starts_with_def glob_lang_rules
          simp del: glob_lang.simps)
  next
    case star
    then have "glob_tokens (c # p) = AnySegment # glob_tokens p"
      by (cases p) (auto simp: starts_with_def)
    with star "2.IH"(3,4) show ?thesis
      by (cases inp) (auto simp: glob_match_bytes.simps(2) glob_lang_rules
          simp del: glob_lang.simps)
  next
    case qm
    then have "glob_tokens (c # p) = AnyChar # glob_tokens p"
      by (cases p) auto
    with qm "2.IH"(5) show ?thesis
      by (cases inp) (auto simp: glob_match_bytes.simps(2) starts_with_def glob_lang_rules
          simp del: glob_lang.simps)
  next
    case lit
    then have "glob_tokens (c # p) = Lit c # glob_tokens p"
      by (cases p) auto
    with lit "2.IH"(6) show ?thesis
      by (cases inp) (auto simp: glob_match_bytes.simps(2) starts_with_def glob_lang_rules
          simp del: glob_lang.simps)
  qed
qed

text \<open>
  C36. The backtracking matcher is a decision procedure for the language of the pattern: \<open>**\<close>
  stands for any string, \<open>*\<close> for a string without a slash, \<open>?\<close> for one character other than a
  slash, and every other character for itself.
\<close>

theorem glob_match_is_language: "glob_match pattern inp \<longleftrightarrow> inp \<in> glob_lang (glob_tokens pattern)"
  by (simp add: glob_match_def glob_match_bytes_lang)

section \<open>Rule lists and built-in exclusions\<close>

lemma matches_ignore_patterns_snoc:
  "matches_ignore_patterns (ps @ [p]) r =
     (if matches_ignore_pattern p r then \<not> ip_negated p else matches_ignore_patterns ps r)"
  by (simp add: matches_ignore_patterns_def)

text \<open>
  The last rule of \<open>.nolil\<close> that matches a path decides: the path is ignored exactly when
  there is a matching rule, not negated, after which no rule matches.
\<close>

theorem last_matching_rule_decides:
  "matches_ignore_patterns ps r \<longleftrightarrow>
     (\<exists>as p bs. ps = as @ p # bs \<and> matches_ignore_pattern p r \<and> \<not> ip_negated p \<and>
        list_all (\<lambda>q. \<not> matches_ignore_pattern q r) bs)"
proof (induction ps rule: rev_induct)
  case Nil
  then show ?case by (simp add: matches_ignore_patterns_def)
next
  case (snoc q ps)
  let ?dec = "\<lambda>ps. \<exists>as p bs. ps = as @ p # bs \<and> matches_ignore_pattern p r \<and> \<not> ip_negated p \<and>
        list_all (\<lambda>q. \<not> matches_ignore_pattern q r) bs"
  have "?dec (ps @ [q]) \<longleftrightarrow>
      (if matches_ignore_pattern q r then \<not> ip_negated q else ?dec ps)" (is "?L \<longleftrightarrow> ?R")
  proof
    assume ?L
    then obtain as p bs where e: "ps @ [q] = as @ p # bs" "matches_ignore_pattern p r"
      "\<not> ip_negated p" "list_all (\<lambda>q. \<not> matches_ignore_pattern q r) bs" by blast
    then show ?R
      by (cases bs rule: rev_cases) auto
  next
    assume R: ?R
    show ?L
    proof (cases "matches_ignore_pattern q r")
      case True
      with R have "ps @ [q] = ps @ q # [] \<and> matches_ignore_pattern q r \<and> \<not> ip_negated q" by simp
      then show ?thesis by (intro exI [of _ ps] exI [of _ q] exI [of _ "[]"]) simp
    next
      case False
      with R obtain as p bs where "ps = as @ p # bs" "matches_ignore_pattern p r"
        "\<not> ip_negated p" "list_all (\<lambda>q. \<not> matches_ignore_pattern q r) bs" by auto
      with False have "ps @ [q] = as @ p # (bs @ [q]) \<and> matches_ignore_pattern p r \<and>
        \<not> ip_negated p \<and> list_all (\<lambda>q. \<not> matches_ignore_pattern q r) (bs @ [q])" by simp
      then show ?thesis by blast
    qed
  qed
  with snoc show ?case by (simp add: matches_ignore_patterns_snoc)
qed

lemma split_char_append_sep:
  "split_char c (s @ c # t) = split_char c s @ split_char c t"
  by (induction s) (auto split: list.splits)

lemma directory_candidates_mono:
  "set (directory_candidates r) \<subseteq> set (directory_candidates (r @ CHR ''/'' # x))"
proof -
  let ?a = "split_char CHR ''/'' r" and ?b = "split_char CHR ''/'' x"
  have "join_char CHR ''/'' (take (Suc i) ?a) \<in> set (directory_candidates (r @ CHR ''/'' # x))"
    if "i < length ?a" for i
  proof -
    have "take (Suc i) ?a = take (Suc i) (?a @ ?b)" using that by simp
    with that show ?thesis
      by (auto simp: directory_candidates_def split_char_append_sep Let_def
          intro!: image_eqI [of _ _ i])
  qed
  then show ?thesis
    by (auto simp: directory_candidates_def Let_def)
qed

text \<open>
  A directory rule (trailing slash) that matches a directory matches everything below it,
  at any depth.
\<close>

theorem directory_rule_covers_subtree:
  assumes "ip_directory_only p" and "matches_ignore_pattern p d"
  shows "matches_ignore_pattern p (d @ CHR ''/'' # x)"
  using assms directory_candidates_mono [of d x]
  by (auto simp: matches_ignore_pattern_def list_ex_iff)

theorem directory_rule_covers_subtree_witness:
  "(let p = hd (parse_ignore_patterns ''target/'') in
    ip_directory_only p \<and> matches_ignore_pattern p ''a/target'' \<and>
    matches_ignore_pattern p (''a/target'' @ CHR ''/'' # ''x/y.o''))"
proof -
  let ?p = "hd (parse_ignore_patterns ''target/'')"
  have p: "ip_directory_only ?p" "matches_ignore_pattern ?p ''a/target''" by code_simp+
  from directory_rule_covers_subtree [OF this, of "''x/y.o''"] p show ?thesis
    by (simp add: Let_def)
qed

lemma Normal_in_path_components:
  assumes "n \<in> set (split_char CHR ''/'' s)" and "n \<notin> {[], ''.'', ''..''}"
  shows "Normal n \<in> set (path_components s)"
proof -
  have c: "component_of n = Some (Normal n)"
    using assms(2) by (simp add: component_of_def)
  have mf: "Normal n \<in> set (List.map_filter component_of ps)" if "n \<in> set ps" for ps
    using that c by (force simp: List.map_filter_def)
  show ?thesis
  proof (cases "hd (split_char CHR ''/'' s) = ''.''")
    case True
    with assms have "n \<in> set (tl (split_char CHR ''/'' s))"
      by (cases "split_char CHR ''/'' s") auto
    with assms(1) mf show ?thesis by (simp add: path_components_def Let_def)
  next
    case False
    with assms(1) mf show ?thesis by (simp add: path_components_def Let_def)
  qed
qed

text \<open>
  The state directory \<open>.lil\<close> (and everything in a directory of that name) is ignored
  whatever the rules of \<open>.nolil\<close> say: no negated rule can bring it back.
\<close>

theorem state_dir_always_ignored:
  assumes "STATE_DIR \<in> set (split_char CHR ''/'' relative)"
  shows "should_ignore relative patterns"
proof -
  have "Normal STATE_DIR \<in> set (path_components relative)"
    using assms by (rule Normal_in_path_components) (simp add: STATE_DIR_def)
  then have "list_ex (\<lambda>c. should_ignore_component (component_str c)) (path_components relative)"
    by (force simp: list_ex_iff should_ignore_component_def)
  moreover have "relative \<noteq> IGNORE_FILE_NAME"
    using assms by (auto simp: IGNORE_FILE_NAME_def STATE_DIR_def)
  ultimately show ?thesis by (simp add: should_ignore_def)
qed

theorem state_dir_always_ignored_witness:
  "should_ignore ''.lil/lamport'' (parse_ignore_patterns ''!.lil'')"
  by (rule state_dir_always_ignored) code_simp

end
