(* ===== verification/Lil_Paths.thy ===== *)
theory Lil_Paths
  imports Lil_Prelude
begin

text \<open>
  The path arithmetic of \<open>src/tree.rs\<close> on slash-separated relative paths: parent, base name,
  the chain of ancestors (ending with the root, the empty path), prefix normalisation and
  joining (\<open>src/sync.rs\<close>). The lemmas give what the tree algorithms need: ancestors are
  strictly shorter and lexicographically smaller, and the chain is closed under parents.
\<close>

definition parent_path :: "string \<Rightarrow> string" where
  "parent_path p = (case rsplit_once CHR ''/'' p of Some (parent, _) \<Rightarrow> parent | None \<Rightarrow> [])"

definition basename :: "string \<Rightarrow> string" where
  "basename p = (case rsplit_once CHR ''/'' p of Some (_, name) \<Rightarrow> name | None \<Rightarrow> p)"

definition display_prefix :: "string \<Rightarrow> string" where
  "display_prefix p = (if p = [] then ''/'' else ''/'' @ p @ ''/'')"

definition normalize_prefix :: "string \<Rightarrow> string" where
  "normalize_prefix prefix = trim_matches CHR ''/'' prefix"

definition join_path :: "string \<Rightarrow> string \<Rightarrow> string" where
  "join_path prefix name =
     (let prefix = trim_matches CHR ''/'' prefix in
      if prefix = [] then name else prefix @ ''/'' @ name)"

lemma parent_path_shorter: "p \<noteq> [] \<Longrightarrow> length (parent_path p) < length p"
  by (auto simp: parent_path_def rsplit_once_Some split: option.splits)

text \<open>The loop of \<open>ancestors\<close>: push the current path, stop after the root.\<close>

function ancestors_from :: "string \<Rightarrow> string list" where
  "ancestors_from current =
     current # (if current = [] then [] else ancestors_from (parent_path current))"
  by pat_completeness auto
termination
  by (relation "measure length") (auto simp: parent_path_shorter)

declare ancestors_from.simps [simp del]

definition ancestors :: "string \<Rightarrow> string list" where
  "ancestors p = ancestors_from (parent_path p)"

lemma parent_path_Nil [simp]: "parent_path [] = []"
  by (simp add: parent_path_def rsplit_once_def)

lemma basename_Nil [simp]: "basename [] = []"
  by (simp add: basename_def rsplit_once_def)

lemma parent_path_join [simp]: "CHR ''/'' \<notin> set n \<Longrightarrow> parent_path (p @ CHR ''/'' # n) = p"
  by (simp add: parent_path_def rsplit_once_Some [of _ _ p n, THEN iffD2])

lemma basename_join [simp]: "CHR ''/'' \<notin> set n \<Longrightarrow> basename (p @ CHR ''/'' # n) = n"
  by (simp add: basename_def rsplit_once_Some [of _ _ p n, THEN iffD2])

lemma no_slash_parent [simp]: "CHR ''/'' \<notin> set n \<Longrightarrow> parent_path n = []"
  by (simp add: parent_path_def rsplit_once_None [THEN iffD2])

lemma no_slash_basename [simp]: "CHR ''/'' \<notin> set n \<Longrightarrow> basename n = n"
  by (simp add: basename_def rsplit_once_None [THEN iffD2])

lemma parent_basename_cases:
  obtains (nested) "p = parent_path p @ CHR ''/'' # basename p" "CHR ''/'' \<notin> set (basename p)"
    | (top) "parent_path p = []" "basename p = p" "CHR ''/'' \<notin> set p"
proof (cases "rsplit_once CHR ''/'' p")
  case None
  then show ?thesis using top by (simp add: rsplit_once_None)
next
  case (Some q)
  obtain a n where q: "q = (a, n)" by (cases q)
  with Some have s: "p = a @ CHR ''/'' # n" "CHR ''/'' \<notin> set n"
    by (auto simp: rsplit_once_Some)
  then have "parent_path p = a" "basename p = n" by simp_all
  with s show ?thesis using nested by metis
qed

lemma basename_no_slash: "CHR ''/'' \<notin> set (basename p)"
  by (cases p rule: parent_basename_cases) auto

text \<open>Two paths that do not start with a slash are equal when parent and base name agree.\<close>

lemma parent_basename_inject:
  assumes "parent_path p = parent_path q" "basename p = basename q"
    and "\<not> starts_with p ''/''" "\<not> starts_with q ''/''"
  shows "p = q"
proof (cases p rule: parent_basename_cases)
  case p: nested
  show ?thesis
  proof (cases q rule: parent_basename_cases)
    case nested
    with p assms(1,2) show ?thesis by metis
  next
    case top
    with p assms show ?thesis by (metis append_Nil append_Cons starts_with_append)
  qed
next
  case p: top
  show ?thesis
  proof (cases q rule: parent_basename_cases)
    case nested
    with p assms show ?thesis by (metis append_Nil append_Cons starts_with_append)
  next
    case top
    with p assms show ?thesis by simp
  qed
qed

section \<open>Order facts\<close>

lemma list_less_append: "y \<noteq> [] \<Longrightarrow> x < x @ (y :: 'a::linorder list)"
  by (induction x) (auto simp: neq_Nil_conv)

lemma parent_path_prefix: "p \<noteq> [] \<Longrightarrow> \<exists>r. r \<noteq> [] \<and> p = parent_path p @ r"
  by (cases p rule: parent_basename_cases) auto

lemma parent_path_less: "p \<noteq> [] \<Longrightarrow> parent_path p < p"
  using parent_path_prefix [of p] list_less_append by (metis)

section \<open>Ancestor chains\<close>

lemma in_ancestors_from:
  "q \<in> set (ancestors_from p) \<longleftrightarrow>
     q = p \<or> p \<noteq> [] \<and> q \<in> set (ancestors_from (parent_path p))"
  by (subst ancestors_from.simps) auto

lemma Nil_in_ancestors_from [simp]: "[] \<in> set (ancestors_from p)"
proof (induction p rule: ancestors_from.induct)
  case (1 p)
  then show ?case by (subst ancestors_from.simps) auto
qed

lemma Nil_in_ancestors [simp]: "[] \<in> set (ancestors p)"
  by (simp add: ancestors_def)

lemma self_in_ancestors_from [simp]: "p \<in> set (ancestors_from p)"
  by (subst ancestors_from.simps) simp

lemma parent_in_ancestors [simp]: "parent_path p \<in> set (ancestors p)"
  by (simp add: ancestors_def)

lemma ancestors_from_closed:
  "q \<in> set (ancestors_from p) \<Longrightarrow> parent_path q \<in> set (ancestors_from p)"
proof (induction p rule: ancestors_from.induct)
  case (1 p)
  show ?case
  proof (cases "p = []")
    case True
    with "1.prems" show ?thesis by (simp add: ancestors_from.simps)
  next
    case False
    with "1.prems" consider "q = p" | "q \<in> set (ancestors_from (parent_path p))"
      by (subst (asm) ancestors_from.simps) auto
    then have "parent_path q \<in> set (ancestors_from (parent_path p))"
      using "1.IH" [OF False] by cases auto
    with False show ?thesis by (subst ancestors_from.simps) simp
  qed
qed

lemma ancestors_closed: "q \<in> set (ancestors p) \<Longrightarrow> parent_path q \<in> set (ancestors p)"
  by (simp add: ancestors_def ancestors_from_closed)

lemma ancestors_from_cases:
  "q \<in> set (ancestors_from p) \<Longrightarrow> q \<noteq> p \<Longrightarrow>
     \<exists>c. c \<in> set (ancestors_from p) \<and> c \<noteq> [] \<and> parent_path c = q"
proof (induction p rule: ancestors_from.induct)
  case (1 p)
  then have p: "p \<noteq> []" "q \<in> set (ancestors_from (parent_path p))"
    using in_ancestors_from [of q p] by auto
  show ?case
  proof (cases "q = parent_path p")
    case True
    with p(1) show ?thesis by (intro exI [of _ p]) simp
  next
    case False
    from "1.IH" [OF p(1) p(2) False] obtain c where
      "c \<in> set (ancestors_from (parent_path p))" "c \<noteq> []" "parent_path c = q" by blast
    with p(1) show ?thesis
      by (intro exI [of _ c]) (simp add: ancestors_from.simps [of p])
  qed
qed

text \<open>An ancestor is the parent, or the parent of another ancestor one level down.\<close>

lemma ancestors_step:
  assumes "q \<in> set (ancestors p)"
  obtains "q = parent_path p"
    | c where "c \<in> set (ancestors p)" "c \<noteq> []" "parent_path c = q"
  using ancestors_from_cases [of q "parent_path p"] assms by (auto simp: ancestors_def)

lemma ancestors_from_trans:
  "q \<in> set (ancestors_from p) \<Longrightarrow> r \<in> set (ancestors_from q) \<Longrightarrow> r \<in> set (ancestors_from p)"
proof (induction p rule: ancestors_from.induct)
  case (1 p)
  show ?case
  proof (cases "q = p")
    case False
    with "1.prems"(1) have "p \<noteq> []" "q \<in> set (ancestors_from (parent_path p))"
      using in_ancestors_from [of q p] by auto
    with "1.IH" "1.prems"(2) show ?thesis
      by (simp add: ancestors_from.simps [of p])
  qed (use "1.prems" in simp)
qed

lemma ancestors_trans:
  "q \<in> set (ancestors p) \<Longrightarrow> r \<in> set (ancestors q) \<Longrightarrow> r \<in> set (ancestors p)"
  unfolding ancestors_def by (meson ancestors_from_closed ancestors_from_trans)

lemma ancestors_from_length: "q \<in> set (ancestors_from p) \<Longrightarrow> length q \<le> length p"
proof (induction p rule: ancestors_from.induct)
  case (1 p)
  then show ?case
    using parent_path_shorter [of p]
    by (subst (asm) (2) ancestors_from.simps) (fastforce split: if_splits)
qed

lemma ancestors_shorter: "p \<noteq> [] \<Longrightarrow> q \<in> set (ancestors p) \<Longrightarrow> length q < length p"
  using ancestors_from_length parent_path_shorter unfolding ancestors_def
  by (metis le_less_trans)

end
