(* ===== verification/Lil_Tree.thy ===== *)
theory Lil_Tree
  imports Lil_Entries Lil_Paths
begin

text \<open>
  The Merkle tree over the entry index, \<open>src/tree.rs\<close>. BLAKE3 is a parameter \<open>H\<close> of every
  definition: a function from the bytes fed to the hasher (the concatenation of its \<open>update\<close>
  calls) to a digest. \<open>derive_tree_with\<close> builds the tree from scratch and
  \<open>update_tree_snapshot\<close> updates it after a set of changed paths; both are written as the
  source's loops over its local maps.
\<close>

section \<open>Data\<close>

type_synonym hasher = "bytes \<Rightarrow> hash32"
type_synonym index = "(string, entry) fmap"

record tree_node =
  tn_prefix :: string
  tn_entries :: "(string, hash32) fmap"
  tn_children :: "(string, hash32) fmap"
  tn_hash :: hash32

record tree_snapshot =
  ts_root_hash :: hash32
  ts_nodes :: "(string, tree_node) fmap"

definition zero_hash :: hash32 where
  "zero_hash = replicate 32 0"

section \<open>Hash encodings\<close>

definition encode_str :: "string \<Rightarrow> bytes" where
  "encode_str s = u64_to_be_bytes (of_nat (length s)) @ as_bytes s"

fun encode_opt_hash :: "hash32 option \<Rightarrow> bytes" where
  "encode_opt_hash (Some v) = 1 # v"
| "encode_opt_hash None = [0]"

fun encode_opt_str :: "string option \<Rightarrow> bytes" where
  "encode_opt_str (Some v) = 1 # encode_str v"
| "encode_opt_str None = [0]"

fun encode_opt_u32 :: "u32 option \<Rightarrow> bytes" where
  "encode_opt_u32 (Some v) = 1 # u32_to_be_bytes v"
| "encode_opt_u32 None = [0]"

definition entry_preimage :: "entry \<Rightarrow> bytes" where
  "entry_preimage e =
     encode_str ''lil-entry-v1'' @ encode_str (e_path e) @ encode_str (kind_as_str (e_kind e)) @
     encode_opt_hash (e_content_hash e) @ encode_opt_str (e_symlink_target e) @
     u64_to_be_bytes (e_size e) @ encode_opt_u32 (e_mode e) @
     u64_to_be_bytes (v_lamport (e_version e)) @ encode_str (v_origin (e_version e))"

definition hash_entry :: "hasher \<Rightarrow> entry \<Rightarrow> hash32" where
  "hash_entry H e = H (entry_preimage e)"

definition encode_named :: "string \<Rightarrow> (string \<times> hash32) list \<Rightarrow> bytes" where
  "encode_named tag xs = concat (map (\<lambda>(name, h). encode_str tag @ encode_str name @ h) xs)"

definition node_preimage ::
    "string \<Rightarrow> (string, hash32) fmap \<Rightarrow> (string, hash32) fmap \<Rightarrow> bytes" where
  "node_preimage prefix es cs =
     as_bytes ''lil-node-v1'' @ encode_str prefix @ encode_named ''entry'' (fm_iter es) @
     encode_named ''child'' (fm_iter cs)"

definition hash_node ::
    "hasher \<Rightarrow> string \<Rightarrow> (string, hash32) fmap \<Rightarrow> (string, hash32) fmap \<Rightarrow> hash32" where
  "hash_node H prefix es cs = H (node_preimage prefix es cs)"

definition tree_node_hash :: "hasher \<Rightarrow> tree_node \<Rightarrow> hash32" where
  "tree_node_hash H node = hash_node H (tn_prefix node) (tn_entries node) (tn_children node)"

definition empty_tree :: "hasher \<Rightarrow> tree_snapshot" where
  "empty_tree H =
     (let root = hash_node H ''/'' fmempty fmempty in
      \<lparr>ts_root_hash = root,
       ts_nodes = fmupd [] \<lparr>tn_prefix = ''/'', tn_entries = fmempty, tn_children = fmempty,
                            tn_hash = root\<rparr> fmempty\<rparr>)"

section \<open>Building the tree\<close>

text \<open>The set of node paths: the root, every ancestor of an included entry, and every
  included directory itself.\<close>

definition derive_node_paths :: "entry list \<Rightarrow> (entry \<Rightarrow> bool) \<Rightarrow> string fset" where
  "derive_node_paths vals incl =
     fold (\<lambda>e ps. if \<not> incl e then ps
                  else let ps' = fold finsert (ancestors (e_path e)) ps in
                       if e_kind e = Dir then finsert (e_path e) ps' else ps')
       vals {|[]|}"

definition blank_node :: "string \<Rightarrow> tree_node" where
  "blank_node p = \<lparr>tn_prefix = display_prefix p, tn_entries = fmempty, tn_children = fmempty,
                   tn_hash = zero_hash\<rparr>"

definition derive_partials ::
    "hasher \<Rightarrow> entry list \<Rightarrow> (entry \<Rightarrow> bool) \<Rightarrow> string list \<Rightarrow> (string, tree_node) fmap" where
  "derive_partials H vals incl node_paths =
     fold (\<lambda>e m. if \<not> incl e then m
                 else case fmlookup m (parent_path (e_path e)) of
                        None \<Rightarrow> m
                      | Some node \<Rightarrow>
                          fmupd (parent_path (e_path e))
                            (node\<lparr>tn_entries :=
                               fmupd (basename (e_path e)) (hash_entry H e) (tn_entries node)\<rparr>) m)
       vals (fold (\<lambda>p. fmupd p (blank_node p)) node_paths fmempty)"

definition push_list :: "'k \<Rightarrow> 'v \<Rightarrow> ('k, 'v list) fmap \<Rightarrow> ('k, 'v list) fmap" where
  "push_list k v m = fmupd k ((case fmlookup m k of None \<Rightarrow> [] | Some vs \<Rightarrow> vs) @ [v]) m"

definition derive_children_of :: "string list \<Rightarrow> (string, string list) fmap" where
  "derive_children_of node_paths =
     fold (\<lambda>c m. if c = [] then m else push_list (parent_path c) c m) node_paths fmempty"

text \<open>One step of the bottom-up pass. The source's \<open>expect\<close> cannot fail, since the path comes
  from the same set; that branch leaves the maps unchanged.\<close>

definition derive_step ::
    "hasher \<Rightarrow> (string, string list) fmap \<Rightarrow> string \<Rightarrow>
     (string, tree_node) fmap \<times> (string, hash32) fmap \<Rightarrow>
     (string, tree_node) fmap \<times> (string, hash32) fmap" where
  "derive_step H children_of p st =
     (case st of (parts, hashes) \<Rightarrow>
        let child_paths = (case fmlookup children_of p of None \<Rightarrow> [] | Some v \<Rightarrow> v);
            children = fold (\<lambda>c m. case fmlookup hashes c of
                                     None \<Rightarrow> m
                                   | Some h \<Rightarrow> fmupd (basename c) h m) child_paths fmempty
        in case fmlookup parts p of
             None \<Rightarrow> (parts, hashes)
           | Some node \<Rightarrow>
               let h = hash_node H (tn_prefix node) (tn_entries node) children
               in (fmupd p (node\<lparr>tn_children := children, tn_hash := h\<rparr>) parts,
                   fmupd p h hashes))"

definition derive_tree_with :: "hasher \<Rightarrow> index \<Rightarrow> (entry \<Rightarrow> bool) \<Rightarrow> tree_snapshot" where
  "derive_tree_with H entries incl =
     (let vals = fm_values entries;
          node_paths = sorted_list_of_fset (derive_node_paths vals incl);
          partials = derive_partials H vals incl node_paths;
          children_of = derive_children_of node_paths;
          (parts, hashes) = fold (derive_step H children_of) (rev node_paths) (partials, fmempty)
      in \<lparr>ts_root_hash = (case fmlookup hashes [] of Some h \<Rightarrow> h | None \<Rightarrow> zero_hash),
          ts_nodes = parts\<rparr>)"

definition incl_all :: "entry \<Rightarrow> bool" where
  "incl_all e = True"

definition incl_live :: "entry \<Rightarrow> bool" where
  "incl_live e \<longleftrightarrow> e_kind e \<noteq> Tombstone"

definition derive_tree :: "hasher \<Rightarrow> index \<Rightarrow> tree_snapshot" where
  "derive_tree H entries = derive_tree_with H entries incl_all"

definition derive_live_tree :: "hasher \<Rightarrow> index \<Rightarrow> tree_snapshot" where
  "derive_live_tree H entries = derive_tree_with H entries incl_live"

section \<open>Updating the tree\<close>

definition dirty_ancestors :: "string list \<Rightarrow> string fset" where
  "dirty_ancestors changed = fold (\<lambda>p d. fold finsert (ancestors p) (finsert p d)) changed {||}"

definition dirty_paths ::
    "(string, tree_node) fmap \<Rightarrow> index \<Rightarrow> string list \<Rightarrow> (entry \<Rightarrow> bool) \<Rightarrow> string fset" where
  "dirty_paths nodes entries changed incl =
     fold (\<lambda>p d.
             if fmlookup nodes p = None then d
             else if (case fmlookup entries p of Some e \<Rightarrow> incl e | None \<Rightarrow> False) then d
             else fold (\<lambda>desc d. finsert desc (fold finsert (ancestors desc) d))
                    (filter (\<lambda>k. starts_with k (p @ ''/'')) (fm_keys nodes)) d)
       changed (dirty_ancestors changed)"

definition by_parent_of :: "entry list \<Rightarrow> (entry \<Rightarrow> bool) \<Rightarrow> (string, entry list) fmap" where
  "by_parent_of vals incl =
     fold (\<lambda>e m. if incl e then push_list (parent_path (e_path e)) e m else m) vals fmempty"

definition child_keys_of :: "string list \<Rightarrow> (string, string fset) fmap" where
  "child_keys_of ks =
     fold (\<lambda>k m. if k = [] then m
                 else fmupd (parent_path k)
                        (finsert k (case fmlookup m (parent_path k) of None \<Rightarrow> {||} | Some s \<Rightarrow> s)) m)
       ks fmempty"

definition update_step ::
    "hasher \<Rightarrow> (string, entry list) fmap \<Rightarrow> (string, string fset) fmap \<Rightarrow> string \<Rightarrow>
     (string, tree_node) fmap \<Rightarrow> (string, tree_node) fmap" where
  "update_step H by_parent child_keys p nodes =
     (let es = (case fmlookup by_parent p of
                  None \<Rightarrow> fmempty
                | Some vs \<Rightarrow> fm_collect (map (\<lambda>e. (basename (e_path e), hash_entry H e)) vs));
          cs = (case fmlookup child_keys p of
                  None \<Rightarrow> fmempty
                | Some ks \<Rightarrow>
                    fm_collect (List.map_filter
                      (\<lambda>k. map_option (\<lambda>v. (basename k, tn_hash v)) (fmlookup nodes k))
                      (sorted_list_of_fset ks)))
      in if p = [] \<or> es \<noteq> fmempty \<or> cs \<noteq> fmempty
         then fmupd p \<lparr>tn_prefix = display_prefix p, tn_entries = es, tn_children = cs,
                       tn_hash = hash_node H (display_prefix p) es cs\<rparr> nodes
         else fmdrop p nodes)"

definition update_tree_snapshot ::
    "hasher \<Rightarrow> tree_snapshot \<Rightarrow> index \<Rightarrow> string list \<Rightarrow> (entry \<Rightarrow> bool) \<Rightarrow> tree_snapshot" where
  "update_tree_snapshot H snapshot entries changed_paths incl =
     (let nodes0 = ts_nodes snapshot;
          dirty = dirty_paths nodes0 entries changed_paths incl;
          by_parent = by_parent_of (fm_values entries) incl;
          child_keys = child_keys_of (fm_keys nodes0 @ sorted_list_of_fset dirty);
          nodes = fold (update_step H by_parent child_keys) (rev (sorted_list_of_fset dirty)) nodes0
      in \<lparr>ts_root_hash = (case fmlookup nodes [] of Some n \<Rightarrow> tn_hash n | None \<Rightarrow> zero_hash),
          ts_nodes = nodes\<rparr>)"

end
