(* ===== verification/Lil_Scan.thy ===== *)
theory Lil_Scan
  imports Lil_Fs Lil_Ignore Lil_Tree
begin

text \<open>
  Scanning, \<open>src/scan.rs\<close>: the size and mtime cache, the stability loop around hashing a file,
  the recursive directory scan, and the normalisation of event paths. The file under observation
  may change between two system calls, so the stability loop reads its results from an
  environment indexed by the attempt; the scan of a directory tree uses the environment of an
  unchanging file system.

  \<open>bincode\<close> and BLAKE3 are parameters, collected in the record \<open>lib\<close>.
\<close>

section \<open>Constants, data, parameters\<close>

definition FILE_STABLE_AGE :: int where
  "FILE_STABLE_AGE = 1000000000"

definition FILE_STABILITY_PAUSE :: int where
  "FILE_STABILITY_PAUSE = 250000000"

definition FILE_STABILITY_ATTEMPTS :: nat where
  "FILE_STABILITY_ATTEMPTS = 8"

definition SCAN_CACHE_FILE :: string where
  "SCAN_CACHE_FILE = ''scan-cache.bin''"

record observed_file =
  of_content_hash :: hash32
  of_size :: u64
  of_mode :: "u32 option"

record cached_file =
  cf_size :: u64
  cf_mtime :: int
  cf_content_hash :: hash32

record scan_cache =
  sc_files :: "(string, cached_file) fmap"
  sc_dirty :: bool

record legacy_entry =
  le_path :: string
  le_kind :: entry_kind
  le_content_hash :: "hash32 option"
  le_size :: u64
  le_mode :: "u32 option"
  le_version :: version

record lib =
  blake3 :: hasher
  ser_entries :: "index \<Rightarrow> bytes option"
  de_entries :: "bytes \<Rightarrow> index option"
  de_legacy :: "bytes \<Rightarrow> (string, legacy_entry) fmap option"
  ser_watermark :: "gc_watermark \<Rightarrow> bytes option"
  de_watermark :: "bytes \<Rightarrow> gc_watermark option"
  ser_cache :: "(string, cached_file) fmap \<Rightarrow> bytes option"
  de_cache :: "bytes \<Rightarrow> (string, cached_file) fmap option"

section \<open>Helpers\<close>

definition with_extension_tmp :: "string \<Rightarrow> string" where
  "with_extension_tmp name =
     (case rsplit_once CHR ''.'' name of
        Some (stem, _) \<Rightarrow> (if stem = [] then name else stem) @ ''.tmp''
      | None \<Rightarrow> name @ ''.tmp'')"

definition write_atomic :: "fs \<Rightarrow> abspath \<Rightarrow> bytes \<Rightarrow> unit io_result \<times> fs" where
  "write_atomic fs p c =
     (let tmp = butlast p @ [with_extension_tmp (last p)] in
      case write_file fs tmp c of
        (Inl e, fs1) \<Rightarrow> (Inl e, fs1)
      | (Inr _, fs1) \<Rightarrow> rename fs1 tmp p)"

definition md_mode_opt :: "metadata \<Rightarrow> u32 option" where
  "md_mode_opt md = Some (md_mode md)"

definition is_recently_modified :: "int \<Rightarrow> metadata \<Rightarrow> bool" where
  "is_recently_modified now md =
     (case md_modified md of
        None \<Rightarrow> False
      | Some t \<Rightarrow> if t \<le> now then now - t < FILE_STABLE_AGE else False)"

definition same_file_observation :: "metadata \<Rightarrow> metadata \<Rightarrow> bool" where
  "same_file_observation l r \<longleftrightarrow>
     md_len l = md_len r \<and> md_modified l = md_modified r \<and> md_mode_opt l = md_mode_opt r"

definition hash_file :: "lib \<Rightarrow> fs \<Rightarrow> abspath \<Rightarrow> hash32 io_result" where
  "hash_file X fs p = and_then (read_file fs p) (\<lambda>c. Inr (blake3 X c))"

definition relative_path :: "abspath \<Rightarrow> abspath \<Rightarrow> string io_result" where
  "relative_path root p =
     (if below root p then Inr (join_char CHR ''/'' (drop (length root) p)) else Inl InvalidInput)"

definition normalize_event_path :: "fs \<Rightarrow> abspath \<Rightarrow> abspath option" where
  "normalize_event_path fs p =
     (if p = [] then (case canonicalize fs p of Inr q \<Rightarrow> Some q | Inl _ \<Rightarrow> None)
      else case canonicalize fs (butlast p) of
             Inr q \<Rightarrow> Some (q @ [last p]) | Inl _ \<Rightarrow> None)"

definition read_supported_symlink :: "fs \<Rightarrow> abspath \<Rightarrow> string option io_result" where
  "read_supported_symlink fs p =
     and_then (read_link fs p)
       (\<lambda>t. case from_utf8 (as_bytes t) of
              None \<Rightarrow> Inr None
            | Some target \<Rightarrow> (case validate_symlink_target target of
                                Inl _ \<Rightarrow> Inr None | Inr _ \<Rightarrow> Inr (Some target)))"

definition load_ignore_patterns :: "fs \<Rightarrow> abspath \<Rightarrow> ignore_pattern list io_result" where
  "load_ignore_patterns fs root =
     (case and_then (read_file fs (root @ [IGNORE_FILE_NAME]))
             (\<lambda>c. case from_utf8 c of None \<Rightarrow> Inl InvalidData | Some s \<Rightarrow> Inr s) of
        Inr contents \<Rightarrow> Inr (parse_ignore_patterns contents)
      | Inl e \<Rightarrow> if e = NotFound then Inr [] else Inl e)"

section \<open>The scan cache\<close>

definition scan_cache_default :: scan_cache where
  "scan_cache_default = \<lparr>sc_files = fmempty, sc_dirty = False\<rparr>"

definition cache_load :: "lib \<Rightarrow> fs \<Rightarrow> abspath \<Rightarrow> scan_cache" where
  "cache_load X fs state_dir =
     (case read_file fs (state_dir @ [SCAN_CACHE_FILE]) of
        Inl _ \<Rightarrow> scan_cache_default
      | Inr c \<Rightarrow> (case de_cache X c of
                    None \<Rightarrow> scan_cache_default
                  | Some files \<Rightarrow> \<lparr>sc_files = files, sc_dirty = False\<rparr>))"

definition cache_save :: "lib \<Rightarrow> fs \<Rightarrow> abspath \<Rightarrow> scan_cache \<Rightarrow> scan_cache \<times> fs" where
  "cache_save X fs state_dir c =
     (if \<not> sc_dirty c then (c, fs)
      else case ser_cache X (sc_files c) of
             None \<Rightarrow> (c, fs)
           | Some b \<Rightarrow> (case write_atomic fs (state_dir @ [SCAN_CACHE_FILE]) b of
                          (Inr _, fs1) \<Rightarrow> (c\<lparr>sc_dirty := False\<rparr>, fs1)
                        | (Inl _, fs1) \<Rightarrow> (c, fs1)))"

definition retain_paths :: "string fset \<Rightarrow> scan_cache \<Rightarrow> scan_cache" where
  "retain_paths seen c =
     (let files = fmfilter (\<lambda>p. p |\<in>| seen) (sc_files c) in
      \<lparr>sc_files = files,
       sc_dirty = (if fcard (fmdom files) \<noteq> fcard (fmdom (sc_files c)) then True else sc_dirty c)\<rparr>)"

definition cache_lookup :: "int \<Rightarrow> string \<Rightarrow> metadata \<Rightarrow> scan_cache \<Rightarrow> hash32 option" where
  "cache_lookup now relative md c =
     (if is_recently_modified now md then None
      else case fmlookup (sc_files c) relative of
             None \<Rightarrow> None
           | Some cf \<Rightarrow> (case md_modified md of
                            None \<Rightarrow> None
                          | Some t \<Rightarrow> if cf_size cf = md_len md \<and> cf_mtime cf = t
                                       then Some (cf_content_hash cf) else None))"

definition cache_record ::
    "string \<Rightarrow> u64 \<Rightarrow> int option \<Rightarrow> hash32 \<Rightarrow> scan_cache \<Rightarrow> scan_cache" where
  "cache_record relative sz mtime h c =
     (case mtime of
        None \<Rightarrow> c
      | Some t \<Rightarrow> c\<lparr>sc_files := fmupd relative
                              \<lparr>cf_size = sz, cf_mtime = t, cf_content_hash = h\<rparr> (sc_files c),
                     sc_dirty := True\<rparr>)"

section \<open>The stability loop\<close>

text \<open>What the system calls of one attempt return, and the clock at its start.\<close>

record file_env =
  ev_lstat :: "nat \<Rightarrow> metadata io_result"
  ev_hash :: "nat \<Rightarrow> hash32 io_result"
  ev_now :: "nat \<Rightarrow> int"

function observe_attempt ::
    "file_env \<Rightarrow> bool \<Rightarrow> nat \<Rightarrow> metadata \<Rightarrow> observed_file option io_result" where
  "observe_attempt env wait_for_recent attempt before =
     (if FILE_STABILITY_ATTEMPTS \<le> attempt then Inr None
      else if wait_for_recent \<and> is_recently_modified (ev_now env attempt) before then
        (case ev_lstat env attempt of
           Inl e \<Rightarrow> Inl e
         | Inr after_pause \<Rightarrow>
             if md_type after_pause \<noteq> FtFile then Inr None
             else observe_attempt env wait_for_recent (Suc attempt) after_pause)
      else
        (case ev_hash env attempt of
           Inl e \<Rightarrow> Inl e
         | Inr content_hash \<Rightarrow>
             (case ev_lstat env attempt of
                Inl e \<Rightarrow> Inl e
              | Inr after_hash \<Rightarrow>
                  if md_type after_hash \<noteq> FtFile then Inr None
                  else if same_file_observation before after_hash then
                    Inr (Some \<lparr>of_content_hash = content_hash, of_size = md_len after_hash,
                               of_mode = md_mode_opt after_hash\<rparr>)
                  else observe_attempt env wait_for_recent (Suc attempt) after_hash)))"
  by pat_completeness auto
termination
  by (relation "measure (\<lambda>(env, w, i, b). FILE_STABILITY_ATTEMPTS - i)") auto

declare observe_attempt.simps [simp del]

definition observe_file_when_stable ::
    "file_env \<Rightarrow> metadata \<Rightarrow> bool \<Rightarrow> observed_file option io_result" where
  "observe_file_when_stable env before wait_for_recent = observe_attempt env wait_for_recent 0 before"

text \<open>The environment of a file system that does not change while a file is observed.\<close>

definition still_env :: "lib \<Rightarrow> fs \<Rightarrow> abspath \<Rightarrow> file_env" where
  "still_env X fs p =
     \<lparr>ev_lstat = (\<lambda>_. symlink_metadata fs p), ev_hash = (\<lambda>_. hash_file X fs p),
      ev_now = (\<lambda>i. fs_now fs + int i * FILE_STABILITY_PAUSE)\<rparr>"

definition observe_file_cached ::
    "lib \<Rightarrow> fs \<Rightarrow> abspath \<Rightarrow> string \<Rightarrow> metadata \<Rightarrow> bool \<Rightarrow> scan_cache \<Rightarrow>
     observed_file option io_result \<times> scan_cache" where
  "observe_file_cached X fs p relative md wait_for_recent cache =
     (case cache_lookup (fs_now fs) relative md cache of
        Some content_hash \<Rightarrow>
          (Inr (Some \<lparr>of_content_hash = content_hash, of_size = md_len md, of_mode = md_mode_opt md\<rparr>),
           cache)
      | None \<Rightarrow>
          (case observe_file_when_stable (still_env X fs p) md wait_for_recent of
             Inl e \<Rightarrow> (Inl e, cache)
           | Inr None \<Rightarrow> (Inr None, cache)
           | Inr (Some obs) \<Rightarrow>
               (let mtime = (case symlink_metadata fs p of Inl _ \<Rightarrow> None | Inr m \<Rightarrow> md_modified m)
                in (Inr (Some obs),
                    cache_record relative (of_size obs) mtime (of_content_hash obs) cache))))"

section \<open>The directory scan\<close>

record scan_acc =
  sa_entries :: index
  sa_unstable :: "string fset"
  sa_cache :: scan_cache

definition symlink_entry :: "string \<Rightarrow> string \<Rightarrow> entry" where
  "symlink_entry relative target =
     \<lparr>e_path = relative, e_kind = Symlink, e_content_hash = None, e_symlink_target = Some target,
      e_size = 0, e_mode = None, e_version = placeholder_version\<rparr>"

definition dir_entry :: "string \<Rightarrow> u32 option \<Rightarrow> entry" where
  "dir_entry relative m =
     \<lparr>e_path = relative, e_kind = Dir, e_content_hash = None, e_symlink_target = None,
      e_size = 0, e_mode = m, e_version = placeholder_version\<rparr>"

definition file_entry :: "string \<Rightarrow> observed_file \<Rightarrow> entry" where
  "file_entry relative obs =
     \<lparr>e_path = relative, e_kind = File, e_content_hash = Some (of_content_hash obs),
      e_symlink_target = None, e_size = of_size obs, e_mode = of_mode obs,
      e_version = placeholder_version\<rparr>"

definition acc_insert :: "string \<Rightarrow> entry \<Rightarrow> scan_acc \<Rightarrow> scan_acc" where
  "acc_insert relative e a = a\<lparr>sa_entries := fmupd relative e (sa_entries a)\<rparr>"

text \<open>The body of the loop over the children; \<open>descend\<close> is the recursive call.\<close>

definition scan_child ::
    "(abspath \<Rightarrow> scan_acc \<Rightarrow> unit io_result \<times> scan_acc) \<Rightarrow> lib \<Rightarrow> fs \<Rightarrow> abspath \<Rightarrow>
     ignore_pattern list \<Rightarrow> abspath \<Rightarrow> scan_acc \<Rightarrow> unit io_result \<times> scan_acc" where
  "scan_child descend X fs root pats p a =
     (case relative_path root p of
        Inl e \<Rightarrow> (Inl e, a)
      | Inr relative \<Rightarrow>
          if should_ignore relative pats then (Inr (), a)
          else case symlink_metadata fs p of
            Inl e \<Rightarrow> (Inl e, a)
          | Inr md \<Rightarrow>
              (case md_type md of
                 FtSymlink \<Rightarrow>
                   (case read_supported_symlink fs p of
                      Inl e \<Rightarrow> (Inl e, a)
                    | Inr None \<Rightarrow> (Inr (), a)
                    | Inr (Some target) \<Rightarrow> (Inr (), acc_insert relative (symlink_entry relative target) a))
               | FtDir \<Rightarrow> descend p (acc_insert relative (dir_entry relative (md_mode_opt md)) a)
               | FtFile \<Rightarrow>
                   (case observe_file_cached X fs p relative md False (sa_cache a) of
                      (Inl e, c) \<Rightarrow> (Inl e, a\<lparr>sa_cache := c\<rparr>)
                    | (Inr None, c) \<Rightarrow>
                        (Inr (), a\<lparr>sa_cache := c, sa_unstable := finsert relative (sa_unstable a)\<rparr>)
                    | (Inr (Some obs), c) \<Rightarrow>
                        (Inr (), acc_insert relative (file_entry relative obs) (a\<lparr>sa_cache := c\<rparr>)))
               | FtOther \<Rightarrow> (Inr (), a)))"

text \<open>A loop whose body may return early with an error.\<close>

primrec try_for :: "('a \<Rightarrow> 's \<Rightarrow> unit io_result \<times> 's) \<Rightarrow> 'a list \<Rightarrow> 's \<Rightarrow> unit io_result \<times> 's" where
  "try_for f [] s = (Inr (), s)"
| "try_for f (x # xs) s = (case f x s of (Inl e, s1) \<Rightarrow> (Inl e, s1) | (Inr _, s1) \<Rightarrow> try_for f xs s1)"

text \<open>The first argument bounds the depth of the recursion; the depth of the file system
  suffices (\<open>scan_fuel\<close>).\<close>

primrec scan_dir ::
    "nat \<Rightarrow> lib \<Rightarrow> fs \<Rightarrow> abspath \<Rightarrow> ignore_pattern list \<Rightarrow> abspath \<Rightarrow> scan_acc \<Rightarrow>
     unit io_result \<times> scan_acc" where
  "scan_dir 0 X fs root pats dir a = (Inl Other, a)"
| "scan_dir (Suc n) X fs root pats dir a =
     (case read_dir fs dir of
        Inl e \<Rightarrow> (Inl e, a)
      | Inr children \<Rightarrow>
          try_for (scan_child (scan_dir n X fs root pats) X fs root pats) (sort children) a)"

definition scan_fuel :: "fs \<Rightarrow> nat" where
  "scan_fuel fs = Suc (fold (\<lambda>k n. max (length k) n) (fm_keys (fs_nodes fs)) 0)"

definition scan_folder ::
    "lib \<Rightarrow> fs \<Rightarrow> abspath \<Rightarrow> scan_cache \<Rightarrow> unit io_result \<times> scan_acc" where
  "scan_folder X fs root cache =
     (let a = \<lparr>sa_entries = fmempty, sa_unstable = {||}, sa_cache = cache\<rparr> in
      case load_ignore_patterns fs root of
        Inl e \<Rightarrow> (Inl e, a)
      | Inr pats \<Rightarrow> scan_dir (scan_fuel fs) X fs root pats root a)"

end
