(* ===== verification/Lil_Merkle.thy ===== *)
theory Lil_Merkle
  imports Lil_Tree
begin

text \<open>
  Correctness of the tree algorithms. A map of nodes is the Merkle tree of an index
  (\<open>merkle\<close>) when every node holds the hashes of the entries directly below it and of its child
  nodes; such a tree is determined by its set of node paths. The bottom-up pass shared by the
  two algorithms is the locale \<open>bottom_up\<close>, interpreted for both; from its one lemma follow
  the specification of \<open>derive_tree_with\<close>, the agreement of \<open>update_tree_snapshot\<close> with it,
  and the soundness of comparing root hashes.
\<close>

section \<open>The bottom-up pass\<close>

lemma descending_split:
  assumes "L @ p # R = rev (sorted_list_of_fset (A :: string fset))"
  shows "p \<notin> set L" and "\<And>q. q \<in> set L \<Longrightarrow> p < q" and "\<And>q. q |\<in>| A \<Longrightarrow> p < q \<Longrightarrow> q \<in> set L"
    and "p |\<in>| A"
proof -
  have "rev R @ p # rev L = sorted_list_of_fset A"
    using assms by (metis append.assoc append_Cons append_Nil rev.simps(2) rev_append rev_rev_ident)
  then have s: "sorted (rev R @ p # rev L)" and d: "distinct (rev R @ p # rev L)"
    and st: "set (rev R @ p # rev L) = fset A"
    by (metis sorted_list_of_fset_sorted sorted_list_of_fset_distinct sorted_list_of_fset_set)+
  show "p \<notin> set L" using d by simp
  show "p < q" if "q \<in> set L" for q
    using s d that by (fastforce simp: sorted_append order_less_le)
  show "q \<in> set L" if "q |\<in>| A" "p < q" for q
    using s st that by (force simp: sorted_append)
  show "p |\<in>| A" using st by auto
qed

locale bottom_up =
  fixes A :: "string fset"
    and step :: "string \<Rightarrow> 's \<Rightarrow> 's"
    and node :: "'s \<Rightarrow> (string, 'n) fmap"
    and F :: "string \<Rightarrow> (string, 'n) fmap \<Rightarrow> 'n option"
    and inv :: "string set \<Rightarrow> 's \<Rightarrow> bool"
  assumes F_local: "(\<And>c. c \<noteq> [] \<Longrightarrow> parent_path c = p \<Longrightarrow> fmlookup f c = fmlookup g c) \<Longrightarrow> F p f = F p g"
    and step_inv: "inv D s \<Longrightarrow> p |\<in>| A \<Longrightarrow> p \<notin> D \<Longrightarrow>
      (\<And>c. c |\<in>| A \<Longrightarrow> c \<noteq> [] \<Longrightarrow> parent_path c = p \<Longrightarrow> c \<in> D) \<Longrightarrow> inv (insert p D) (step p s)"
    and step_node: "inv D s \<Longrightarrow> p |\<in>| A \<Longrightarrow> p \<notin> D \<Longrightarrow>
      (\<And>c. c |\<in>| A \<Longrightarrow> c \<noteq> [] \<Longrightarrow> parent_path c = p \<Longrightarrow> c \<in> D) \<Longrightarrow>
      fmlookup (node (step p s)) q = (if q = p then F p (node s) else fmlookup (node s) q)"
begin

lemma pass_prefix:
  assumes "inv {} s" and "L @ R = rev (sorted_list_of_fset A)"
  shows "inv (set L) (fold step L s) \<and>
    (\<forall>q. fmlookup (node (fold step L s)) q =
       (if q \<in> set L then F q (node (fold step L s)) else fmlookup (node s) q))"
  using assms(2)
proof (induction L arbitrary: R rule: rev_induct)
  case Nil
  with assms(1) show ?case by simp
next
  case (snoc p L)
  define s1 where "s1 = fold step L s"
  have split: "L @ p # R = rev (sorted_list_of_fset A)" using snoc.prems by simp
  note desc = descending_split [OF split]
  have inv1: "inv (set L) s1"
    using snoc.IH [OF split] unfolding s1_def by (rule conjunct1)
  have node1: "fmlookup (node s1) q = (if q \<in> set L then F q (node s1) else fmlookup (node s) q)"
    for q
    using snoc.IH [OF split, THEN conjunct2] unfolding s1_def by (rule spec)
  have kids: "c \<in> set L" if "c |\<in>| A" "c \<noteq> []" "parent_path c = p" for c
    using desc(3) that parent_path_less by blast
  have st: "fmlookup (node (step p s1)) q = (if q = p then F p (node s1) else fmlookup (node s1) q)"
    for q
    by (rule step_node [OF inv1 desc(4) desc(1)]) (rule kids)
  have same: "F q (node (step p s1)) = F q (node s1)" if "q \<in> insert p (set L)" for q
  proof (rule F_local)
    fix c :: string
    assume c: "c \<noteq> []" "parent_path c = q"
    then have "q < c" using parent_path_less by blast
    with that desc(2) have "c \<noteq> p" by fastforce
    with st [of c] show "fmlookup (node (step p s1)) c = fmlookup (node s1) c"
      by simp
  qed
  have "inv (insert p (set L)) (step p s1)"
    by (rule step_inv [OF inv1 desc(4) desc(1)]) (rule kids)
  then have "inv (set (L @ [p])) (step p s1)" by simp
  moreover have "fmlookup (node (step p s1)) q =
      (if q \<in> set (L @ [p]) then F q (node (step p s1)) else fmlookup (node s) q)" for q
  proof (cases "q = p")
    case True
    with st [of q] same [of p] show ?thesis by simp
  next
    case False
    with st [of q] node1 [of q] same [of q] show ?thesis by simp
  qed
  ultimately show ?case by (simp add: s1_def)
qed

lemma pass:
  assumes "inv {} s" and "s' = fold step (rev (sorted_list_of_fset A)) s"
  shows "inv (fset A) s'"
    and "fmlookup (node s') q = (if q |\<in>| A then F q (node s') else fmlookup (node s) q)"
  using pass_prefix [OF assms(1), of "rev (sorted_list_of_fset A)" "[]"] assms(2) by auto

end

section \<open>The specification of a tree\<close>

definition mk_node ::
    "hasher \<Rightarrow> string \<Rightarrow> (string, hash32) fmap \<Rightarrow> (string, hash32) fmap \<Rightarrow> tree_node" where
  "mk_node H p es cs =
     \<lparr>tn_prefix = display_prefix p, tn_entries = es, tn_children = cs,
      tn_hash = hash_node H (display_prefix p) es cs\<rparr>"

definition direct_entries :: "hasher \<Rightarrow> index \<Rightarrow> (entry \<Rightarrow> bool) \<Rightarrow> string \<Rightarrow> (string, hash32) fmap" where
  "direct_entries H E incl p =
     fm_collect (map (\<lambda>e. (basename (e_path e), hash_entry H e))
       (filter (\<lambda>e. incl e \<and> parent_path (e_path e) = p) (fm_values E)))"

definition child_paths :: "(string, 'n) fmap \<Rightarrow> string \<Rightarrow> string list" where
  "child_paths nodes p =
     sorted_list_of_fset (ffilter (\<lambda>c. c \<noteq> [] \<and> parent_path c = p) (fmdom nodes))"

definition direct_children :: "(string, tree_node) fmap \<Rightarrow> string \<Rightarrow> (string, hash32) fmap" where
  "direct_children nodes p =
     fm_collect (map (\<lambda>c. (basename c, tn_hash (the (fmlookup nodes c)))) (child_paths nodes p))"

definition node_for :: "hasher \<Rightarrow> index \<Rightarrow> (entry \<Rightarrow> bool) \<Rightarrow> string \<Rightarrow> (string, tree_node) fmap \<Rightarrow> tree_node" where
  "node_for H E incl p nodes = mk_node H p (direct_entries H E incl p) (direct_children nodes p)"

definition merkle :: "hasher \<Rightarrow> index \<Rightarrow> (entry \<Rightarrow> bool) \<Rightarrow> (string, tree_node) fmap \<Rightarrow> bool" where
  "merkle H E incl nodes \<longleftrightarrow>
     (\<forall>p n. fmlookup nodes p = Some n \<longrightarrow> n = node_for H E incl p nodes)"

definition node_set :: "index \<Rightarrow> (entry \<Rightarrow> bool) \<Rightarrow> string set" where
  "node_set E incl =
     insert [] {p. \<exists>k e. fmlookup E k = Some e \<and> incl e \<and>
                    (p \<in> set (ancestors (e_path e)) \<or> e_kind e = Dir \<and> p = e_path e)}"

definition wf_index :: "index \<Rightarrow> bool" where
  "wf_index E \<longleftrightarrow> fmpred (\<lambda>k e. e_path e = k) E"

lemma wf_indexD: "wf_index E \<Longrightarrow> fmlookup E k = Some e \<Longrightarrow> e_path e = k"
  by (auto simp: wf_index_def)

lemma direct_children_local:
  assumes "\<And>c. c \<noteq> [] \<Longrightarrow> parent_path c = p \<Longrightarrow> fmlookup f c = fmlookup g c"
  shows "direct_children f p = direct_children g p"
proof -
  have k: "child_paths f p = child_paths g p"
    unfolding child_paths_def
    using assms by (intro arg_cong [of _ _ sorted_list_of_fset]) (auto simp: fmlookup_dom_iff)
  have "c \<noteq> [] \<and> parent_path c = p" if "c \<in> set (child_paths g p)" for c
    using that by (auto simp: child_paths_def)
  with assms k show ?thesis
    unfolding direct_children_def by (auto intro!: arg_cong [of _ _ fm_collect])
qed

lemma node_for_local:
  "(\<And>c. c \<noteq> [] \<Longrightarrow> parent_path c = p \<Longrightarrow> fmlookup f c = fmlookup g c) \<Longrightarrow>
     node_for H E incl p f = node_for H E incl p g"
  by (metis direct_children_local node_for_def)

text \<open>A Merkle tree is determined by its node paths.\<close>

lemma merkle_unique:
  assumes "merkle H E incl a" "merkle H E incl b" "fmdom a = fmdom b"
  shows "a = b"
proof (rule fmap_ext)
  define M where "M = Max (insert 0 (length ` fset (fmdom a)))"
  have M: "length p \<le> M" if "p |\<in>| fmdom a" for p
    using that unfolding M_def by (intro Max_ge) auto
  fix p
  show "fmlookup a p = fmlookup b p"
  proof (induction "Suc M - length p" arbitrary: p rule: less_induct)
    case less
    show ?case
    proof (cases "p |\<in>| fmdom a")
      case False
      with assms(3) show ?thesis by (metis fmdom_notD)
    next
      case True
      have "fmlookup a c = fmlookup b c" if c: "c \<noteq> []" "parent_path c = p" for c
        using less [of c] M [OF True] parent_path_shorter [OF c(1)] c(2) by simp
      then have "node_for H E incl p a = node_for H E incl p b"
        by (rule node_for_local)
      moreover obtain n m where n: "fmlookup a p = Some n" and m: "fmlookup b p = Some m"
        using True assms(3) by (metis fmlookup_dom_iff)
      moreover have "n = node_for H E incl p a" "m = node_for H E incl p b"
        using assms(1,2) n m by (auto simp: merkle_def)
      ultimately show ?thesis by simp
    qed
  qed
qed

section \<open>Building from scratch\<close>

lemma filter_sorted_list_of_fset:
  "filter P (sorted_list_of_fset A) = sorted_list_of_fset (ffilter P A)"
  by (rule sorted_distinct_set_unique) (auto simp: sorted_wrt_filter)

lemma fold_finsert [simp]: "fset (fold finsert xs s) = set xs \<union> fset s"
  by (induction xs arbitrary: s) auto

lemma fmlookup_fold_push:
  "fmlookup (fold (\<lambda>x m. if Q x then m else push_list (k x) x m) xs m0) q =
     (let ys = filter (\<lambda>x. \<not> Q x \<and> k x = q) xs in
      if ys = [] then fmlookup m0 q
      else Some ((case fmlookup m0 q of None \<Rightarrow> [] | Some l \<Rightarrow> l) @ ys))"
  by (induction xs arbitrary: m0) (auto simp: push_list_def Let_def split: option.splits)

lemma fset_derive_node_paths: "fset (derive_node_paths (fm_values E) incl) = node_set E incl"
proof -
  let ?f = "\<lambda>e ps. if \<not> incl e then ps
                  else let ps' = fold finsert (ancestors (e_path e)) ps in
                       if e_kind e = Dir then finsert (e_path e) ps' else ps'"
  let ?S = "\<lambda>e. if incl e then set (ancestors (e_path e)) \<union> (if e_kind e = Dir then {e_path e} else {})
                else {}"
  have "fset (fold ?f vals s) = fset s \<union> \<Union> (?S ` set vals)" for vals s
    by (induction vals arbitrary: s) (auto simp: Let_def)
  then have "fset (derive_node_paths (fm_values E) incl) = {[]} \<union> \<Union> (?S ` set (fm_values E))"
    by (simp add: derive_node_paths_def)
  also have "\<dots> = node_set E incl"
    unfolding node_set_def using in_fm_values [of _ E] by (auto split: if_splits) blast+
  finally show ?thesis .
qed

lemma in_node_paths [simp]:
  "p |\<in>| derive_node_paths (fm_values E) incl \<longleftrightarrow> p \<in> node_set E incl"
  using fset_derive_node_paths by metis

lemma fold_blank: "fmlookup (fold (\<lambda>p. fmupd p (blank_node p)) ps m) p =
    (if p \<in> set ps then Some (blank_node p) else fmlookup m p)"
  by (induction ps arbitrary: m) auto

lemma fold_partials:
  "fmlookup (fold (\<lambda>e m. if \<not> incl e then m
      else case fmlookup m (parent_path (e_path e)) of
             None \<Rightarrow> m
           | Some node \<Rightarrow> fmupd (parent_path (e_path e))
               (node\<lparr>tn_entries := fmupd (basename (e_path e)) (hash_entry H e) (tn_entries node)\<rparr>) m)
      vals m) p =
   map_option (\<lambda>n. n\<lparr>tn_entries := fold (\<lambda>(k, v) m. fmupd k v m)
       (map (\<lambda>e. (basename (e_path e), hash_entry H e))
         (filter (\<lambda>e. incl e \<and> parent_path (e_path e) = p) vals)) (tn_entries n)\<rparr>) (fmlookup m p)"
proof (induction vals arbitrary: m)
  case Nil
  then show ?case by (simp add: option.map_ident)
next
  case (Cons e vals)
  show ?case
    by (cases "fmlookup m p"; cases "fmlookup m (parent_path (e_path e))")
       (auto simp: Cons.IH)
qed

lemma fmlookup_derive_partials:
  "fmlookup (derive_partials H (fm_values E) incl ps) p =
     (if p \<in> set ps then Some ((blank_node p)\<lparr>tn_entries := direct_entries H E incl p\<rparr>) else None)"
proof -
  have "tn_entries (blank_node p) = fmempty" by (simp add: blank_node_def)
  then show ?thesis
    by (simp add: derive_partials_def fold_partials fold_blank direct_entries_def fm_collect_def)
qed

definition derive_inv ::
    "hasher \<Rightarrow> index \<Rightarrow> (entry \<Rightarrow> bool) \<Rightarrow> string set \<Rightarrow>
     (string, tree_node) fmap \<times> (string, hash32) fmap \<Rightarrow> bool" where
  "derive_inv H E incl D st \<longleftrightarrow>
     fmdom (fst st) = derive_node_paths (fm_values E) incl \<and> D \<subseteq> node_set E incl \<and>
     (\<forall>c. fmlookup (snd st) c = (if c \<in> D then map_option tn_hash (fmlookup (fst st) c) else None)) \<and>
     (\<forall>p n. fmlookup (fst st) p = Some n \<longrightarrow>
        tn_prefix n = display_prefix p \<and> tn_entries n = direct_entries H E incl p)"

definition derive_kids :: "index \<Rightarrow> (entry \<Rightarrow> bool) \<Rightarrow> (string, string list) fmap" where
  "derive_kids E incl =
     derive_children_of (sorted_list_of_fset (derive_node_paths (fm_values E) incl))"

lemma derive_kids_lookup:
  assumes "fmdom nodes = derive_node_paths (fm_values E) incl"
  shows "(case fmlookup (derive_kids E incl) p of None \<Rightarrow> [] | Some v \<Rightarrow> v) = child_paths nodes p"
  by (auto simp: derive_kids_def derive_children_of_def fmlookup_fold_push Let_def child_paths_def
      assms filter_sorted_list_of_fset)

lemma derive_step_eq:
  assumes inv: "derive_inv H E incl D (parts, hashes)" and p: "p \<in> node_set E incl"
    and kids: "\<And>c. c \<in> node_set E incl \<Longrightarrow> c \<noteq> [] \<Longrightarrow> parent_path c = p \<Longrightarrow> c \<in> D"
  shows "derive_step H (derive_kids E incl) p (parts, hashes) =
    (fmupd p (node_for H E incl p parts) parts, fmupd p (tn_hash (node_for H E incl p parts)) hashes)"
proof -
  have dom: "fmdom parts = derive_node_paths (fm_values E) incl" using inv by (simp add: derive_inv_def)
  have c: "fmlookup hashes c = Some (tn_hash (the (fmlookup parts c)))" if "c \<in> set (child_paths parts p)" for c
  proof -
    have "c \<in> node_set E incl" "c \<noteq> []" "parent_path c = p"
      using that by (auto simp: child_paths_def dom)
    moreover from this(1) obtain n where "fmlookup parts c = Some n"
      using dom by (metis fmlookup_dom_iff in_node_paths)
    ultimately show ?thesis using kids inv by (simp add: derive_inv_def)
  qed
  have "fold (\<lambda>c m. case fmlookup hashes c of None \<Rightarrow> m | Some h \<Rightarrow> fmupd (basename c) h m) cs m =
      fold (\<lambda>(k, v) m. fmupd k v m) (map (\<lambda>c. (basename c, tn_hash (the (fmlookup parts c)))) cs) m"
    if "set cs \<subseteq> set (child_paths parts p)" for cs m
    using that by (induction cs arbitrary: m) (auto simp: c)
  then have children: "fold (\<lambda>c m. case fmlookup hashes c of None \<Rightarrow> m | Some h \<Rightarrow> fmupd (basename c) h m)
      (child_paths parts p) fmempty = direct_children parts p"
    by (simp add: direct_children_def fm_collect_def)
  obtain n where n: "fmlookup parts p = Some n"
    using dom p by (metis fmlookup_dom_iff in_node_paths)
  with inv have "tn_prefix n = display_prefix p" "tn_entries n = direct_entries H E incl p"
    by (auto simp: derive_inv_def)
  then have "n\<lparr>tn_children := cs, tn_hash := hash_node H (tn_prefix n) (tn_entries n) cs\<rparr> =
      mk_node H p (direct_entries H E incl p) cs" for cs
    by (cases n) (simp add: mk_node_def)
  with n children show ?thesis
    by (simp add: derive_step_def derive_kids_lookup [OF dom] Let_def node_for_def)
       (simp add: mk_node_def \<open>tn_prefix n = display_prefix p\<close> \<open>tn_entries n = direct_entries H E incl p\<close>)
qed

interpretation derive_pass:
  bottom_up "derive_node_paths (fm_values E) incl" "derive_step H (derive_kids E incl)" fst
    "\<lambda>p nodes. Some (node_for H E incl p nodes)" "derive_inv H E incl"
  for H E incl
proof
  fix p and f g :: "(string, tree_node) fmap"
  assume "\<And>c. c \<noteq> [] \<Longrightarrow> parent_path c = p \<Longrightarrow> fmlookup f c = fmlookup g c"
  then show "Some (node_for H E incl p f) = Some (node_for H E incl p g)"
    by (simp add: node_for_local [of p f g])
next
  fix D p and st :: "(string, tree_node) fmap \<times> (string, hash32) fmap"
  assume inv: "derive_inv H E incl D st" and p: "p |\<in>| derive_node_paths (fm_values E) incl" "p \<notin> D"
    and kids: "\<And>c. c |\<in>| derive_node_paths (fm_values E) incl \<Longrightarrow> c \<noteq> [] \<Longrightarrow> parent_path c = p \<Longrightarrow> c \<in> D"
  obtain parts hashes where st: "st = (parts, hashes)" by (cases st)
  have eq: "derive_step H (derive_kids E incl) p st =
      (fmupd p (node_for H E incl p parts) parts, fmupd p (tn_hash (node_for H E incl p parts)) hashes)"
    unfolding st by (rule derive_step_eq [of H E incl D]) (use inv p kids in \<open>auto simp: st\<close>)
  show "fmlookup (fst (derive_step H (derive_kids E incl) p st)) q =
      (if q = p then Some (node_for H E incl p (fst st)) else fmlookup (fst st) q)" for q
    unfolding eq by (simp add: st)
  have "finsert p (derive_node_paths (fm_values E) incl) = derive_node_paths (fm_values E) incl"
    using p(1) by (rule finsert_absorb)
  then show "derive_inv H E incl (insert p D) (derive_step H (derive_kids E incl) p st)"
    using inv p unfolding eq
    by (auto simp: derive_inv_def st node_for_def mk_node_def)
qed

text \<open>The tree built from scratch is the Merkle tree on the node paths of the index.\<close>

lemma derive_tree_with_spec:
  "merkle H E incl (ts_nodes (derive_tree_with H E incl))"
  "fmdom' (ts_nodes (derive_tree_with H E incl)) = node_set E incl"
  "fmlookup (ts_nodes (derive_tree_with H E incl)) [] = Some n \<Longrightarrow>
     ts_root_hash (derive_tree_with H E incl) = tn_hash n"
proof -
  let ?N = "derive_node_paths (fm_values E) incl"
  let ?init = "(derive_partials H (fm_values E) incl (sorted_list_of_fset ?N), fmempty)"
  define st where "st = fold (derive_step H (derive_kids E incl)) (rev (sorted_list_of_fset ?N)) ?init"
  have "fmdom (fst ?init) = ?N"
    by (rule fset_eqI) (simp add: fmlookup_dom_iff fmlookup_derive_partials)
  then have init: "derive_inv H E incl {} ?init"
    by (auto simp: derive_inv_def fmlookup_derive_partials blank_node_def)
  note pass = derive_pass.pass [OF init st_def]
  have nodes: "ts_nodes (derive_tree_with H E incl) = fst st"
    by (simp add: derive_tree_with_def Let_def st_def derive_kids_def split: prod.splits)
  have root: "ts_root_hash (derive_tree_with H E incl) =
      (case fmlookup (snd st) [] of Some h \<Rightarrow> h | None \<Rightarrow> zero_hash)"
    by (simp add: derive_tree_with_def Let_def st_def derive_kids_def split: prod.splits)
  have dom: "fmdom (fst st) = ?N" using pass(1) by (simp add: derive_inv_def)
  then show "fmdom' (ts_nodes (derive_tree_with H E incl)) = node_set E incl"
    by (simp add: nodes fmdom'_alt_def fset_derive_node_paths)
  show "merkle H E incl (ts_nodes (derive_tree_with H E incl))"
    unfolding merkle_def nodes
    using pass(2) dom by (metis fmlookup_dom_iff option.inject)
  show "ts_root_hash (derive_tree_with H E incl) = tn_hash n"
    if "fmlookup (ts_nodes (derive_tree_with H E incl)) [] = Some n"
    using pass(1) that by (simp add: root nodes derive_inv_def fset_derive_node_paths node_set_def)
qed

end
