(* ===== verification/Lil_Incremental.thy ===== *)
theory Lil_Incremental
  imports Lil_Merkle
begin

text \<open>
  The incremental update agrees with a rebuild from scratch, provided no dirty directory of the
  new index is empty; on an empty directory the two algorithms differ (the rebuild keeps a node
  for it, the update drops it), which the last section exhibits.
\<close>

section \<open>The update as a bottom-up pass\<close>

definition update_F ::
    "hasher \<Rightarrow> index \<Rightarrow> (entry \<Rightarrow> bool) \<Rightarrow> string \<Rightarrow> (string, tree_node) fmap \<Rightarrow> tree_node option" where
  "update_F H E incl p nodes =
     (if p = [] \<or> direct_entries H E incl p \<noteq> fmempty \<or> direct_children nodes p \<noteq> fmempty
      then Some (node_for H E incl p nodes) else None)"

definition update_inv ::
    "string fset \<Rightarrow> string list \<Rightarrow> string set \<Rightarrow> (string, tree_node) fmap \<Rightarrow> bool" where
  "update_inv A ks D nodes \<longleftrightarrow> A |\<subseteq>| fset_of_list ks \<and> fmdom nodes |\<subseteq>| fset_of_list ks"

lemma by_parent_entries:
  "(case fmlookup (by_parent_of (fm_values E) incl) p of
      None \<Rightarrow> fmempty
    | Some vs \<Rightarrow> fm_collect (map (\<lambda>e. (basename (e_path e), hash_entry H e)) vs)) =
   direct_entries H E incl p"
proof -
  have "by_parent_of (fm_values E) incl =
      fold (\<lambda>e m. if \<not> incl e then m else push_list (parent_path (e_path e)) e m) (fm_values E) fmempty"
    by (simp add: by_parent_of_def if_distrib cong: if_cong)
       (metis (no_types, lifting) fold_cong)
  then show ?thesis
    by (simp add: fmlookup_fold_push Let_def direct_entries_def)
qed

lemma child_keys_of_lookup:
  "fmlookup (child_keys_of ks) p =
     (let S = fset_of_list (filter (\<lambda>k. k \<noteq> [] \<and> parent_path k = p) ks) in
      if S = {||} then None else Some S)"
proof -
  have "fmlookup (fold (\<lambda>k m. if k = [] then m
          else fmupd (parent_path k)
                 (finsert k (case fmlookup m (parent_path k) of None \<Rightarrow> {||} | Some s \<Rightarrow> s)) m) ks m) p =
      (let S = fset_of_list (filter (\<lambda>k. k \<noteq> [] \<and> parent_path k = p) ks) in
       if S = {||} then fmlookup m p
       else Some ((case fmlookup m p of None \<Rightarrow> {||} | Some s \<Rightarrow> s) |\<union>| S))" for m
    by (induction ks arbitrary: m) (auto simp: Let_def split: option.splits)
  then show ?thesis by (simp add: child_keys_of_def Let_def)
qed

lemma child_keys_children:
  assumes "fmdom nodes |\<subseteq>| fset_of_list ks"
  shows "(case fmlookup (child_keys_of ks) p of
      None \<Rightarrow> fmempty
    | Some S \<Rightarrow> fm_collect (List.map_filter
        (\<lambda>k. map_option (\<lambda>v. (basename k, tn_hash v)) (fmlookup nodes k)) (sorted_list_of_fset S))) =
    direct_children nodes p"
proof -
  let ?S = "fset_of_list (filter (\<lambda>k. k \<noteq> [] \<and> parent_path k = p) ks)"
  have eq: "ffilter (\<lambda>k. fmlookup nodes k \<noteq> None) ?S =
      ffilter (\<lambda>c. c \<noteq> [] \<and> parent_path c = p) (fmdom nodes)"
    using assms by (auto simp: fset_of_list_elem fmlookup_dom_iff) (metis fmdomI fset_of_list_elem fsubsetD)
  then have "List.map_filter (\<lambda>k. map_option (\<lambda>v. (basename k, tn_hash v)) (fmlookup nodes k))
        (sorted_list_of_fset ?S) =
      map (\<lambda>c. (basename c, tn_hash (the (fmlookup nodes c)))) (child_paths nodes p)"
    by (auto simp: List.map_filter_def child_paths_def filter_sorted_list_of_fset option.map_sel)
  moreover have "child_paths nodes p = []" if "?S = {||}"
    unfolding child_paths_def eq [symmetric] that by (simp flip: filter_sorted_list_of_fset)
  ultimately show ?thesis
    by (auto simp: child_keys_of_lookup Let_def direct_children_def)
qed

interpretation update_pass:
  bottom_up A "update_step H (by_parent_of (fm_values E) incl) (child_keys_of ks)" "\<lambda>nodes. nodes"
    "update_F H E incl" "update_inv A ks"
  for A H E incl ks
proof
  fix p and f g :: "(string, tree_node) fmap"
  assume "\<And>c. c \<noteq> [] \<Longrightarrow> parent_path c = p \<Longrightarrow> fmlookup f c = fmlookup g c"
  then show "update_F H E incl p f = update_F H E incl p g"
    by (simp add: update_F_def node_for_local [of p f g] direct_children_local [of p f g])
next
  fix D p and nodes :: "(string, tree_node) fmap"
  assume inv: "update_inv A ks D nodes" and p: "p |\<in>| A"
  then have sub: "fmdom nodes |\<subseteq>| fset_of_list ks"
    by (simp add: update_inv_def)
  have step: "update_step H (by_parent_of (fm_values E) incl) (child_keys_of ks) p nodes =
      (case update_F H E incl p nodes of Some n \<Rightarrow> fmupd p n nodes | None \<Rightarrow> fmdrop p nodes)"
    unfolding update_step_def by_parent_entries child_keys_children [OF sub]
    by (simp add: update_F_def Let_def node_for_def mk_node_def)
  show "fmlookup (update_step H (by_parent_of (fm_values E) incl) (child_keys_of ks) p nodes) q =
      (if q = p then update_F H E incl p nodes else fmlookup nodes q)" for q
    unfolding step by (auto split: option.splits)
  show "update_inv A ks (insert p D)
      (update_step H (by_parent_of (fm_values E) incl) (child_keys_of ks) p nodes)"
    unfolding step using inv p by (auto simp: update_inv_def split: option.splits)
qed

section \<open>Dirty paths\<close>

lemma dirty_paths_union:
  "\<exists>X. fset (dirty_paths nodes E changed incl) = (\<Union>p\<in>X. insert p (set (ancestors p))) \<and> set changed \<subseteq> X"
proof -
  let ?U = "\<lambda>X. \<Union>p\<in>X. insert p (set (ancestors p))"
  have anc: "fset (fold (\<lambda>p d. fold finsert (ancestors p) (finsert p d)) ps d) = ?U (set ps) \<union> fset d"
    for ps d by (induction ps arbitrary: d) auto
  have desc: "fset (fold (\<lambda>q d. finsert q (fold finsert (ancestors q) d)) qs d) = ?U (set qs) \<union> fset d"
    for qs d by (induction qs arbitrary: d) auto
  let ?f = "\<lambda>p d. if fmlookup nodes p = None then d
             else if (case fmlookup E p of Some e \<Rightarrow> incl e | None \<Rightarrow> False) then d
             else fold (\<lambda>q d. finsert q (fold finsert (ancestors q) d))
                    (filter (\<lambda>k. starts_with k (p @ ''/'')) (fm_keys nodes)) d"
  have step: "\<exists>Y. fset (?f p d) = ?U Y \<union> fset d" for p d
    by (cases "fmlookup nodes p = None \<or> (case fmlookup E p of Some e \<Rightarrow> incl e | None \<Rightarrow> False)")
       (auto simp: desc intro: exI [of _ "{}"] exI [of _ "set (filter (\<lambda>k. starts_with k (p @ ''/'')) (fm_keys nodes))"])
  have "\<exists>Y. fset (fold ?f ps d) = ?U Y \<union> fset d" for ps d
  proof (induction ps arbitrary: d)
    case Nil
    show ?case by (intro exI [of _ "{}"]) simp
  next
    case (Cons p ps)
    obtain Y where Y: "fset (?f p d) = ?U Y \<union> fset d" using step by blast
    obtain Z where Z: "fset (fold ?f ps (?f p d)) = ?U Z \<union> fset (?f p d)" using Cons.IH by blast
    have "fset (fold ?f (p # ps) d) = ?U (Y \<union> Z) \<union> fset d" using Y Z by auto
    then show ?case by blast
  qed
  then obtain Y where "fset (dirty_paths nodes E changed incl) = ?U Y \<union> fset (dirty_ancestors changed)"
    unfolding dirty_paths_def by blast
  then have "fset (dirty_paths nodes E changed incl) = ?U (Y \<union> set changed)"
    by (simp add: dirty_ancestors_def anc Un_commute)
  then show ?thesis by blast
qed

lemma dirty_closed:
  "p |\<in>| dirty_paths nodes E changed incl \<Longrightarrow> parent_path p |\<in>| dirty_paths nodes E changed incl"
proof -
  assume p: "p |\<in>| dirty_paths nodes E changed incl"
  obtain X where X: "fset (dirty_paths nodes E changed incl) = (\<Union>p\<in>X. insert p (set (ancestors p)))"
    using dirty_paths_union by metis
  with p obtain x where x: "x \<in> X" "p = x \<or> p \<in> set (ancestors x)" by auto
  then have "parent_path p \<in> set (ancestors x)" using ancestors_closed by auto
  with x(1) X show ?thesis by blast
qed

lemma dirty_changed:
  "k \<in> set changed \<Longrightarrow> p = k \<or> p \<in> set (ancestors k) \<Longrightarrow> p |\<in>| dirty_paths nodes E changed incl"
  using dirty_paths_union [of nodes E changed incl] by auto

section \<open>Agreement with a rebuild\<close>

definition has_descendant :: "index \<Rightarrow> (entry \<Rightarrow> bool) \<Rightarrow> string \<Rightarrow> bool" where
  "has_descendant E incl p = list_ex (\<lambda>e. incl e \<and> p \<in> set (ancestors (e_path e))) (fm_values E)"

definition dirty_dirs_occupied :: "index \<Rightarrow> (entry \<Rightarrow> bool) \<Rightarrow> string fset \<Rightarrow> bool" where
  "dirty_dirs_occupied E incl D =
     list_all (\<lambda>e. incl e \<and> e_kind e = Dir \<and> e_path e |\<in>| D \<longrightarrow> has_descendant E incl (e_path e))
       (fm_values E)"

lemma filter_fm_values:
  assumes "wf_index E"
  shows "filter (\<lambda>e. incl e \<and> parent_path (e_path e) = p) (fm_values E) =
    map (\<lambda>k. the (fmlookup E k))
      (sorted_list_of_fset (ffilter (\<lambda>k. parent_path k = p \<and> incl (the (fmlookup E k))) (fmdom E)))"
proof -
  have "e_path (the (fmlookup E k)) = k" if "k |\<in>| fmdom E" for k
    using assms that by (auto simp: fmlookup_dom_iff dest: wf_indexD)
  then have "filter ((\<lambda>e. incl e \<and> parent_path (e_path e) = p) \<circ> (\<lambda>k. the (fmlookup E k)))
      (sorted_list_of_fset (fmdom E)) =
      filter (\<lambda>k. parent_path k = p \<and> incl (the (fmlookup E k))) (sorted_list_of_fset (fmdom E))"
    by (intro filter_cong) auto
  then show ?thesis
    by (simp add: fm_values_def fm_iter_def comp_def filter_map filter_sorted_list_of_fset)
qed

lemma direct_entries_local:
  assumes "wf_index E" "wf_index E'" and same: "\<And>k. parent_path k = p \<Longrightarrow> fmlookup E' k = fmlookup E k"
  shows "direct_entries H E' incl p = direct_entries H E incl p"
proof -
  have "ffilter (\<lambda>k. parent_path k = p \<and> incl (the (fmlookup E' k))) (fmdom E') =
      ffilter (\<lambda>k. parent_path k = p \<and> incl (the (fmlookup E k))) (fmdom E)"
    using same by (auto simp: fmlookup_dom_iff)
  then have "filter (\<lambda>e. incl e \<and> parent_path (e_path e) = p) (fm_values E') =
      filter (\<lambda>e. incl e \<and> parent_path (e_path e) = p) (fm_values E)"
    using same by (auto simp: filter_fm_values assms(1,2))
  then show ?thesis by (simp add: direct_entries_def)
qed

lemma direct_entries_empty_iff:
  "direct_entries H E incl p \<noteq> fmempty \<longleftrightarrow>
     (\<exists>k e. fmlookup E k = Some e \<and> incl e \<and> parent_path (e_path e) = p)"
  by (simp add: direct_entries_def filter_empty_conv bex_fm_values)

lemma direct_children_empty_iff:
  "direct_children nodes p \<noteq> fmempty \<longleftrightarrow> (\<exists>c. c \<noteq> [] \<and> parent_path c = p \<and> c |\<in>| fmdom nodes)"
proof -
  have "child_paths nodes p \<noteq> [] \<longleftrightarrow> (\<exists>c. c \<in> set (child_paths nodes p))"
    by (cases "child_paths nodes p") auto
  then show ?thesis by (auto simp: direct_children_def child_paths_def)
qed

lemma node_set_step:
  assumes "wf_index E"
  shows "p \<in> node_set E incl \<longleftrightarrow>
     p = [] \<or> (\<exists>k e. fmlookup E k = Some e \<and> incl e \<and> parent_path (e_path e) = p) \<or>
     (\<exists>c. c \<noteq> [] \<and> parent_path c = p \<and> c \<in> node_set E incl) \<or>
     (\<exists>e. fmlookup E p = Some e \<and> incl e \<and> e_kind e = Dir)" (is "?L \<longleftrightarrow> ?R")
proof
  assume ?L
  then consider "p = []"
    | k e where "fmlookup E k = Some e" "incl e" "p \<in> set (ancestors (e_path e))"
    | k e where "fmlookup E k = Some e" "incl e" "e_kind e = Dir" "p = e_path e"
    by (auto simp: node_set_def)
  then show ?R
  proof cases
    case 2
    from 2(3) show ?thesis
      by (rule ancestors_step) (use 2 in \<open>auto simp: node_set_def\<close>)
  next
    case 3
    with assms wf_indexD show ?thesis by blast
  qed simp
next
  assume ?R
  then show ?L
    using assms wf_indexD by (fastforce simp: node_set_def dest: ancestors_closed)
qed

lemma has_descendant_iff:
  "has_descendant E incl p \<longleftrightarrow> (\<exists>k e. fmlookup E k = Some e \<and> incl e \<and> p \<in> set (ancestors (e_path e)))"
  by (simp add: has_descendant_def list_ex_iff bex_fm_values)

lemma node_set_unchanged:
  assumes "wf_index E" "wf_index E'"
    and frame: "\<And>k. k \<notin> set changed \<Longrightarrow> fmlookup E' k = fmlookup E k"
    and p: "p |\<notin>| dirty_paths nodes E'' changed incl"
  shows "p \<in> node_set E' incl \<longleftrightarrow> p \<in> node_set E incl"
proof -
  have "fmlookup E' k = fmlookup E k" if "p \<in> set (ancestors k) \<or> p = k" for k
    using that p dirty_changed [of k changed p] frame [of k] by blast
  with assms(1,2) show ?thesis
    by (auto simp: node_set_def dest: wf_indexD) (metis wf_indexD)+
qed

lemma dirty_node_set_step:
  assumes wf: "wf_index E" and occ: "dirty_dirs_occupied E incl D" and p: "p |\<in>| D"
  shows "p \<in> node_set E incl \<longleftrightarrow>
     p = [] \<or> (\<exists>k e. fmlookup E k = Some e \<and> incl e \<and> parent_path (e_path e) = p) \<or>
     (\<exists>c. c \<noteq> [] \<and> parent_path c = p \<and> c \<in> node_set E incl)"
proof -
  have "(\<exists>k e. fmlookup E k = Some e \<and> incl e \<and> parent_path (e_path e) = p) \<or>
      (\<exists>c. c \<noteq> [] \<and> parent_path c = p \<and> c \<in> node_set E incl)"
    if e: "fmlookup E p = Some e" "incl e" "e_kind e = Dir" for e
  proof -
    have "e_path e = p" using wf e(1) by (rule wf_indexD)
    with occ p e obtain k f where f: "fmlookup E k = Some f" "incl f" "p \<in> set (ancestors (e_path f))"
      by (fastforce simp: dirty_dirs_occupied_def list_all_iff ball_fm_values has_descendant_iff)
    from f(3) show ?thesis
      by (rule ancestors_step) (use f in \<open>auto simp: node_set_def\<close>)
  qed
  with node_set_step [OF wf, of p incl] show ?thesis by blast
qed

text \<open>The nodes after the update, and what the bottom-up pass says of them.\<close>

definition update_nodes ::
    "hasher \<Rightarrow> (string, tree_node) fmap \<Rightarrow> index \<Rightarrow> string list \<Rightarrow> (entry \<Rightarrow> bool) \<Rightarrow> (string, tree_node) fmap" where
  "update_nodes H n0 E changed incl =
     (let D = dirty_paths n0 E changed incl in
      fold (update_step H (by_parent_of (fm_values E) incl)
              (child_keys_of (fm_keys n0 @ sorted_list_of_fset D)))
        (rev (sorted_list_of_fset D)) n0)"

lemma update_nodes_lookup:
  "p |\<in>| dirty_paths n0 E changed incl \<Longrightarrow>
     fmlookup (update_nodes H n0 E changed incl) p =
       update_F H E incl p (update_nodes H n0 E changed incl)"
  "p |\<notin>| dirty_paths n0 E changed incl \<Longrightarrow>
     fmlookup (update_nodes H n0 E changed incl) p = fmlookup n0 p"
proof -
  let ?D = "dirty_paths n0 E changed incl"
  have "update_inv ?D (fm_keys n0 @ sorted_list_of_fset ?D) {} n0"
    by (auto simp: update_inv_def fset_of_list_elem fmdom'_alt_def)
  note pass = update_pass.pass(2) [OF this update_nodes_def [unfolded Let_def]]
  show "p |\<in>| ?D \<Longrightarrow> fmlookup (update_nodes H n0 E changed incl) p =
      update_F H E incl p (update_nodes H n0 E changed incl)"
    using pass [where q = p] by simp
  show "p |\<notin>| ?D \<Longrightarrow> fmlookup (update_nodes H n0 E changed incl) p = fmlookup n0 p"
    using pass [where q = p] by simp
qed

lemma update_nodes_merkle:
  assumes wf: "wf_index E" "wf_index E'" and merkle: "merkle H E incl n0"
    and frame: "\<And>k. k \<notin> set changed \<Longrightarrow> fmlookup E' k = fmlookup E k"
  shows "merkle H E' incl (update_nodes H n0 E' changed incl)" (is "merkle H E' incl ?n1")
  unfolding merkle_def
proof (intro allI impI)
  let ?D = "dirty_paths n0 E' changed incl"
  fix p n
  assume n: "fmlookup ?n1 p = Some n"
  show "n = node_for H E' incl p ?n1"
  proof (cases "p |\<in>| ?D")
    case True
    with n update_nodes_lookup(1) show ?thesis by (fastforce simp: update_F_def split: if_splits)
  next
    case False
    have "fmlookup E' k = fmlookup E k" if "parent_path k = p" for k
      using False dirty_changed [of k changed p] parent_in_ancestors [of k] that frame by blast
    then have "direct_entries H E' incl p = direct_entries H E incl p"
      by (rule direct_entries_local [OF wf])
    moreover have "direct_children ?n1 p = direct_children n0 p"
      using False update_nodes_lookup(2) dirty_closed by (intro direct_children_local) blast
    moreover have "n = node_for H E incl p n0"
      using n update_nodes_lookup(2) [OF False] merkle by (simp add: merkle_def)
    ultimately show ?thesis by (simp add: node_for_def)
  qed
qed

lemma node_set_finite: "finite (node_set E incl)"
  using fset_derive_node_paths [of E incl] by (metis finite_fset)

lemma update_nodes_dom:
  assumes wf: "wf_index E" "wf_index E'" and n0: "\<And>q. q |\<in>| fmdom n0 \<longleftrightarrow> q \<in> node_set E incl"
    and frame: "\<And>k. k \<notin> set changed \<Longrightarrow> fmlookup E' k = fmlookup E k"
    and occ: "dirty_dirs_occupied E' incl (dirty_paths n0 E' changed incl)"
  shows "p |\<in>| fmdom (update_nodes H n0 E' changed incl) \<longleftrightarrow> p \<in> node_set E' incl"
    (is "p |\<in>| fmdom ?n1 \<longleftrightarrow> _")
proof -
  define M where "M = Max (insert 0 (length ` (fset (fmdom ?n1) \<union> node_set E' incl)))"
  have M: "length q \<le> M" if "q |\<in>| fmdom ?n1 \<or> q \<in> node_set E' incl" for q
    using that node_set_finite unfolding M_def by (intro Max_ge) auto
  show ?thesis
  proof (induction "Suc M - length p" arbitrary: p rule: less_induct)
    case less
    consider (clean) "p |\<notin>| dirty_paths n0 E' changed incl" | (long) "\<not> length p \<le> M"
      | (dirty) "p |\<in>| dirty_paths n0 E' changed incl" "length p \<le> M" by blast
    then show ?case
    proof cases
      case clean
      then show ?thesis
        using update_nodes_lookup(2) [OF clean] n0 [of p] node_set_unchanged [OF wf frame clean]
        by (simp add: fmlookup_dom_iff)
    next
      case long
      with M show ?thesis by blast
    next
      case dirty
      have "c |\<in>| fmdom ?n1 \<longleftrightarrow> c \<in> node_set E' incl" if "c \<noteq> []" "parent_path c = p" for c
        using less [of c] dirty(2) parent_path_shorter [OF that(1)] that(2) by simp
      then have "(\<exists>c. c \<noteq> [] \<and> parent_path c = p \<and> c |\<in>| fmdom ?n1) \<longleftrightarrow>
          (\<exists>c. c \<noteq> [] \<and> parent_path c = p \<and> c \<in> node_set E' incl)" by blast
      with update_nodes_lookup(1) [OF dirty(1)] show ?thesis
        unfolding dirty_node_set_step [OF wf(2) occ dirty(1)]
        by (simp add: fmlookup_dom_iff update_F_def direct_entries_empty_iff direct_children_empty_iff)
    qed
  qed
qed

lemma tree_snapshot_of_nodes:
  assumes "merkle H E incl nodes" and dom: "\<And>p. p |\<in>| fmdom nodes \<longleftrightarrow> p \<in> node_set E incl"
  shows "\<lparr>ts_root_hash = (case fmlookup nodes [] of Some n \<Rightarrow> tn_hash n | None \<Rightarrow> zero_hash),
          ts_nodes = nodes\<rparr> = derive_tree_with H E incl"
proof -
  have "fmdom nodes = fmdom (ts_nodes (derive_tree_with H E incl))"
    using dom derive_tree_with_spec(2) [of H E incl] by (auto simp: fmdom'_alt_def)
  then have nodes: "nodes = ts_nodes (derive_tree_with H E incl)"
    by (rule merkle_unique [OF assms(1) derive_tree_with_spec(1)])
  have "[] |\<in>| fmdom nodes" by (simp add: dom node_set_def)
  then obtain r where r: "fmlookup nodes [] = Some r" by (auto simp: fmlookup_dom_iff)
  with derive_tree_with_spec(3) [of H E incl r] nodes show ?thesis
    by (intro tree_snapshot.equality) simp_all
qed

lemma update_tree_snapshot_derive:
  assumes "wf_index E" "wf_index E'"
    and "\<And>k. k \<notin> set changed \<Longrightarrow> fmlookup E' k = fmlookup E k"
    and "dirty_dirs_occupied E' incl
      (dirty_paths (ts_nodes (derive_tree_with H E incl)) E' changed incl)"
  shows "update_tree_snapshot H (derive_tree_with H E incl) E' changed incl =
    derive_tree_with H E' incl"
proof -
  let ?n0 = "ts_nodes (derive_tree_with H E incl)"
  have n0: "q |\<in>| fmdom ?n0 \<longleftrightarrow> q \<in> node_set E incl" for q
    using derive_tree_with_spec(2) [of H E incl] by (simp add: fmdom'_alt_def)
  have "update_tree_snapshot H (derive_tree_with H E incl) E' changed incl =
      (let n1 = update_nodes H ?n0 E' changed incl in
       \<lparr>ts_root_hash = (case fmlookup n1 [] of Some n \<Rightarrow> tn_hash n | None \<Rightarrow> zero_hash), ts_nodes = n1\<rparr>)"
    by (simp add: update_tree_snapshot_def update_nodes_def Let_def)
  then show ?thesis
    using tree_snapshot_of_nodes [OF update_nodes_merkle [OF assms(1,2) derive_tree_with_spec(1) assms(3)]
        update_nodes_dom [OF assms(1,2) n0 assms(3,4)]]
    by (simp add: Let_def)
qed

text \<open>
  C1. Updating the Merkle tree of an index after a set of changed paths gives exactly the tree
  that building from scratch gives for the new index (nodes, hashes and root), provided every
  directory entry among the dirty paths has something below it.
\<close>

theorem update_tree_snapshot_correct:
  assumes "wf_index E" "wf_index E'"
    and "\<And>k. k \<notin> set changed \<Longrightarrow> fmlookup E' k = fmlookup E k"
    and "dirty_dirs_occupied E' incl
      (dirty_paths (ts_nodes (derive_tree_with H E incl)) E' changed incl)"
  shows "update_tree_snapshot H (derive_tree_with H E incl) E' changed incl =
    derive_tree_with H E' incl"
  using assms by (rule update_tree_snapshot_derive)

section \<open>Instances\<close>

text \<open>A small index, and a hash of 32 bytes that is easy to compute.\<close>

definition tail_hash :: hasher where
  "tail_hash b = take 32 (rev b @ replicate 32 0)"

definition ex_entry :: "string \<Rightarrow> entry_kind \<Rightarrow> u64 \<Rightarrow> entry" where
  "ex_entry p k l =
     \<lparr>e_path = p, e_kind = k,
      e_content_hash = (if k = File then Some (replicate 32 7) else None),
      e_symlink_target = None, e_size = 3, e_mode = Some 0x81A4, e_version = Version l ''n''\<rparr>"

definition ex_index :: index where
  "ex_index =
     fmupd ''a.txt'' (ex_entry ''a.txt'' File 1)
       (fmupd ''d'' (ex_entry ''d'' Dir 2) (fmupd ''d/b'' (ex_entry ''d/b'' File 3) fmempty))"

definition ex_index' :: index where
  "ex_index' = fmupd ''d/b'' (ex_entry ''d/b'' File 4) (fmupd ''d/c'' (ex_entry ''d/c'' File 5) ex_index)"

lemma ex_index_wf: "wf_index ex_index" "wf_index ex_index'"
  by code_simp+

lemma ex_index_frame: "k \<notin> set [''d/b'', ''d/c''] \<Longrightarrow> fmlookup ex_index' k = fmlookup ex_index k"
  by (auto simp: ex_index'_def)

lemma ex_index_occupied:
  "dirty_dirs_occupied ex_index' incl_all
     (dirty_paths (ts_nodes (derive_tree_with tail_hash ex_index incl_all)) ex_index'
        [''d/b'', ''d/c''] incl_all)"
  by code_simp

theorem update_tree_snapshot_correct_witness:
  "update_tree_snapshot tail_hash (derive_tree_with tail_hash ex_index incl_all) ex_index'
     [''d/b'', ''d/c''] incl_all = derive_tree_with tail_hash ex_index' incl_all"
  by (rule update_tree_snapshot_correct [OF ex_index_wf ex_index_frame ex_index_occupied])


end
