(* ===== verification/Lil_State.thy ===== *)
theory Lil_State
  imports Lil_Scan Lil_Incremental
begin

text \<open>
  \<open>FolderState\<close> of \<open>src/state.rs\<close>: the entry index, its two Merkle trees, the Lamport clock and
  the garbage-collection watermark of one folder, over the file system of \<open>Lil_Fs\<close>. Methods take
  the state (and the file system where they touch it) and return both together with their
  result, also when they fail. This theory holds the definitions; the properties are in the
  theories that import it.
\<close>

section \<open>State\<close>

record folder_state =
  fo_root :: abspath
  fo_origin :: string
  fo_lamport :: u64
  fo_gc_watermark :: gc_watermark
  fo_entries :: index
  fo_tree :: tree_snapshot
  fo_live_tree :: tree_snapshot
  fo_scan_cache :: scan_cache

definition into_entry :: "legacy_entry \<Rightarrow> entry" where
  "into_entry l =
     \<lparr>e_path = le_path l, e_kind = le_kind l, e_content_hash = le_content_hash l,
      e_symlink_target = None, e_size = le_size l, e_mode = le_mode l, e_version = le_version l\<rparr>"

text \<open>\<open>Path::join\<close> of a relative path: its names appended to the base.\<close>

definition path_join :: "abspath \<Rightarrow> string \<Rightarrow> abspath" where
  "path_join base rel =
     base @ filter (\<lambda>c. c \<noteq> [] \<and> c \<noteq> ''.'') (split_char CHR ''/'' rel)"

definition state_dir_of :: "abspath \<Rightarrow> abspath" where
  "state_dir_of root = root @ [STATE_DIR]"

section \<open>Queries\<close>

definition root_hash :: "folder_state \<Rightarrow> hash32" where
  "root_hash s = ts_root_hash (fo_tree s)"

definition live_root_hash :: "folder_state \<Rightarrow> hash32" where
  "live_root_hash s = ts_root_hash (fo_live_tree s)"

definition state_node :: "folder_state \<Rightarrow> string \<Rightarrow> tree_node option" where
  "state_node s prefix = fmlookup (ts_nodes (fo_tree s)) (normalize_prefix prefix)"

definition state_entry :: "folder_state \<Rightarrow> string \<Rightarrow> entry option" where
  "state_entry s p = fmlookup (fo_entries s) (trim_matches CHR ''/'' p)"

definition object_file :: "folder_state \<Rightarrow> hash32 \<Rightarrow> (abspath \<times> u64) option" where
  "object_file s content_hash =
     map_option (\<lambda>e. (path_join (fo_root s) (e_path e), e_size e))
       (find (\<lambda>e. e_kind e = File \<and> e_content_hash e = Some content_hash) (fm_values (fo_entries s)))"

definition tmp_recv_path :: "lib \<Rightarrow> nat \<Rightarrow> nat \<Rightarrow> folder_state \<Rightarrow> entry \<Rightarrow> abspath" where
  "tmp_recv_path X pid recv_id s e =
     state_dir_of (fo_root s) @
       [''recv-'' @ nat_to_string pid @ ''-'' @ nat_to_string recv_id @ ''-'' @
        nat_to_string (unat (v_lamport (e_version e))) @ ''-'' @
        take 16 (hex (blake3 X (as_bytes (e_path e))))]"

definition is_version_gced :: "folder_state \<Rightarrow> version \<Rightarrow> bool" where
  "is_version_gced s v =
     (case fmlookup (fo_gc_watermark s) (v_origin v) of
        None \<Rightarrow> False | Some l \<Rightarrow> v_lamport v \<le> l)"

definition bad_remote_component :: "string \<Rightarrow> bool" where
  "bad_remote_component c \<longleftrightarrow> c = [] \<or> c = ''.'' \<or> c = ''..'' \<or> should_ignore_component c"

definition validate_remote_path :: "string \<Rightarrow> unit io_result" where
  "validate_remote_path p =
     (if p = [] then Inl InvalidInput
      else if CHR 0x00 \<in> set p \<or> CHR 0x5C \<in> set p then Inl InvalidInput
      else if list_ex bad_remote_component (split_char CHR ''/'' p) then Inl InvalidInput
      else if is_absolute p \<or> list_ex unsafe_component (path_components p) then Inl InvalidInput
      else Inr ())"

definition should_accept_remote :: "folder_state \<Rightarrow> entry \<Rightarrow> bool" where
  "should_accept_remote s remote =
     (if validate_remote_path (e_path remote) \<noteq> Inr () then False
      else if e_kind remote = Tombstone \<and> is_version_gced s (e_version remote) then False
      else case fmlookup (fo_entries s) (e_path remote) of
             None \<Rightarrow> True
           | Some local \<Rightarrow> e_version local < e_version remote)"

section \<open>Saving\<close>

text \<open>A failed save is logged and otherwise ignored; the file system keeps what was written.\<close>

definition save_lamport :: "folder_state \<Rightarrow> fs \<Rightarrow> fs" where
  "save_lamport s fs =
     snd (write_atomic fs (state_dir_of (fo_root s) @ [''lamport'']) (u64_to_le_bytes (fo_lamport s)))"

definition save_entries :: "lib \<Rightarrow> folder_state \<Rightarrow> fs \<Rightarrow> fs" where
  "save_entries X s fs =
     (case ser_entries X (fo_entries s) of
        None \<Rightarrow> fs
      | Some b \<Rightarrow> snd (write_atomic fs (state_dir_of (fo_root s) @ [''entries.bin'']) b))"

definition save_gc_watermark :: "lib \<Rightarrow> folder_state \<Rightarrow> fs \<Rightarrow> fs" where
  "save_gc_watermark X s fs =
     (case ser_watermark X (fo_gc_watermark s) of
        None \<Rightarrow> fs
      | Some b \<Rightarrow> snd (write_atomic fs (state_dir_of (fo_root s) @ [''gc-watermark.bin'']) b))"

section \<open>Local versions and tombstones\<close>

text \<open>\<open>lamport += 1\<close> wraps in a release build.\<close>

definition next_version :: "folder_state \<Rightarrow> version \<times> folder_state" where
  "next_version s =
     (let l = fo_lamport s + 1 in (Version l (fo_origin s), s\<lparr>fo_lamport := l\<rparr>))"

definition tombstone_path :: "string \<Rightarrow> folder_state \<times> change list \<Rightarrow> folder_state \<times> change list" where
  "tombstone_path p st =
     (case st of (s, changes) \<Rightarrow>
        (case fmlookup (fo_entries s) p of
           None \<Rightarrow> (s, changes)
         | Some old \<Rightarrow>
             if e_kind old = Tombstone then (s, changes)
             else let (v, s1) = next_version s;
                      new = tombstone_entry p old v
                  in (s1\<lparr>fo_entries := fmupd p new (fo_entries s1)\<rparr>,
                      changes @ [\<lparr>c_path = p, c_old = Some old, c_new = new\<rparr>])))"

definition tombstone_descendants ::
    "string \<Rightarrow> folder_state \<times> change list \<Rightarrow> folder_state \<times> change list" where
  "tombstone_descendants relative st =
     (let prefix = relative @ ''/'';
          to_tombstone = filter (\<lambda>p. p = relative \<or> starts_with p prefix) (fm_keys (fo_entries (fst st)))
      in fold tombstone_path to_tombstone st)"

definition tombstone_child_descendants ::
    "string \<Rightarrow> folder_state \<times> change list \<Rightarrow> folder_state \<times> change list" where
  "tombstone_child_descendants relative st =
     (let prefix = relative @ ''/'';
          to_tombstone = filter (\<lambda>p. starts_with p prefix) (fm_keys (fo_entries (fst st)))
      in fold tombstone_path to_tombstone st)"

definition update_entry ::
    "string \<Rightarrow> entry \<Rightarrow> folder_state \<times> change list \<Rightarrow> folder_state \<times> change list" where
  "update_entry p live st =
     (case st of (s, changes) \<Rightarrow>
        let existing = fmlookup (fo_entries s) p in
        if (case existing of None \<Rightarrow> False | Some o' \<Rightarrow> same_observed_state o' live) then (s, changes)
        else
          let replaces_dir_with_non_dir =
                (case existing of None \<Rightarrow> False | Some old \<Rightarrow> e_kind old = Dir) \<and> e_kind live \<noteq> Dir;
              (v, s1) = next_version s;
              new = live\<lparr>e_version := v\<rparr>;
              st1 = (s1\<lparr>fo_entries := fmupd p new (fo_entries s1)\<rparr>,
                     changes @ [\<lparr>c_path = p, c_old = existing, c_new = new\<rparr>])
          in if replaces_dir_with_non_dir then tombstone_child_descendants p st1 else st1)"

section \<open>Trees\<close>

definition rebuild_trees :: "lib \<Rightarrow> folder_state \<Rightarrow> folder_state" where
  "rebuild_trees X s =
     s\<lparr>fo_tree := derive_tree (blake3 X) (fo_entries s),
       fo_live_tree := derive_live_tree (blake3 X) (fo_entries s)\<rparr>"

definition update_trees :: "lib \<Rightarrow> string list \<Rightarrow> folder_state \<Rightarrow> folder_state" where
  "update_trees X changed_paths s =
     s\<lparr>fo_tree := update_tree_snapshot (blake3 X) (fo_tree s) (fo_entries s) changed_paths incl_all,
       fo_live_tree :=
         update_tree_snapshot (blake3 X) (fo_live_tree s) (fo_entries s) changed_paths incl_live\<rparr>"

section \<open>Garbage collection of tombstones\<close>

definition gc_covered :: "folder_state \<Rightarrow> entry \<Rightarrow> bool" where
  "gc_covered s e \<longleftrightarrow> e_kind e = Tombstone \<and> is_version_gced s (e_version e)"

definition prune_tombstones_covered_by_watermark :: "lib \<Rightarrow> folder_state \<Rightarrow> nat \<times> folder_state" where
  "prune_tombstones_covered_by_watermark X s =
     (let to_remove = map fst (filter (\<lambda>(k, e). gc_covered s e) (fm_iter (fo_entries s)));
          count = length to_remove
      in if 0 < count
         then (count, rebuild_trees X (s\<lparr>fo_entries := fold fmdrop to_remove (fo_entries s)\<rparr>))
         else (count, s))"

definition merge_watermark_entry ::
    "string \<times> u64 \<Rightarrow> gc_watermark \<times> bool \<Rightarrow> gc_watermark \<times> bool" where
  "merge_watermark_entry x st =
     (case (x, st) of ((origin, lamport), (wm, changed)) \<Rightarrow>
        let wm1 = (case fmlookup wm origin of None \<Rightarrow> fmupd origin 0 wm | Some _ \<Rightarrow> wm);
            loc = the (fmlookup wm1 origin)
        in if loc < lamport then (fmupd origin lamport wm1, True) else (wm1, changed))"

definition own_watermark :: "folder_state \<Rightarrow> u64" where
  "own_watermark s = (case fmlookup (fo_gc_watermark s) (fo_origin s) of None \<Rightarrow> 0 | Some l \<Rightarrow> l)"

definition merge_gc_watermark ::
    "lib \<Rightarrow> gc_watermark \<Rightarrow> folder_state \<Rightarrow> fs \<Rightarrow> (bool \<times> nat) \<times> folder_state \<times> fs" where
  "merge_gc_watermark X incoming s fs =
     (let (wm, changed) = fold merge_watermark_entry (fm_iter incoming) (fo_gc_watermark s, False);
          s1 = s\<lparr>fo_gc_watermark := wm\<rparr>;
          (s2, fs2) =
            (if changed then
               let fs1 = save_gc_watermark X s1 fs in
               if fo_lamport s1 < own_watermark s1
               then let s' = s1\<lparr>fo_lamport := own_watermark s1\<rparr> in (s', save_lamport s' fs1)
               else (s1, fs1)
             else (s1, fs));
          (pruned, s3) = prune_tombstones_covered_by_watermark X s2;
          (s4, fs4) =
            (if 0 < pruned
             then let s' = s3\<lparr>fo_lamport := fo_lamport s3 + 1\<rparr> in (s', save_lamport s' fs2)
             else (s3, fs2))
      in ((changed, pruned), s4, fs4))"

definition tombstone_watermark :: "entry list \<Rightarrow> gc_watermark" where
  "tombstone_watermark es =
     fold (\<lambda>e wm. if e_kind e \<noteq> Tombstone then wm
                  else let o' = v_origin (e_version e);
                           l = (case fmlookup wm o' of None \<Rightarrow> 0 | Some l \<Rightarrow> l)
                       in fmupd o' (max l (v_lamport (e_version e))) wm) es fmempty"

definition gc_tombstones_for_converged_root ::
    "lib \<Rightarrow> folder_state \<Rightarrow> fs \<Rightarrow> nat \<times> folder_state \<times> fs" where
  "gc_tombstones_for_converged_root X s fs =
     (let watermark = tombstone_watermark (fm_values (fo_entries s)) in
      if watermark = fmempty then (0, s, fs)
      else case merge_gc_watermark X watermark s fs of ((_, pruned), s1, fs1) \<Rightarrow> (pruned, s1, fs1))"

end
