(* ===== verification/Lil_Apply.thy ===== *)
theory Lil_Apply
  imports Lil_State
begin

text \<open>
  The operations of \<open>FolderState\<close> (\<open>src/state.rs\<close>) that touch the file system: installing remote
  entries, applying batches of them, rescanning, applying watcher events, and start-up. An
  operation returns its result, the state and the file system; an early return by \<open>?\<close> keeps the
  effects of the steps before it.
\<close>

section \<open>File system helpers of state.rs\<close>

definition set_mode :: "fs \<Rightarrow> abspath \<Rightarrow> u32 option \<Rightarrow> unit io_result \<times> fs" where
  "set_mode fs p m = (case m of None \<Rightarrow> (Inr (), fs) | Some m' \<Rightarrow> set_permissions fs p m')"

definition io_seq ::
    "unit io_result \<times> 's \<Rightarrow> ('s \<Rightarrow> unit io_result \<times> 's) \<Rightarrow> unit io_result \<times> 's" where
  "io_seq r k = (case r of (Inl e, s) \<Rightarrow> (Inl e, s) | (Inr _, s) \<Rightarrow> k s)"

text \<open>The first argument bounds the depth of the recursion, as for \<open>scan_dir\<close>.\<close>

primrec make_dir_tree_writable :: "nat \<Rightarrow> abspath \<Rightarrow> fs \<Rightarrow> unit io_result \<times> fs" where
  "make_dir_tree_writable 0 p fs = (Inl Other, fs)"
| "make_dir_tree_writable (Suc n) p fs =
     (case symlink_metadata fs p of
        Inl e \<Rightarrow> (Inl e, fs)
      | Inr md \<Rightarrow>
          if md_type md \<noteq> FtDir then (Inr (), fs)
          else io_seq (set_mode fs p (Some (md_mode md OR 0x1C0)))
            (\<lambda>fs1. case read_dir fs1 p of
               Inl e \<Rightarrow> (Inl e, fs1)
             | Inr children \<Rightarrow>
                 try_for (\<lambda>child fs2. case symlink_metadata fs2 child of
                            Inl e \<Rightarrow> (Inl e, fs2)
                          | Inr cm \<Rightarrow> if md_type cm = FtDir then make_dir_tree_writable n child fs2
                                      else (Inr (), fs2)) children fs1))"

definition remove_dir_all_writable :: "fs \<Rightarrow> abspath \<Rightarrow> unit io_result \<times> fs" where
  "remove_dir_all_writable fs p =
     io_seq (make_dir_tree_writable (scan_fuel fs) p fs) (\<lambda>fs1. remove_dir_all fs1 p)"

definition remove_path_if_exists :: "fs \<Rightarrow> abspath \<Rightarrow> unit io_result \<times> fs" where
  "remove_path_if_exists fs p =
     (case symlink_metadata fs p of
        Inr md \<Rightarrow> if md_type md = FtDir then remove_dir_all_writable fs p else remove_file fs p
      | Inl e \<Rightarrow> if e = NotFound then (Inr (), fs) else (Inl e, fs))"

definition install_dir_at :: "fs \<Rightarrow> abspath \<Rightarrow> unit io_result \<times> fs" where
  "install_dir_at fs p =
     (case symlink_metadata fs p of
        Inr md \<Rightarrow> if md_type md = FtDir then (Inr (), fs)
                  else io_seq (remove_path_if_exists fs p) (\<lambda>fs1. create_dir_all fs1 p)
      | Inl e \<Rightarrow> if e = NotFound then create_dir_all fs p else (Inl e, fs))"

definition sanitize_remote_mode :: "u32 option \<Rightarrow> u32 option" where
  "sanitize_remote_mode m = map_option (\<lambda>m. m AND NOT 0xC00) m"

section \<open>Installing remote entries\<close>

definition install_remote_file :: "abspath \<Rightarrow> entry \<Rightarrow> abspath \<Rightarrow> fs \<Rightarrow> unit io_result \<times> fs" where
  "install_remote_file root remote tmp fs =
     (let dest = path_join root (e_path remote) in
      io_seq (create_dir_all fs (butlast dest))
        (\<lambda>fs1. io_seq (remove_path_if_exists fs1 dest)
          (\<lambda>fs2. io_seq (rename fs2 tmp dest)
            (\<lambda>fs3. set_mode fs3 dest (sanitize_remote_mode (e_mode remote))))))"

definition install_remote_dir :: "abspath \<Rightarrow> entry \<Rightarrow> fs \<Rightarrow> unit io_result \<times> fs" where
  "install_remote_dir root remote fs =
     (let dest = path_join root (e_path remote) in
      io_seq (install_dir_at fs dest)
        (\<lambda>fs1. set_mode fs1 dest (sanitize_remote_mode (e_mode remote))))"

definition install_remote_symlink :: "abspath \<Rightarrow> entry \<Rightarrow> fs \<Rightarrow> unit io_result \<times> fs" where
  "install_remote_symlink root remote fs =
     (let dest = path_join root (e_path remote) in
      case e_symlink_target remote of
        None \<Rightarrow> (Inl InvalidInput, fs)
      | Some target \<Rightarrow>
          (case validate_symlink_target target of
             Inl e \<Rightarrow> (Inl e, fs)
           | Inr _ \<Rightarrow>
               io_seq (create_dir_all fs (butlast dest))
                 (\<lambda>fs1. io_seq (remove_path_if_exists fs1 dest)
                   (\<lambda>fs2. symlink fs2 target dest))))"

definition install_remote ::
    "abspath \<Rightarrow> entry \<Rightarrow> abspath option \<Rightarrow> fs \<Rightarrow> unit io_result \<times> fs" where
  "install_remote root remote tmp fs =
     (case e_kind remote of
        File \<Rightarrow> (case tmp of None \<Rightarrow> (Inl InvalidInput, fs)
                 | Some t \<Rightarrow> install_remote_file root remote t fs)
      | Dir \<Rightarrow> install_remote_dir root remote fs
      | Symlink \<Rightarrow> install_remote_symlink root remote fs
      | Tombstone \<Rightarrow> remove_path_if_exists fs (path_join root (e_path remote)))"

text \<open>The index update that follows a successful installation: the changes, the state, and the
  changed paths.\<close>

definition record_remote :: "entry \<Rightarrow> folder_state \<Rightarrow> change list \<times> folder_state" where
  "record_remote remote s =
     (let p = e_path remote;
          old = fmlookup (fo_entries s) p;
          s1 = s\<lparr>fo_lamport := max (fo_lamport s) (v_lamport (e_version remote)),
                 fo_entries := fmupd p remote (fo_entries s)\<rparr>;
          (s2, extra) = (if e_kind remote \<noteq> Dir then tombstone_child_descendants p (s1, []) else (s1, []))
      in (\<lparr>c_path = p, c_old = old, c_new = remote\<rparr> # extra, s2))"

definition apply_remote_entry_core ::
    "entry \<Rightarrow> abspath option \<Rightarrow> folder_state \<Rightarrow> fs \<Rightarrow> string list \<Rightarrow>
     change list io_result \<times> folder_state \<times> fs \<times> string list" where
  "apply_remote_entry_core remote tmp s fs changed_paths =
     (case validate_remote_path (e_path remote) of
        Inl e \<Rightarrow> (Inl e, s, fs, changed_paths)
      | Inr _ \<Rightarrow>
          if \<not> should_accept_remote s remote
          then (Inr [], s, (case tmp of None \<Rightarrow> fs | Some t \<Rightarrow> snd (remove_file fs t)), changed_paths)
          else case install_remote (fo_root s) remote tmp fs of
                 (Inl e, fs1) \<Rightarrow> (Inl e, s, fs1, changed_paths)
               | (Inr _, fs1) \<Rightarrow>
                   (case record_remote remote s of
                      (changes, s1) \<Rightarrow> (Inr changes, s1, fs1, changed_paths @ map c_path changes)))"

primrec apply_remote_loop ::
    "(entry \<times> abspath option) list \<Rightarrow> change list \<Rightarrow> folder_state \<Rightarrow> fs \<Rightarrow> string list \<Rightarrow>
     change list io_result \<times> folder_state \<times> fs \<times> string list" where
  "apply_remote_loop [] all_changes s fs changed_paths = (Inr all_changes, s, fs, changed_paths)"
| "apply_remote_loop (x # batch) all_changes s fs changed_paths =
     (case apply_remote_entry_core (fst x) (snd x) s fs changed_paths of
        (Inl e, r) \<Rightarrow> (Inl e, r)
      | (Inr changes, s1, fs1, cp) \<Rightarrow> apply_remote_loop batch (all_changes @ changes) s1 fs1 cp)"

definition apply_remote_entries ::
    "lib \<Rightarrow> (entry \<times> abspath option) list \<Rightarrow> folder_state \<Rightarrow> fs \<Rightarrow>
     change list io_result \<times> folder_state \<times> fs" where
  "apply_remote_entries X batch s fs =
     (case apply_remote_loop batch [] s fs [] of
        (Inl e, s1, fs1, _) \<Rightarrow> (Inl e, s1, fs1)
      | (Inr all_changes, s1, fs1, changed_paths) \<Rightarrow>
          if changed_paths \<noteq> [] then
            let s2 = update_trees X changed_paths s1
            in (Inr all_changes, s2, save_entries X s2 (save_lamport s2 fs1))
          else (Inr all_changes, s1, fs1))"

section \<open>Local changes\<close>

text \<open>The pass over the old index at the end of a rescan.\<close>

definition tombstone_missing ::
    "string fset \<Rightarrow> ignore_pattern list \<Rightarrow> string \<Rightarrow> folder_state \<times> change list \<Rightarrow>
     folder_state \<times> change list" where
  "tombstone_missing seen pats p st =
     (if p |\<in>| seen then st else if should_ignore p pats then st else tombstone_path p st)"

definition rescan :: "lib \<Rightarrow> folder_state \<Rightarrow> fs \<Rightarrow> change list io_result \<times> folder_state \<times> fs" where
  "rescan X s fs =
     (case load_ignore_patterns fs (fo_root s) of
        Inl e \<Rightarrow> (Inl e, s, fs)
      | Inr pats \<Rightarrow>
          (case scan_folder X fs (fo_root s) (fo_scan_cache s) of
             (Inl e, a) \<Rightarrow> (Inl e, s\<lparr>fo_scan_cache := sa_cache a\<rparr>, fs)
           | (Inr _, a) \<Rightarrow>
               let s0 = s\<lparr>fo_scan_cache := sa_cache a\<rparr>;
                   seen = sa_unstable a |\<union>| fmdom (sa_entries a);
                   (s1, changes1) =
                     fold (\<lambda>(p, live). update_entry p live) (fm_iter (sa_entries a)) (s0, []);
                   (cache, fs1) = cache_save X fs (state_dir_of (fo_root s1))
                                    (retain_paths seen (fo_scan_cache s1));
                   s2 = s1\<lparr>fo_scan_cache := cache\<rparr>;
                   (s3, changes) =
                     fold (tombstone_missing seen pats) (fm_keys (fo_entries s2)) (s2, changes1)
               in (Inr changes, rebuild_trees X s3, fs1)))"

definition apply_one_path ::
    "lib \<Rightarrow> fs \<Rightarrow> abspath \<Rightarrow> string \<Rightarrow> ignore_pattern list \<Rightarrow> folder_state \<times> change list \<Rightarrow>
     unit io_result \<times> folder_state \<times> change list" where
  "apply_one_path X fs abs_path relative pats st =
     (if should_ignore relative pats then (Inr (), st)
      else case symlink_metadata fs abs_path of
        Inl e \<Rightarrow> if e = NotFound then (Inr (), tombstone_descendants relative st) else (Inl e, st)
      | Inr md \<Rightarrow>
          (case md_type md of
             FtSymlink \<Rightarrow>
               (case read_supported_symlink fs abs_path of
                  Inl e \<Rightarrow> (Inl e, st)
                | Inr None \<Rightarrow> (Inr (), st)
                | Inr (Some target) \<Rightarrow> (Inr (), update_entry relative (symlink_entry relative target) st))
           | FtFile \<Rightarrow>
               (case observe_file_cached X fs abs_path relative md True (fo_scan_cache (fst st)) of
                  (r, c) \<Rightarrow>
                    let st' = ((fst st)\<lparr>fo_scan_cache := c\<rparr>, snd st) in
                    (case r of
                       Inl e \<Rightarrow> (Inl e, st')
                     | Inr None \<Rightarrow> (Inr (), st')
                     | Inr (Some obs) \<Rightarrow> (Inr (), update_entry relative (file_entry relative obs) st')))
           | FtDir \<Rightarrow>
               (let st1 = update_entry relative (dir_entry relative (md_mode_opt md)) st;
                    a0 = \<lparr>sa_entries = fmempty, sa_unstable = {||},
                          sa_cache = fo_scan_cache (fst st1)\<rparr>
                in case scan_dir (scan_fuel fs) X fs (fo_root (fst st1)) pats abs_path a0 of
                     (r, a) \<Rightarrow>
                       let st2 = ((fst st1)\<lparr>fo_scan_cache := sa_cache a\<rparr>, snd st1) in
                       (case r of
                          Inl e \<Rightarrow> (Inl e, st2)
                        | Inr _ \<Rightarrow>
                            (Inr (), fold (\<lambda>(p, live). update_entry p live) (fm_iter (sa_entries a)) st2)))
           | FtOther \<Rightarrow> (Inr (), st)))"

definition apply_event ::
    "lib \<Rightarrow> fs \<Rightarrow> ignore_pattern list \<Rightarrow> abspath \<Rightarrow> folder_state \<times> change list \<Rightarrow>
     unit io_result \<times> folder_state \<times> change list" where
  "apply_event X fs pats abs_path st =
     (case relative_path (fo_root (fst st)) abs_path of
        Inl _ \<Rightarrow> (Inr (), st)
      | Inr relative \<Rightarrow>
          if relative = [] then (Inr (), st) else apply_one_path X fs abs_path relative pats st)"

definition apply_paths ::
    "lib \<Rightarrow> abspath list \<Rightarrow> folder_state \<Rightarrow> fs \<Rightarrow> change list io_result \<times> folder_state \<times> fs" where
  "apply_paths X abs_paths s fs =
     (let canonical_paths = List.map_filter (normalize_event_path fs) abs_paths in
      if list_ex (\<lambda>p. p = fo_root s @ [IGNORE_FILE_NAME]) canonical_paths then rescan X s fs
      else case load_ignore_patterns fs (fo_root s) of
        Inl e \<Rightarrow> (Inl e, s, fs)
      | Inr pats \<Rightarrow>
          (case try_for (apply_event X fs pats) canonical_paths (s, []) of
             (Inl e, s1, _) \<Rightarrow> (Inl e, s1, fs)
           | (Inr _, s1, changes) \<Rightarrow>
               let (cache, fs1) = cache_save X fs (state_dir_of (fo_root s1)) (fo_scan_cache s1);
                   s2 = s1\<lparr>fo_scan_cache := cache\<rparr>
               in if changes \<noteq> [] then
                    let s3 = update_trees X (map c_path changes) s2
                    in (Inr changes, s3, save_entries X s3 (save_lamport s3 fs1))
                  else (Inr changes, s2, fs1)))"

section \<open>Start-up\<close>

definition load_saved_lamport :: "fs \<Rightarrow> abspath \<Rightarrow> u64" where
  "load_saved_lamport fs state_dir =
     (case read_file fs (state_dir @ [''lamport'']) of
        Inl _ \<Rightarrow> 0
      | Inr b \<Rightarrow> if length b = 8 then u64_from_le_bytes b else 0)"

definition load_gc_watermark :: "lib \<Rightarrow> fs \<Rightarrow> abspath \<Rightarrow> gc_watermark" where
  "load_gc_watermark X fs state_dir =
     (case read_file fs (state_dir @ [''gc-watermark.bin'']) of
        Inl _ \<Rightarrow> fmempty
      | Inr b \<Rightarrow> (case de_watermark X b of None \<Rightarrow> fmempty | Some wm \<Rightarrow> wm))"

definition load_saved_entries :: "lib \<Rightarrow> fs \<Rightarrow> abspath \<Rightarrow> index io_result" where
  "load_saved_entries X fs state_dir =
     (case read_file fs (state_dir @ [''entries.bin'']) of
        Inl e \<Rightarrow> if e = NotFound then Inr fmempty else Inl e
      | Inr b \<Rightarrow> (case de_entries X b of
                    Some es \<Rightarrow> Inr es
                  | None \<Rightarrow> (case de_legacy X b of
                               Some ls \<Rightarrow> Inr (fmmap into_entry ls)
                             | None \<Rightarrow> Inl Other)))"

definition cleanup_recv_files :: "abspath \<Rightarrow> fs \<Rightarrow> fs" where
  "cleanup_recv_files state_dir fs =
     (case read_dir fs state_dir of
        Inl _ \<Rightarrow> fs
      | Inr children \<Rightarrow>
          fold (\<lambda>p fs. if starts_with (last p) ''recv-'' then snd (remove_path_if_exists fs p) else fs)
            children fs)"

definition max_entry_lamport :: "index \<Rightarrow> u64" where
  "max_entry_lamport es = fold (\<lambda>e m. max m (v_lamport (e_version e))) (fm_values es) 0"

definition loaded_state :: "lib \<Rightarrow> abspath \<Rightarrow> string \<Rightarrow> index \<Rightarrow> fs \<Rightarrow> folder_state" where
  "loaded_state X root origin saved_entries fs =
     (let sd = state_dir_of root;
          wm = load_gc_watermark X fs sd;
          own = (case fmlookup wm origin of None \<Rightarrow> 0 | Some l \<Rightarrow> l)
      in \<lparr>fo_root = root, fo_origin = origin,
          fo_lamport = max (max (load_saved_lamport fs sd) (max_entry_lamport saved_entries)) own,
          fo_gc_watermark = wm, fo_entries = saved_entries,
          fo_tree = empty_tree (blake3 X), fo_live_tree = empty_tree (blake3 X),
          fo_scan_cache = cache_load X fs sd\<rparr>)"

definition start_scan :: "lib \<Rightarrow> folder_state \<Rightarrow> fs \<Rightarrow> folder_state io_result \<times> fs" where
  "start_scan X s0 fs2 =
     (let (pruned, s1) = prune_tombstones_covered_by_watermark X s0;
          fs3 = (if 0 < pruned then save_entries X s1 fs2 else fs2)
      in case rescan X s1 fs3 of
           (Inl e, _, fs4) \<Rightarrow> (Inl e, fs4)
         | (Inr changes, s2, fs4) \<Rightarrow>
             let fs5 = (if changes \<noteq> [] then save_entries X s2 fs4 else fs4)
             in (Inr s2, save_lamport s2 fs5))"

definition folder_state_new ::
    "lib \<Rightarrow> abspath \<Rightarrow> string \<Rightarrow> fs \<Rightarrow> folder_state io_result \<times> fs" where
  "folder_state_new X root0 origin fs =
     (case canonicalize fs root0 of
        Inl e \<Rightarrow> (Inl e, fs)
      | Inr root \<Rightarrow>
          (case create_dir_all fs (state_dir_of root) of
             (Inl e, fs1) \<Rightarrow> (Inl e, fs1)
           | (Inr _, fs1) \<Rightarrow>
               let fs2 = cleanup_recv_files (state_dir_of root) fs1 in
               (case load_saved_entries X fs2 (state_dir_of root) of
                  Inl e \<Rightarrow> (Inl e, fs2)
                | Inr saved_entries \<Rightarrow>
                    start_scan X (loaded_state X root origin saved_entries fs2) fs2)))"

end
