(* ===== verification/Lil_FsFacts.thy ===== *)
theory Lil_FsFacts
  imports Lil_Apply
begin

text \<open>
  The file system operations on paths whose directories are real (not reached through links):
  there, resolution is the identity and each operation changes exactly the node it names. The
  saving and installing operations of the program are then described by their effect on nodes.
\<close>

section \<open>Real directories\<close>

definition real_dir :: "fs \<Rightarrow> abspath \<Rightarrow> bool" where
  "real_dir fs q \<longleftrightarrow> list_all (\<lambda>i. is_dir_node (node_at fs (take i q))) [0..<Suc (length q)]"

definition is_link :: "fs_node option \<Rightarrow> bool" where
  "is_link nd \<longleftrightarrow> (case nd of Some (FsLink t) \<Rightarrow> True | _ \<Rightarrow> False)"

lemma is_dir_node_iff: "is_dir_node nd \<longleftrightarrow> (\<exists>m. nd = Some (FsDir m))"
  by (cases nd rule: is_dir_node.cases) auto

lemma real_dirD: "real_dir fs q \<Longrightarrow> is_dir_node (node_at fs q)"
  by (simp add: real_dir_def)

lemma real_dir_take: "real_dir fs q \<Longrightarrow> is_dir_node (node_at fs (take i q))"
  by (cases "i \<le> length q") (auto simp: real_dir_def list_all_iff)

lemma real_dir_snoc: "real_dir fs (q @ [x]) \<longleftrightarrow> real_dir fs q \<and> is_dir_node (node_at fs (q @ [x]))"
  by (auto simp: real_dir_def list_all_iff)

lemma real_dir_prefix: "real_dir fs (q @ r) \<Longrightarrow> real_dir fs q"
  by (induction r rule: rev_induct) (auto simp: real_dir_snoc simp flip: append_assoc)

lemma walk_dirs:
  assumes "\<And>i. i < length ps \<Longrightarrow> is_dir_node (node_at fs (cur @ take (Suc i) ps))"
  shows "walk n fs cur (map Normal ps @ cs) = walk n fs (cur @ ps) cs"
  using assms
proof (induction ps arbitrary: cur)
  case (Cons p ps)
  have "is_dir_node (node_at fs (cur @ [p]))" using Cons.prems [of 0] by simp
  then obtain m where "node_at fs (cur @ [p]) = Some (FsDir m)" by (auto simp: is_dir_node_iff)
  moreover have "is_dir_node (node_at fs ((cur @ [p]) @ take (Suc i) ps))" if "i < length ps" for i
    using Cons.prems [of "Suc i"] that by simp
  ultimately show ?case using Cons.IH [of "cur @ [p]"] by simp
qed simp

lemma follow_real:
  assumes "real_dir fs d"
  shows "follow fs d = Inr d"
    and "\<not> is_link (node_at fs (d @ [n])) \<Longrightarrow> follow fs (d @ [n]) = Inr (d @ [n])"
proof -
  have w: "walk MAX_LINKS fs [] (map Normal d @ cs) = walk MAX_LINKS fs d cs" for cs
    using walk_dirs [of d fs "[]"] real_dir_take [OF assms] by simp
  from w [of "[]"] show "follow fs d = Inr d" by (simp add: follow_def)
  assume l: "\<not> is_link (node_at fs (d @ [n]))"
  have "walk MAX_LINKS fs d [Normal n] = Inr (d @ [n])"
    using l real_dirD [OF assms] by (auto simp: is_link_def split: option.splits fs_node.splits)
  with w [of "[Normal n]"] show "follow fs (d @ [n]) = Inr (d @ [n])" by (simp add: follow_def)
qed

lemma nofollow_real: "real_dir fs d \<Longrightarrow> nofollow fs (d @ [n]) = Inr (d @ [n])"
  using real_dirD [of fs d] by (auto simp: nofollow_def follow_real is_dir_node_iff)

definition no_fault :: "fs \<Rightarrow> abspath \<Rightarrow> bool" where
  "no_fault fs q \<longleftrightarrow> fmlookup (fs_faults fs) q = None"

lemma lstat_real:
  "real_dir fs d \<Longrightarrow> no_fault fs (d @ [n]) \<Longrightarrow>
     lstat_node fs (d @ [n]) =
       (case node_at fs (d @ [n]) of None \<Rightarrow> Inl NotFound | Some nd \<Rightarrow> Inr (d @ [n], nd))"
  by (simp add: lstat_node_def and_then_def nofollow_real at_node_def fault_def no_fault_def)

lemma stat_real:
  "real_dir fs d \<Longrightarrow> no_fault fs (d @ [n]) \<Longrightarrow> \<not> is_link (node_at fs (d @ [n])) \<Longrightarrow>
     stat_node fs (d @ [n]) =
       (case node_at fs (d @ [n]) of None \<Rightarrow> Inl NotFound | Some nd \<Rightarrow> Inr (d @ [n], nd))"
  by (simp add: stat_node_def and_then_def follow_real at_node_def fault_def no_fault_def)

lemmas real_simps = lstat_real stat_real nofollow_real follow_real and_then_def with_fs_def fault_def
  no_fault_def

section \<open>Effects on nodes\<close>

lemma node_at_put [simp]:
  "q \<noteq> [] \<Longrightarrow> node_at (put_node q nd fs) p = (if p = q then Some nd else node_at fs p)"
  by (auto simp: node_at_def put_node_def)

lemma node_at_drop [simp]:
  "q \<noteq> [] \<Longrightarrow> node_at (drop_node q fs) p = (if p = q then None else node_at fs p)"
  by (auto simp: node_at_def drop_node_def)

lemma no_fault_put [simp]:
  "no_fault (put_node q nd fs) = no_fault fs" "no_fault (drop_node q fs) = no_fault fs"
  by (auto simp: no_fault_def put_node_def drop_node_def)

lemma fs_now_put [simp]: "fs_now (put_node q nd fs) = fs_now fs" "fs_now (drop_node q fs) = fs_now fs"
  by (simp_all add: put_node_def drop_node_def)

lemma real_dir_frame:
  assumes "real_dir fs d" and "\<And>q. is_dir_node (node_at fs q) \<Longrightarrow> is_dir_node (node_at fs' q)"
  shows "real_dir fs' d"
  using assms by (auto simp: real_dir_def list_all_iff)

lemma real_dir_put:
  "real_dir fs d \<Longrightarrow> q \<noteq> [] \<Longrightarrow> \<not> is_dir_node (node_at fs q) \<Longrightarrow> real_dir (put_node q nd fs) d"
  by (rule real_dir_frame) auto

lemma real_dir_drop:
  "real_dir fs d \<Longrightarrow> q \<noteq> [] \<Longrightarrow> \<not> is_dir_node (node_at fs q) \<Longrightarrow> real_dir (drop_node q fs) d"
  by (rule real_dir_frame) auto

lemma file_not_link [simp]: "\<not> is_link (Some (FsFile c m t))" "\<not> is_link None" "\<not> is_link (Some (FsDir m))"
  by (simp_all add: is_link_def)

lemma read_file_real:
  "real_dir fs d \<Longrightarrow> no_fault fs (d @ [n]) \<Longrightarrow> node_at fs (d @ [n]) = Some (FsFile c m t) \<Longrightarrow>
     read_file fs (d @ [n]) = Inr c"
  by (simp add: read_file_def real_simps)

lemma symlink_metadata_real:
  "real_dir fs d \<Longrightarrow> no_fault fs (d @ [n]) \<Longrightarrow>
     symlink_metadata fs (d @ [n]) =
       (case node_at fs (d @ [n]) of None \<Rightarrow> Inl NotFound | Some nd \<Rightarrow> Inr (metadata_of nd))"
  by (simp add: symlink_metadata_def and_then_def lstat_real split: option.splits)

lemma hash_file_real:
  "real_dir fs d \<Longrightarrow> no_fault fs (d @ [n]) \<Longrightarrow> node_at fs (d @ [n]) = Some (FsFile c m t) \<Longrightarrow>
     hash_file X fs (d @ [n]) = Inr (blake3 X c)"
  by (simp add: hash_file_def read_file_real and_then_def)

lemma write_file_real:
  assumes "real_dir fs d" "no_fault fs (d @ [n])"
    and "node_at fs (d @ [n]) = None \<or> (\<exists>c m t. node_at fs (d @ [n]) = Some (FsFile c m t))"
  obtains m where "write_file fs (d @ [n]) c = (Inr (), put_node (d @ [n]) (FsFile c m (fs_now fs)) fs)"
  using assms by (auto simp: write_file_def real_simps)

lemma rename_real:
  assumes "real_dir fs a" "real_dir fs b" "no_fault fs (a @ [x])" "no_fault fs (b @ [y])"
    and "node_at fs (a @ [x]) = Some nd" "\<not> is_dir_node (Some nd)" "\<not> is_dir_node (node_at fs (b @ [y]))"
  shows "rename fs (a @ [x]) (b @ [y]) = (Inr (), put_node (b @ [y]) nd (drop_node (a @ [x]) fs))"
  using assms by (simp add: rename_def real_simps)

lemma remove_path_real:
  assumes "real_dir fs d" "no_fault fs (d @ [n])" "\<not> is_dir_node (node_at fs (d @ [n]))"
  shows "remove_path_if_exists fs (d @ [n]) =
    (Inr (), if node_at fs (d @ [n]) = None then fs else drop_node (d @ [n]) fs)"
  using assms
  by (cases "node_at fs (d @ [n])")
     (auto simp: remove_path_if_exists_def symlink_metadata_real remove_file_def real_simps
       split: fs_node.splits)

lemma set_permissions_real:
  assumes "real_dir fs d" "no_fault fs (d @ [n])" "node_at fs (d @ [n]) = Some (FsFile c old t)"
  shows "set_permissions fs (d @ [n]) m = (Inr (), put_node (d @ [n]) (FsFile c (chmod_bits old m) t) fs)"
  using assms by (simp add: set_permissions_def real_simps)

lemma create_dir_all_real:
  assumes "real_dir fs d" and "d \<noteq> [] \<Longrightarrow> no_fault fs d"
  shows "create_dir_all fs d = (Inr (), fs)"
proof (cases d rule: rev_cases)
  case Nil
  then show ?thesis by (simp add: create_dir_all.simps)
next
  case (snoc e n)
  then have e: "real_dir fs e" and n: "is_dir_node (node_at fs (e @ [n]))"
    using assms(1) by (auto simp: real_dir_snoc)
  from n obtain m where m: "node_at fs (e @ [n]) = Some (FsDir m)" by (auto simp: is_dir_node_iff)
  have nf: "no_fault fs (e @ [n])" using assms(2) snoc by simp
  have "create_dir fs (e @ [n]) = (Inl Other, fs)"
    using e nf m by (simp add: create_dir_def free_slot_def real_simps)
  moreover have "is_dir fs (e @ [n])"
    using e nf m by (simp add: is_dir_def stat_real)
  ultimately show ?thesis by (simp add: snoc create_dir_all.simps [of fs "e @ [n]"])
qed

section \<open>Atomic writes\<close>

text \<open>What \<open>write_atomic\<close> needs of the file it writes in the directory \<open>d\<close>, and what it does.\<close>

definition plain :: "fs_node option \<Rightarrow> bool" where
  "plain nd \<longleftrightarrow> (case nd of None \<Rightarrow> True | Some (FsFile _ _ _) \<Rightarrow> True | _ \<Rightarrow> False)"

lemma plainE: "plain nd \<Longrightarrow> (nd = None \<Longrightarrow> P) \<Longrightarrow> (\<And>c m t. nd = Some (FsFile c m t) \<Longrightarrow> P) \<Longrightarrow> P"
  by (auto simp: plain_def split: option.splits fs_node.splits)

lemma plain_simps [simp]: "plain None" "plain (Some (FsFile c m t))"
  "plain nd \<Longrightarrow> \<not> is_dir_node nd" "plain nd \<Longrightarrow> \<not> is_link nd"
  by (auto simp: plain_def is_dir_node_iff is_link_def split: option.splits fs_node.splits)

definition writable_slot :: "fs \<Rightarrow> abspath \<Rightarrow> string \<Rightarrow> bool" where
  "writable_slot fs d n \<longleftrightarrow>
     real_dir fs d \<and> no_fault fs (d @ [n]) \<and> no_fault fs (d @ [with_extension_tmp n]) \<and>
     n \<noteq> with_extension_tmp n \<and> plain (node_at fs (d @ [n])) \<and>
     plain (node_at fs (d @ [with_extension_tmp n]))"

definition wrote :: "fs \<Rightarrow> abspath \<Rightarrow> string \<Rightarrow> bytes \<Rightarrow> fs \<Rightarrow> bool" where
  "wrote fs d n c fs' \<longleftrightarrow>
     (\<exists>m. node_at fs' (d @ [n]) = Some (FsFile c m (fs_now fs))) \<and>
     node_at fs' (d @ [with_extension_tmp n]) = None \<and>
     (\<forall>q. q \<noteq> d @ [n] \<longrightarrow> q \<noteq> d @ [with_extension_tmp n] \<longrightarrow> node_at fs' q = node_at fs q) \<and>
     no_fault fs' = no_fault fs \<and> (\<forall>e. real_dir fs e \<longrightarrow> real_dir fs' e)"

lemma write_atomic_wrote:
  assumes "writable_slot fs d n"
  shows "\<exists>fs'. write_atomic fs (d @ [n]) c = (Inr (), fs') \<and> wrote fs d n c fs'"
proof -
  let ?t = "with_extension_tmp n"
  have d: "real_dir fs d" "no_fault fs (d @ [n])" "no_fault fs (d @ [?t])" "n \<noteq> ?t"
    "plain (node_at fs (d @ [n]))" "plain (node_at fs (d @ [?t]))"
    using assms by (simp_all add: writable_slot_def)
  have "node_at fs (d @ [?t]) = None \<or> (\<exists>c m t. node_at fs (d @ [?t]) = Some (FsFile c m t))"
    using d(6) by (auto elim: plainE)
  then obtain m where w: "write_file fs (d @ [?t]) c = (Inr (), put_node (d @ [?t]) (FsFile c m (fs_now fs)) fs)"
    by (rule write_file_real [OF d(1,3)])
  let ?fs1 = "put_node (d @ [?t]) (FsFile c m (fs_now fs)) fs"
  let ?fs2 = "put_node (d @ [n]) (FsFile c m (fs_now fs)) (drop_node (d @ [?t]) ?fs1)"
  have r1: "real_dir ?fs1 e" if "real_dir fs e" for e
    using that d(6) by (simp add: real_dir_put)
  have "rename ?fs1 (d @ [?t]) (d @ [n]) = (Inr (), ?fs2)"
    by (rule rename_real) (use r1 [OF d(1)] d in auto)
  with w have "write_atomic fs (d @ [n]) c = (Inr (), ?fs2)"
    by (simp add: write_atomic_def Let_def)
  moreover have "real_dir ?fs2 e" if "real_dir fs e" for e
    using that by (rule real_dir_frame) (use d(4-6) in auto)
  then have "wrote fs d n c ?fs2" using d(4) by (auto simp: wrote_def)
  ultimately show ?thesis by blast
qed

lemma wrote_read:
  assumes "writable_slot fs d n" "wrote fs d n c fs'"
  shows "read_file fs' (d @ [n]) = Inr c"
proof -
  obtain m where "node_at fs' (d @ [n]) = Some (FsFile c m (fs_now fs))"
    using assms(2) by (auto simp: wrote_def)
  then show ?thesis
    by (rule read_file_real [rotated 2]) (use assms in \<open>auto simp: writable_slot_def wrote_def\<close>)
qed

lemma wrote_slot:
  assumes "writable_slot fs d n" "wrote fs d n c fs'"
  shows "writable_slot fs' d n"
    and "writable_slot fs d x \<Longrightarrow> {x, with_extension_tmp x} \<inter> {n, with_extension_tmp n} = {} \<Longrightarrow>
      writable_slot fs' d x"
    and "writable_slot fs d x \<Longrightarrow> x \<noteq> n \<Longrightarrow> x \<noteq> with_extension_tmp n \<Longrightarrow>
      read_file fs' (d @ [x]) = read_file fs (d @ [x])"
  using assms by (auto simp: writable_slot_def wrote_def read_file_def stat_real and_then_def)

end
