(* ===== verification/Lil_Example.thy ===== *)
theory Lil_Example
  imports Lil_Apply
begin

text \<open>
  A small concrete folder, with its file system, used to instantiate the theorems: a file, a
  directory with a file, the state directory with a received file, and the state of a replica
  that has seen an older version of it.
\<close>

definition ex_lib :: lib where
  "ex_lib =
     \<lparr>blake3 = tail_hash, ser_entries = (\<lambda>_. Some [1]), de_entries = (\<lambda>_. Some ex_index),
      de_legacy = (\<lambda>_. None), ser_watermark = (\<lambda>_. Some [2]), de_watermark = (\<lambda>_. None),
      ser_cache = (\<lambda>_. None), de_cache = (\<lambda>_. None)\<rparr>"

definition ex_root :: abspath where
  "ex_root = [''r'']"

definition ex_fs :: fs where
  "ex_fs =
     \<lparr>fs_nodes = fmap_of_list
        [([''r''], FsDir 0x41ED), ([''r'', ''.lil''], FsDir 0x41ED),
         ([''r'', ''.lil'', ''recv-1''], FsFile [9, 9] 0x81A4 7),
         ([''r'', ''a.txt''], FsFile [1, 2, 3] 0x81A4 5),
         ([''r'', ''d''], FsDir 0x41ED), ([''r'', ''d'', ''b''], FsFile [4] 0x81A4 6)],
      fs_faults = fmempty, fs_now = 5000000000, fs_file_mode = 0x81A4, fs_dir_mode = 0x41ED\<rparr>"

definition ex_state :: folder_state where
  "ex_state =
     \<lparr>fo_root = ex_root, fo_origin = ''n'', fo_lamport = 3, fo_gc_watermark = fmempty,
      fo_entries = ex_index, fo_tree = derive_tree tail_hash ex_index,
      fo_live_tree = derive_live_tree tail_hash ex_index, fo_scan_cache = scan_cache_default\<rparr>"

definition ex_remote :: entry where
  "ex_remote =
     \<lparr>e_path = ''d/b'', e_kind = File, e_content_hash = Some (tail_hash [9, 9]),
      e_symlink_target = None, e_size = 2, e_mode = Some 0x81A4, e_version = Version 9 ''peer''\<rparr>"

lemma result_split: "\<not> isl (fst R) \<Longrightarrow> R = (Inr (projr (fst R)), fst (snd R), snd (snd R))"
  by (cases R; cases "fst R") auto

end
