(* ===== verification/Lil_Versions.thy ===== *)
theory Lil_Versions
  imports Lil_Example
begin

text \<open>
  Local changes as a state machine. Every operation that records local changes (a rescan, watcher
  events, the tombstones that follow a remote entry) is a sequence of \<open>local_step\<close>s: the clock
  advances by one and one entry is written with the new version. The facts the replication
  protocol rests on are proved once, for runs of this machine: the change log replays to the new
  index, versions are issued in order, and they exceed everything in the index.
\<close>

section \<open>The step relation\<close>

inductive local_step :: "folder_state \<times> change list \<Rightarrow> folder_state \<times> change list \<Rightarrow> bool" where
  put: "e_path e = p \<Longrightarrow> e_version e = Version (fo_lamport s + 1) (fo_origin s) \<Longrightarrow>
    local_step (s, cs)
      (s\<lparr>fo_lamport := fo_lamport s + 1, fo_entries := fmupd p e (fo_entries s)\<rparr>,
       cs @ [\<lparr>c_path = p, c_old = fmlookup (fo_entries s) p, c_new = e\<rparr>])"
| cache: "local_step (s, cs) (s\<lparr>fo_scan_cache := c\<rparr>, cs)"

inductive_cases local_stepE: "local_step (s, cs) st"

abbreviation local_run :: "folder_state \<times> change list \<Rightarrow> folder_state \<times> change list \<Rightarrow> bool" where
  "local_run \<equiv> local_step\<^sup>*\<^sup>*"

subsection \<open>The operations are runs\<close>

lemma local_run_fold:
  assumes "\<And>x st. x \<in> set xs \<Longrightarrow> local_run st (f x st)"
  shows "local_run st (fold f xs st)"
  using assms
proof (induction xs arbitrary: st)
  case (Cons x xs)
  have "local_run st (f x st)" by (rule Cons.prems) simp
  moreover have "local_run (f x st) (fold f xs (f x st))"
    by (rule Cons.IH) (rule Cons.prems, simp)
  ultimately show ?case by simp
qed simp

lemma tombstone_path_run: "local_run st (tombstone_path p st)"
proof (cases st)
  case (Pair s cs)
  show ?thesis
  proof (cases "fmlookup (fo_entries s) p")
    case (Some old)
    have "local_step (s, cs) (tombstone_path p (s, cs))" if "e_kind old \<noteq> Tombstone"
      using that Some
        local_step.put [of "tombstone_entry p old (Version (fo_lamport s + 1) (fo_origin s))" p s cs]
      by (simp add: tombstone_path_def next_version_def Let_def)
    with Some Pair show ?thesis
      by (cases "e_kind old = Tombstone") (auto simp: tombstone_path_def)
  qed (simp add: Pair tombstone_path_def)
qed

lemma tombstone_run:
  "local_run st (tombstone_descendants p st)"
  "local_run st (tombstone_child_descendants p st)"
  by (simp_all add: tombstone_descendants_def tombstone_child_descendants_def Let_def
      local_run_fold tombstone_path_run)

lemma update_entry_run:
  assumes "e_path live = p"
  shows "local_run st (update_entry p live st)"
proof (cases st)
  case (Pair s cs)
  let ?v = "Version (fo_lamport s + 1) (fo_origin s)"
  let ?st1 = "(s\<lparr>fo_lamport := fo_lamport s + 1,
        fo_entries := fmupd p (live\<lparr>e_version := ?v\<rparr>) (fo_entries s)\<rparr>,
      cs @ [\<lparr>c_path = p, c_old = fmlookup (fo_entries s) p, c_new = live\<lparr>e_version := ?v\<rparr>\<rparr>])"
  have w: "local_run (s, cs) ?st1"
    by (rule r_into_rtranclp, rule local_step.put) (simp_all add: assms)
  then have "local_run (s, cs) (tombstone_child_descendants p ?st1)"
    by (rule rtranclp_trans) (rule tombstone_run)
  with w show ?thesis
    by (auto simp: Pair update_entry_def next_version_def Let_def)
qed

lemma update_entries_run:
  assumes "wf_index live"
  shows "local_run st (fold (\<lambda>(p, e). update_entry p e) (fm_iter live) st)"
  by (rule local_run_fold)
     (use assms in \<open>auto simp: fm_simps intro: update_entry_run dest: wf_indexD\<close>)

lemma tombstone_missing_run: "local_run st (tombstone_missing seen pats p st)"
  by (simp add: tombstone_missing_def tombstone_path_run)

lemma set_cache_run: "local_run (s, cs) (s\<lparr>fo_scan_cache := c\<rparr>, cs)"
  by (rule r_into_rtranclp) (rule local_step.cache)

section \<open>What a run does\<close>

definition replay :: "change list \<Rightarrow> index \<Rightarrow> index" where
  "replay cs E = fold (\<lambda>c. fmupd (c_path c) (c_new c)) cs E"

text \<open>Version number \<open>i\<close> (from one) issued after the clock value \<open>l\<close>.\<close>

definition issued :: "folder_state \<Rightarrow> nat \<Rightarrow> version" where
  "issued s i = Version (fo_lamport s + of_nat i) (fo_origin s)"

lemma local_run_summary:
  assumes "local_run (s, cs) (s', cs')"
  obtains new where "cs' = cs @ new"
    and "fo_root s' = fo_root s" "fo_origin s' = fo_origin s"
    and "fo_gc_watermark s' = fo_gc_watermark s"
    and "fo_tree s' = fo_tree s" "fo_live_tree s' = fo_live_tree s"
    and "fo_lamport s' = fo_lamport s + of_nat (length new)"
    and "fo_entries s' = replay new (fo_entries s)"
    and "map (e_version \<circ> c_new) new = map (issued s) [1..<Suc (length new)]"
    and "\<forall>c \<in> set new. e_path (c_new c) = c_path c"
  using assms
proof (induction "(s', cs')" arbitrary: s' cs' thesis rule: rtranclp_induct)
  case base
  show ?case by (rule base.prems [of "[]"]) (simp_all add: replay_def)
next
  case (step st)
  obtain s1 cs1 where st: "st = (s1, cs1)" by (cases st)
  obtain new where new: "cs1 = cs @ new"
    "fo_root s1 = fo_root s" "fo_origin s1 = fo_origin s" "fo_gc_watermark s1 = fo_gc_watermark s"
    "fo_tree s1 = fo_tree s" "fo_live_tree s1 = fo_live_tree s"
    "fo_lamport s1 = fo_lamport s + of_nat (length new)"
    "fo_entries s1 = replay new (fo_entries s)"
    "map (e_version \<circ> c_new) new = map (issued s) [1..<Suc (length new)]"
    "\<forall>c \<in> set new. e_path (c_new c) = c_path c"
    using step.hyps(3) [OF st] by blast
  from step.hyps(2) [unfolded st] show ?case
  proof (cases rule: local_step.cases)
    case (put e p)
    show ?thesis
      by (rule step.prems [of "new @ [\<lparr>c_path = p, c_old = fmlookup (fo_entries s1) p, c_new = e\<rparr>]"])
         (use put new in \<open>simp_all add: replay_def issued_def add.assoc\<close>)
  next
    case (cache c)
    show ?thesis
      by (rule step.prems [of new]) (use cache new in simp_all)
  qed
qed

subsection \<open>The clock bounds the index\<close>

definition clock_bounds :: "folder_state \<Rightarrow> bool" where
  "clock_bounds s \<longleftrightarrow> fmpred (\<lambda>_ e. v_lamport (e_version e) \<le> fo_lamport s) (fo_entries s)"

definition clock_room :: "folder_state \<Rightarrow> nat \<Rightarrow> bool" where
  "clock_room s n \<longleftrightarrow> word_room (fo_lamport s) n"

lemma clock_boundsD:
  "clock_bounds s \<Longrightarrow> fmlookup (fo_entries s) k = Some e \<Longrightarrow> v_lamport (e_version e) \<le> fo_lamport s"
  by (auto simp: clock_bounds_def)

lemma clock_advance:
  assumes "clock_room s n" "i \<le> n"
  shows "unat (fo_lamport s + of_nat i) = unat (fo_lamport s) + i"
  using assms by (simp add: clock_room_def word_room_nat unat_word_ariths unat_of_nat take_bit_nat_eq_self)

lemma issued_increasing:
  assumes "clock_room s n" "i < j" "j \<le> n"
  shows "issued s i < issued s j"
proof -
  have "fo_lamport s + of_nat i < fo_lamport s + of_nat j"
    unfolding word_less_nat_alt
    using clock_advance [OF assms(1), of i] clock_advance [OF assms(1), of j] assms(2,3) by simp
  then show ?thesis by (simp add: issued_def version_less_lamport)
qed

lemma replay_lookup:
  "fmlookup (replay cs E) p =
     (case map_of (rev (map (\<lambda>c. (c_path c, c_new c)) cs)) p of
        Some e \<Rightarrow> Some e | None \<Rightarrow> fmlookup E p)"
proof -
  have "replay cs E = fold (\<lambda>(k, v) m. fmupd k v m) (map (\<lambda>c. (c_path c, c_new c)) cs) E"
    by (simp add: replay_def fold_map comp_def)
  then show ?thesis by (simp add: fmlookup_fold_fmupd)
qed

lemma replay_cases:
  assumes "fmlookup (replay cs E) p = Some e"
  obtains "fmlookup E p = Some e" "p \<notin> c_path ` set cs"
    | c where "c \<in> set cs" "c_path c = p" "c_new c = e"
proof (cases "map_of (rev (map (\<lambda>c. (c_path c, c_new c)) cs)) p")
  case None
  then have "p \<notin> c_path ` set cs"
    by (simp add: map_of_eq_None_iff image_image)
  with None assms that(1) show ?thesis by (simp add: replay_lookup)
next
  case (Some e')
  then have "(p, e') \<in> set (map (\<lambda>c. (c_path c, c_new c)) cs)"
    by (metis map_of_SomeD set_rev)
  with Some assms that(2) show ?thesis by (auto simp: replay_lookup)
qed

lemma replay_frame: "p \<notin> c_path ` set cs \<Longrightarrow> fmlookup (replay cs E) p = fmlookup E p"
  by (auto simp: replay_lookup split: option.splits dest!: map_of_SomeD)

lemma replay_append: "replay (as @ bs) E = replay bs (replay as E)"
  by (simp add: replay_def)

lemma replay_wf:
  assumes "wf_index E" "\<forall>c \<in> set cs. e_path (c_new c) = c_path c"
  shows "wf_index (replay cs E)"
  unfolding wf_index_def
proof (rule fmpredI)
  fix k e
  assume "fmlookup (replay cs E) k = Some e"
  then show "e_path e = k"
    by (rule replay_cases) (use assms in \<open>auto dest: wf_indexD\<close>)
qed

lemma issued_in_run:
  assumes "map (e_version \<circ> c_new) new = map (issued s) [1..<Suc (length new)]" "c \<in> set new"
  obtains i where "1 \<le> i" "i \<le> length new" "e_version (c_new c) = issued s i"
proof -
  have "e_version (c_new c) \<in> set (map (issued s) [1..<Suc (length new)])"
    using assms by (metis comp_apply image_eqI list.set_map)
  with that show ?thesis by auto
qed

text \<open>Issued versions are newer than anything within the clock.\<close>

lemma issued_newer:
  assumes "clock_room s n" "1 \<le> i" "i \<le> n" "v_lamport v \<le> fo_lamport s"
  shows "v < issued s i"
proof -
  have "unat (v_lamport v) \<le> unat (fo_lamport s)"
    using assms(4) by (simp add: word_le_nat_alt)
  then have "v_lamport v < fo_lamport s + of_nat i"
    using clock_advance [OF assms(1,3)] assms(2) by (simp add: word_less_nat_alt)
  then show ?thesis by (simp add: issued_def version_less_lamport)
qed

lemma local_run_clock_bounds:
  assumes "local_run (s, cs) (s', cs')" "clock_bounds s" "clock_room s (length cs' - length cs)"
  shows "clock_bounds s'"
  unfolding clock_bounds_def
proof (rule fmpredI)
  obtain new where new: "cs' = cs @ new" "fo_lamport s' = fo_lamport s + of_nat (length new)"
    "fo_entries s' = replay new (fo_entries s)"
    "map (e_version \<circ> c_new) new = map (issued s) [1..<Suc (length new)]"
    using assms(1) by (rule local_run_summary) blast
  note room = assms(3) [unfolded new(1), simplified]
  fix p e
  assume "fmlookup (fo_entries s') p = Some e"
  then have "fmlookup (replay new (fo_entries s)) p = Some e" by (simp add: new)
  then show "v_lamport (e_version e) \<le> fo_lamport s'"
  proof (rule replay_cases)
    assume "fmlookup (fo_entries s) p = Some e"
    then have "unat (v_lamport (e_version e)) \<le> unat (fo_lamport s)"
      using assms(2) by (simp add: clock_boundsD flip: word_le_nat_alt)
    then show ?thesis
      using clock_advance [OF room order_refl] by (simp add: new(2) word_le_nat_alt)
  next
    fix c
    assume c: "c \<in> set new" "c_path c = p" "c_new c = e"
    then obtain i where i: "i \<le> length new" "e_version e = issued s i"
      using issued_in_run [OF new(4) c(1)] by metis
    then show ?thesis
      using clock_advance [OF room i(1)] clock_advance [OF room order_refl]
      by (simp add: new(2) issued_def word_le_nat_alt)
  qed
qed

end
