(* ===== verification/Lil_Replica.thy ===== *)
theory Lil_Replica
  imports Lil_Versions
begin

text \<open>
  What the operations of \<open>FolderState\<close> keep and guarantee, as a replica of the shared index: the
  index is keyed by path, the clock bounds every version, versions only grow, remote entries are
  accepted exactly when they are newer, and the trees are the trees of the index.
\<close>

section \<open>The scan produces a well-formed index\<close>

lemma try_for_inv:
  assumes "I s" and "\<And>x s r s'. x \<in> set xs \<Longrightarrow> I s \<Longrightarrow> f x s = (r, s') \<Longrightarrow> I s'"
    and "try_for f xs s = (r, s')"
  shows "I s'"
  using assms
proof (induction xs arbitrary: s)
  case (Cons x xs)
  obtain r1 s1 where f: "f x s = (r1, s1)" by (cases "f x s")
  then have "I s1" using Cons.prems(1,2) by (meson list.set_intros(1))
  with f Cons show ?case
    by (auto split: sum.splits) (meson list.set_intros(2))
qed simp

lemma fmupd_wf [intro]: "wf_index E \<Longrightarrow> e_path e = p \<Longrightarrow> wf_index (fmupd p e E)"
  by (auto simp: wf_index_def)

lemma scanned_entry_path [simp]:
  "e_path (symlink_entry p t) = p" "e_path (dir_entry p m) = p" "e_path (file_entry p obs) = p"
  by (simp_all add: symlink_entry_def dir_entry_def file_entry_def)

lemma acc_insert_wf:
  "wf_index (sa_entries a) \<Longrightarrow> e_path e = q \<Longrightarrow> wf_index (sa_entries (acc_insert q e a))"
  by (auto simp: acc_insert_def)

lemma scan_child_wf:
  assumes "\<And>p a r a'. wf_index (sa_entries a) \<Longrightarrow> descend p a = (r, a') \<Longrightarrow> wf_index (sa_entries a')"
    and "wf_index (sa_entries a)" "scan_child descend X fs root pats p a = (r, a')"
  shows "wf_index (sa_entries a')"
  using assms(2,3)
  by (auto simp: scan_child_def split: sum.splits if_splits file_type.splits option.splits prod.splits
      intro!: acc_insert_wf elim!: assms(1) [rotated])

lemma scan_dir_wf:
  "wf_index (sa_entries a) \<Longrightarrow> scan_dir n X fs root pats dir a = (r, a') \<Longrightarrow> wf_index (sa_entries a')"
proof (induction n arbitrary: dir a r a')
  case (Suc n)
  show ?case
  proof (cases "read_dir fs dir")
    case (Inl e)
    with Suc.prems show ?thesis by simp
  next
    case (Inr children)
    with Suc.prems(2) have t:
      "try_for (scan_child (scan_dir n X fs root pats) X fs root pats) (sort children) a = (r, a')"
      by simp
    show ?thesis
      by (rule try_for_inv [where I = "\<lambda>a. wf_index (sa_entries a)", OF Suc.prems(1) _ t])
         (rule scan_child_wf [OF Suc.IH])
  qed
qed simp

lemma wf_index_empty [simp]: "wf_index fmempty"
  by (simp add: wf_index_def)

lemma scan_folder_wf: "scan_folder X fs root c = (r, a) \<Longrightarrow> wf_index (sa_entries a)"
  by (auto simp: scan_folder_def Let_def split: sum.splits elim!: scan_dir_wf [rotated])

section \<open>Local operations are runs\<close>

lemma rescan_run:
  assumes "rescan X s fs = (Inr changes, s', fs')"
  obtains s1 where "local_run (s, []) (s1, changes)" "s' = rebuild_trees X s1"
proof -
  obtain pats a where pats: "load_ignore_patterns fs (fo_root s) = Inr pats"
    and a: "scan_folder X fs (fo_root s) (fo_scan_cache s) = (Inr (), a)"
    using assms by (auto simp: rescan_def split: sum.splits prod.splits)
  let ?s0 = "s\<lparr>fo_scan_cache := sa_cache a\<rparr>"
  obtain s1 ch1 where u: "fold (\<lambda>(p, live). update_entry p live) (fm_iter (sa_entries a)) (?s0, []) = (s1, ch1)"
    by fastforce
  obtain c fs1 where c: "cache_save X fs (state_dir_of (fo_root s1))
      (retain_paths (sa_unstable a |\<union>| fmdom (sa_entries a)) (fo_scan_cache s1)) = (c, fs1)" by fastforce
  obtain s3 ch3 where t: "fold (tombstone_missing (sa_unstable a |\<union>| fmdom (sa_entries a)) pats)
      (fm_keys (fo_entries s1)) (s1\<lparr>fo_scan_cache := c\<rparr>, ch1) = (s3, ch3)" by fastforce
  have res: "changes = ch3" "s' = rebuild_trees X s3"
    using assms by (simp_all add: rescan_def pats a u c t Let_def)
  have "local_run (s, []) (?s0, [])" by (rule set_cache_run)
  also have "local_run (?s0, []) (s1, ch1)"
    using update_entries_run [OF scan_folder_wf [OF a], of "(?s0, [])"] unfolding u .
  also have "local_run (s1, ch1) (s1\<lparr>fo_scan_cache := c\<rparr>, ch1)" by (rule set_cache_run)
  also have "local_run (s1\<lparr>fo_scan_cache := c\<rparr>, ch1) (s3, ch3)"
    using local_run_fold [OF tombstone_missing_run, where st = "(s1\<lparr>fo_scan_cache := c\<rparr>, ch1)"]
    unfolding t [symmetric] .
  finally show thesis using that res by simp
qed

lemma apply_one_path_run:
  assumes "apply_one_path X fs p relative pats st = (r, st')"
  shows "local_run st st'"
proof -
  obtain s cs where st: "st = (s, cs)" by (cases st)
  have upd: "local_run st0 (update_entry relative e st0)" if "e_path e = relative" for st0 e
    using that by (rule update_entry_run)
  have cache: "local_run st0 ((fst st0)\<lparr>fo_scan_cache := c\<rparr>, snd st0)" for st0 c
    using set_cache_run [of "fst st0" "snd st0"] by simp
  have dir: "local_run st0 (fold (\<lambda>(p, live). update_entry p live) (fm_iter (sa_entries a))
      ((fst st0)\<lparr>fo_scan_cache := sa_cache a\<rparr>, snd st0))"
    if "scan_dir n X fs root pats p \<lparr>sa_entries = fmempty, sa_unstable = {||}, sa_cache = c\<rparr> = (r, a)"
    for st0 n root c r a
    by (rule rtranclp_trans [OF cache update_entries_run]) (use that scan_dir_wf in force)
  have tr: "local_run st0 st3" if "local_run st0 st2" "local_run st2 st3" for st0 st2 st3
    using that by (rule rtranclp_trans)
  show ?thesis
    using assms
    by (auto simp: apply_one_path_def Let_def tombstone_run upd cache
        intro: tr [OF cache upd] tr [OF upd cache] tr [OF upd dir]
        split: if_splits sum.splits file_type.splits option.splits prod.splits)
qed

lemma apply_event_run:
  "apply_event X fs pats p st = (r, st') \<Longrightarrow> local_run st st'"
  by (auto simp: apply_event_def apply_one_path_run split: sum.splits if_splits)

lemma apply_events_run:
  "try_for (apply_event X fs pats) ps st = (r, st') \<Longrightarrow> local_run st st'"
  by (rule try_for_inv [where I = "local_run st" and xs = ps])
     (auto dest: apply_event_run intro: rtranclp_trans)

section \<open>Local changes\<close>

text \<open>What a run of local changes guarantees to the peers that receive it.\<close>

definition fresh_changes :: "folder_state \<Rightarrow> change list \<Rightarrow> bool" where
  "fresh_changes s changes \<longleftrightarrow>
     list_all (\<lambda>c. v_origin (e_version (c_new c)) = fo_origin s \<and>
                   fo_lamport s < v_lamport (e_version (c_new c)) \<and>
                   list_all (\<lambda>e. e_version e < e_version (c_new c)) (fm_values (fo_entries s)))
       changes \<and>
     sorted_wrt (\<lambda>c d. e_version (c_new c) < e_version (c_new d)) changes"

lemma local_run_fresh:
  assumes run: "local_run (s, []) (s', changes)" and bounds: "clock_bounds s"
    and room: "clock_room s (length changes)"
  shows "fresh_changes s changes" "fo_entries s' = replay changes (fo_entries s)"
    "clock_bounds s'" "fo_lamport s \<le> fo_lamport s'"
proof -
  obtain new where new: "changes = new" "fo_lamport s' = fo_lamport s + of_nat (length new)"
    "fo_entries s' = replay new (fo_entries s)"
    "map (e_version \<circ> c_new) new = map (issued s) [1..<Suc (length new)]"
    using run by (rule local_run_summary) simp
  show "fo_entries s' = replay changes (fo_entries s)" by (simp add: new)
  show "clock_bounds s'" using local_run_clock_bounds [OF run bounds] room by simp
  show "fo_lamport s \<le> fo_lamport s'"
    using clock_advance [OF room order_refl] by (simp add: new word_le_nat_alt)
  have ver: "e_version (c_new (changes ! i)) = issued s (Suc i)" if "i < length changes" for i
    using arg_cong [OF new(4), of "\<lambda>l. l ! i"] that new(1) by (simp del: upt_Suc)
  have "sorted_wrt (\<lambda>c d. e_version (c_new c) < e_version (c_new d)) changes"
    using ver issued_increasing [OF room] by (auto simp: sorted_wrt_iff_nth_less)
  moreover have "v_origin (e_version (c_new c)) = fo_origin s \<and>
      fo_lamport s < v_lamport (e_version (c_new c)) \<and>
      list_all (\<lambda>e. e_version e < e_version (c_new c)) (fm_values (fo_entries s))"
    if "c \<in> set changes" for c
  proof -
    from that new(1) obtain i where i: "1 \<le> i" "i \<le> length changes" "e_version (c_new c) = issued s i"
      using issued_in_run [OF new(4), of c] by blast
    have "e_version e < issued s i" if "fmlookup (fo_entries s) k = Some e" for k e
      using issued_newer [OF room i(1,2)] clock_boundsD [OF bounds that] by blast
    with i clock_advance [OF room i(2)] show ?thesis
      by (simp add: list_all_iff ball_fm_values issued_def word_less_nat_alt)
  qed
  ultimately show "fresh_changes s changes"
    by (simp add: fresh_changes_def list_all_iff)
qed

lemma rebuild_trees_simps [simp]:
  "fo_entries (rebuild_trees X s) = fo_entries s" "fo_lamport (rebuild_trees X s) = fo_lamport s"
  "fo_root (rebuild_trees X s) = fo_root s" "fo_origin (rebuild_trees X s) = fo_origin s"
  "fo_gc_watermark (rebuild_trees X s) = fo_gc_watermark s"
  by (simp_all add: rebuild_trees_def)

lemma update_trees_simps [simp]:
  "fo_entries (update_trees X ps s) = fo_entries s" "fo_lamport (update_trees X ps s) = fo_lamport s"
  "fo_root (update_trees X ps s) = fo_root s" "fo_origin (update_trees X ps s) = fo_origin s"
  "fo_gc_watermark (update_trees X ps s) = fo_gc_watermark s"
  by (simp_all add: update_trees_def)

lemma clock_bounds_cong:
  "fo_entries s = fo_entries t \<Longrightarrow> fo_lamport s = fo_lamport t \<Longrightarrow> clock_bounds s = clock_bounds t"
  by (simp add: clock_bounds_def)

text \<open>
  C4. A rescan records each change it reports, and nothing else, in the index; every version it
  issues carries this node's origin and is newer than the clock and than every version that was in
  the index, so each peer that holds the old entry accepts the new one; versions increase in the
  order of the report, the clock still bounds the index, and both trees are those of the new
  index. The only assumption on the clock is that it does not run out of 64 bits.
\<close>

theorem rescan_issues_newer_versions:
  assumes "rescan X s fs = (Inr changes, s', fs')" "clock_bounds s" "clock_room s (length changes)"
  shows "fresh_changes s changes \<and> fo_entries s' = replay changes (fo_entries s) \<and>
    clock_bounds s' \<and> fo_lamport s \<le> fo_lamport s' \<and>
    fo_tree s' = derive_tree (blake3 X) (fo_entries s') \<and>
    fo_live_tree s' = derive_live_tree (blake3 X) (fo_entries s')"
proof -
  obtain s1 where run: "local_run (s, []) (s1, changes)" and s': "s' = rebuild_trees X s1"
    using assms(1) by (rule rescan_run)
  note fresh = local_run_fresh [OF run assms(2,3)]
  have "clock_bounds s'" using fresh(3) clock_bounds_cong [of s' s1] by (simp add: s')
  with fresh show ?thesis by (simp add: s') (simp add: rebuild_trees_def)
qed

theorem rescan_issues_newer_versions_witness:
  "fresh_changes ex_state (projr (fst (rescan ex_lib ex_state ex_fs)))"
proof -
  have "let R = rescan ex_lib ex_state ex_fs in
      \<not> isl (fst R) \<and> clock_bounds ex_state \<and> clock_room ex_state (length (projr (fst R)))"
    by code_simp
  then show ?thesis
    using rescan_issues_newer_versions [OF result_split, of ex_lib ex_state ex_fs] by (simp add: Let_def)
qed

section \<open>Trees and local events\<close>

definition trees_ok :: "lib \<Rightarrow> folder_state \<Rightarrow> bool" where
  "trees_ok X s \<longleftrightarrow> fo_tree s = derive_tree (blake3 X) (fo_entries s) \<and>
     fo_live_tree s = derive_live_tree (blake3 X) (fo_entries s)"

text \<open>No directory touched by the changed paths is empty in the new index: the condition under
  which the incremental update is exact.\<close>

definition no_empty_dirs :: "lib \<Rightarrow> index \<Rightarrow> index \<Rightarrow> string list \<Rightarrow> bool" where
  "no_empty_dirs X E E' changed \<longleftrightarrow>
     dirty_dirs_occupied E' incl_all
       (dirty_paths (ts_nodes (derive_tree (blake3 X) E)) E' changed incl_all) \<and>
     dirty_dirs_occupied E' incl_live
       (dirty_paths (ts_nodes (derive_live_tree (blake3 X) E)) E' changed incl_live)"

lemma update_trees_ok:
  assumes "fo_tree t = derive_tree (blake3 X) E" "fo_live_tree t = derive_live_tree (blake3 X) E"
    and "wf_index E" "\<forall>c \<in> set changes. e_path (c_new c) = c_path c"
    and E': "fo_entries t = replay changes E"
    and "no_empty_dirs X E (fo_entries t) (map c_path changes)"
  shows "trees_ok X (update_trees X (map c_path changes) t)"
proof -
  have wf': "wf_index (replay changes E)" using assms(3,4) by (rule replay_wf)
  have frame: "fmlookup (replay changes E) k = fmlookup E k" if "k \<notin> set (map c_path changes)" for k
    using that by (simp add: replay_frame)
  note upd = update_tree_snapshot_derive [OF assms(3) wf' frame]
  have "update_tree_snapshot (blake3 X) (derive_tree (blake3 X) E) (replay changes E)
      (map c_path changes) incl_all = derive_tree (blake3 X) (replay changes E)"
    unfolding derive_tree_def
    using assms(6) by (intro upd) (simp_all add: no_empty_dirs_def E' derive_tree_def)
  moreover have "update_tree_snapshot (blake3 X) (derive_live_tree (blake3 X) E) (replay changes E)
      (map c_path changes) incl_live = derive_live_tree (blake3 X) (replay changes E)"
    unfolding derive_live_tree_def
    using assms(6) by (intro upd) (simp_all add: no_empty_dirs_def E' derive_live_tree_def)
  ultimately show ?thesis
    by (simp add: trees_ok_def update_trees_def assms(1,2) E')
qed

lemma local_run_paths:
  assumes "local_run (s, []) (s', changes)"
  shows "\<forall>c \<in> set changes. e_path (c_new c) = c_path c"
    and "fo_tree s' = fo_tree s" "fo_live_tree s' = fo_live_tree s"
  using assms by (auto elim!: local_run_summary)

lemma apply_paths_run:
  assumes "apply_paths X ps s fs = (Inr changes, s', fs')"
  obtains s1 where "local_run (s, []) (s1, changes)"
    and "s' = rebuild_trees X s1 \<or> s' = update_trees X (map c_path changes) s1 \<or> changes = [] \<and> s' = s1"
proof (cases "list_ex (\<lambda>p. p = fo_root s @ [IGNORE_FILE_NAME])
    (List.map_filter (normalize_event_path fs) ps)")
  case True
  with assms have "rescan X s fs = (Inr changes, s', fs')" by (simp add: apply_paths_def)
  then obtain s1 where "local_run (s, []) (s1, changes)" "s' = rebuild_trees X s1"
    by (rule rescan_run)
  then show ?thesis using that by blast
next
  case False
  then obtain pats s1 ch where pats: "load_ignore_patterns fs (fo_root s) = Inr pats"
    and ev: "try_for (apply_event X fs pats) (List.map_filter (normalize_event_path fs) ps) (s, []) = (Inr (), s1, ch)"
    using assms by (auto simp: apply_paths_def Let_def split: sum.splits prod.splits)
  obtain c fs1 where c: "cache_save X fs (state_dir_of (fo_root s1)) (fo_scan_cache s1) = (c, fs1)"
    by fastforce
  have run: "local_run (s, []) (s1\<lparr>fo_scan_cache := c\<rparr>, ch)"
    using apply_events_run [OF ev] set_cache_run by (rule rtranclp_trans)
  have "changes = ch" "s' = (if ch \<noteq> [] then update_trees X (map c_path ch) (s1\<lparr>fo_scan_cache := c\<rparr>)
      else s1\<lparr>fo_scan_cache := c\<rparr>)"
    using assms False pats ev c by (auto simp: apply_paths_def Let_def split: if_splits)
  with run that show ?thesis by (auto split: if_splits)
qed

text \<open>
  C25. Watcher events: on success the index is the old one with the reported changes, the
  versions are fresh in the sense of a rescan, the clock still bounds the index, and the
  incrementally updated trees are those of the new index, provided no touched directory is empty.
\<close>

theorem apply_paths_correct:
  assumes "apply_paths X ps s fs = (Inr changes, s', fs')"
    and "wf_index (fo_entries s)" "trees_ok X s" "clock_bounds s" "clock_room s (length changes)"
    and "no_empty_dirs X (fo_entries s) (fo_entries s') (map c_path changes)"
  shows "fresh_changes s changes \<and> fo_entries s' = replay changes (fo_entries s) \<and>
    wf_index (fo_entries s') \<and> clock_bounds s' \<and> trees_ok X s'"
proof -
  obtain s1 where run: "local_run (s, []) (s1, changes)"
    and s': "s' = rebuild_trees X s1 \<or> s' = update_trees X (map c_path changes) s1 \<or> changes = [] \<and> s' = s1"
    using assms(1) by (rule apply_paths_run)
  note fresh = local_run_fresh [OF run assms(4,5)]
  note paths = local_run_paths [OF run]
  have E': "fo_entries s' = replay changes (fo_entries s)" and "clock_bounds s'"
    using s' fresh clock_bounds_cong [of s' s1] by auto
  moreover have "trees_ok X s'"
    using s'
  proof (elim disjE conjE)
    assume "s' = rebuild_trees X s1"
    then show ?thesis by (simp add: trees_ok_def) (simp add: rebuild_trees_def)
  next
    assume u: "s' = update_trees X (map c_path changes) s1"
    then show ?thesis
      using update_trees_ok [of s1 X "fo_entries s" changes] assms(2,3,6) paths fresh(2)
      by (simp add: trees_ok_def)
  next
    assume "changes = []" "s' = s1"
    then show ?thesis using assms(3) paths fresh(2) by (simp add: trees_ok_def replay_def)
  qed
  ultimately show ?thesis
    using fresh(1) replay_wf [OF assms(2) paths(1)] by simp
qed

theorem apply_paths_correct_witness:
  "(let R = apply_paths ex_lib [[''r'', ''d'', ''b'']] ex_state ex_fs in
    fresh_changes ex_state (projr (fst R)) \<and> trees_ok ex_lib (fst (snd R)))"
proof -
  have "let R = apply_paths ex_lib [[''r'', ''d'', ''b'']] ex_state ex_fs in
      \<not> isl (fst R) \<and> wf_index (fo_entries ex_state) \<and> clock_bounds ex_state \<and>
      clock_room ex_state (length (projr (fst R))) \<and>
      no_empty_dirs ex_lib (fo_entries ex_state) (fo_entries (fst (snd R))) (map c_path (projr (fst R)))"
    by code_simp
  moreover have "trees_ok ex_lib ex_state" by (simp add: trees_ok_def ex_state_def ex_lib_def)
  ultimately show ?thesis
    using apply_paths_correct [OF result_split, of ex_lib "[[''r'', ''d'', ''b'']]" ex_state ex_fs]
    by (simp add: Let_def)
qed

end
