(* ===== verification/Lil_Remote.thy ===== *)
theory Lil_Remote
  imports Lil_Replica
begin

text \<open>
  Applying remote entries (\<open>apply_remote_entries\<close> of \<open>src/state.rs\<close>): which entries are accepted,
  that the index only moves forward, and that the trees follow it.
\<close>

section \<open>Live entries and the room on the clock\<close>

definition live_count :: "index \<Rightarrow> nat" where
  "live_count E = fcard (ffilter (\<lambda>k. e_kind (the (fmlookup E k)) \<noteq> Tombstone) (fmdom E))"

lemma live_count_upd_le: "live_count (fmupd p e E) \<le> Suc (live_count E)"
proof -
  have "ffilter (\<lambda>k. e_kind (the (fmlookup (fmupd p e E) k)) \<noteq> Tombstone) (fmdom (fmupd p e E)) |\<subseteq>|
      finsert p (ffilter (\<lambda>k. e_kind (the (fmlookup E k)) \<noteq> Tombstone) (fmdom E))"
    by auto
  then have "live_count (fmupd p e E) \<le>
      fcard (finsert p (ffilter (\<lambda>k. e_kind (the (fmlookup E k)) \<noteq> Tombstone) (fmdom E)))"
    unfolding live_count_def by (rule fcard_mono)
  also have "\<dots> \<le> Suc (live_count E)"
    unfolding live_count_def by (simp add: fcard_finsert_if)
  finally show ?thesis .
qed

lemma live_count_tombstone:
  assumes "fmlookup E p = Some old" "e_kind old \<noteq> Tombstone" "e_kind e = Tombstone"
  shows "Suc (live_count (fmupd p e E)) = live_count E"
proof -
  let ?L = "ffilter (\<lambda>k. e_kind (the (fmlookup E k)) \<noteq> Tombstone) (fmdom E)"
  have "ffilter (\<lambda>k. e_kind (the (fmlookup (fmupd p e E) k)) \<noteq> Tombstone) (fmdom (fmupd p e E)) =
      ?L |-| {|p|}"
    using assms by (auto split: if_splits)
  moreover have "p |\<in>| ?L" using assms by (auto intro: fmdomI)
  then have "Suc (fcard (?L |-| {|p|})) = fcard ?L" by (rule fcard_Suc_fminus1)
  ultimately show ?thesis unfolding live_count_def by metis
qed

text \<open>Each tombstone written uses up one live entry, so a run writes at most as many.\<close>

lemma tombstone_path_count:
  "tombstone_path p (s, cs) = (s', cs') \<Longrightarrow>
     length cs' + live_count (fo_entries s') = length cs + live_count (fo_entries s)"
  using live_count_tombstone [of "fo_entries s" p]
  by (fastforce simp: tombstone_path_def next_version_def Let_def split: option.splits if_splits)

lemma tombstone_fold_count:
  "fold tombstone_path ps (s, cs) = (s', cs') \<Longrightarrow>
     length cs' + live_count (fo_entries s') = length cs + live_count (fo_entries s)"
proof (induction ps arbitrary: s cs)
  case (Cons p ps)
  obtain s1 cs1 where t: "tombstone_path p (s, cs) = (s1, cs1)" by fastforce
  with Cons.prems have "fold tombstone_path ps (s1, cs1) = (s', cs')" by simp
  from Cons.IH [OF this] tombstone_path_count [OF t] show ?case by simp
qed simp

lemma tombstone_children_count:
  "tombstone_child_descendants p (s, cs) = (s', cs') \<Longrightarrow>
     length cs' + live_count (fo_entries s') = length cs + live_count (fo_entries s)"
  by (simp add: tombstone_child_descendants_def Let_def tombstone_fold_count)

definition batch_room :: "folder_state \<Rightarrow> (entry \<times> abspath option) list \<Rightarrow> bool" where
  "batch_room s batch \<longleftrightarrow>
     list_all (\<lambda>l. word_room l (live_count (fo_entries s) + length batch))
       (fo_lamport s # map (\<lambda>(e, _). v_lamport (e_version e)) batch)"

section \<open>Recording one entry\<close>

definition replica_ok :: "folder_state \<Rightarrow> bool" where
  "replica_ok s \<longleftrightarrow> wf_index (fo_entries s) \<and> clock_bounds s"

definition version_mono :: "folder_state \<Rightarrow> folder_state \<Rightarrow> bool" where
  "version_mono s s' \<longleftrightarrow>
     fmpred (\<lambda>p e. case fmlookup (fo_entries s') p of
                     None \<Rightarrow> False | Some e' \<Rightarrow> e_version e \<le> e_version e') (fo_entries s) \<and>
     fo_lamport s \<le> fo_lamport s'"

lemma version_mono_refl [simp]: "version_mono s s"
  by (auto simp: version_mono_def)

lemma version_monoD:
  "version_mono s s' \<Longrightarrow> fmlookup (fo_entries s) p = Some e \<Longrightarrow>
     \<exists>e'. fmlookup (fo_entries s') p = Some e' \<and> e_version e \<le> e_version e'"
  by (auto simp: version_mono_def split: option.splits dest!: fmpredD)

lemma version_monoI:
  "(\<And>p e. fmlookup (fo_entries s) p = Some e \<Longrightarrow>
      \<exists>e'. fmlookup (fo_entries s') p = Some e' \<and> e_version e \<le> e_version e') \<Longrightarrow>
   fo_lamport s \<le> fo_lamport s' \<Longrightarrow> version_mono s s'"
  unfolding version_mono_def by (intro conjI fmpredI) (fastforce split: option.splits)+

lemma version_mono_trans: "version_mono a b \<Longrightarrow> version_mono b c \<Longrightarrow> version_mono a c"
  by (rule version_monoI)
     (meson version_monoD order_trans, meson version_mono_def order_trans)

lemma local_run_mono:
  assumes "local_run (s, []) (s', changes)" "clock_bounds s" "clock_room s (length changes)"
  shows "version_mono s s'"
proof (rule version_monoI)
  note fresh = local_run_fresh [OF assms]
  show "fo_lamport s \<le> fo_lamport s'" by (rule fresh(4))
  fix p e
  assume e: "fmlookup (fo_entries s) p = Some e"
  show "\<exists>e'. fmlookup (fo_entries s') p = Some e' \<and> e_version e \<le> e_version e'"
  proof (cases "p \<in> c_path ` set changes")
    case False
    then show ?thesis using e fresh(2) by (simp add: replay_frame)
  next
    case True
    then obtain e' where e': "fmlookup (fo_entries s') p = Some e'"
      using e fresh(2) replay_lookup [of changes "fo_entries s" p] by (auto split: option.splits)
    moreover have "e_version e \<le> e_version e'"
      using e' [unfolded fresh(2)]
    proof (rule replay_cases)
      fix c
      assume "c \<in> set changes" "c_new c = e'"
      then show ?thesis
        using fresh(1) e by (auto simp: fresh_changes_def list_all_iff ball_fm_values less_imp_le)
    qed (use e in simp)
    ultimately show ?thesis by blast
  qed
qed

text \<open>The state between the insertion of the remote entry and the tombstones it causes.\<close>

definition insert_remote :: "entry \<Rightarrow> folder_state \<Rightarrow> folder_state" where
  "insert_remote remote s =
     s\<lparr>fo_lamport := max (fo_lamport s) (v_lamport (e_version remote)),
       fo_entries := fmupd (e_path remote) remote (fo_entries s)\<rparr>"

lemma record_remote_cases:
  assumes "record_remote remote s = (changes, s')"
  obtains extra where "local_run (insert_remote remote s, []) (s', extra)"
    and "changes = \<lparr>c_path = e_path remote, c_old = fmlookup (fo_entries s) (e_path remote), c_new = remote\<rparr> # extra"
    and "length extra + live_count (fo_entries s') = live_count (fo_entries (insert_remote remote s))"
proof (cases "e_kind remote = Dir")
  case True
  with assms that [of "[]"] show ?thesis
    by (simp add: record_remote_def Let_def insert_remote_def)
next
  case False
  obtain s2 extra where t: "tombstone_child_descendants (e_path remote) (insert_remote remote s, []) = (s2, extra)"
    by fastforce
  with False assms have "s' = s2"
    "changes = \<lparr>c_path = e_path remote, c_old = fmlookup (fo_entries s) (e_path remote), c_new = remote\<rparr> # extra"
    by (auto simp: record_remote_def Let_def insert_remote_def split: prod.splits)
  then show ?thesis
    using that [of extra] tombstone_run(2) [of "(insert_remote remote s, [])" "e_path remote"]
      tombstone_children_count [OF t] t by simp
qed

lemma insert_remote_ok:
  assumes "replica_ok s" "should_accept_remote s remote"
  shows "replica_ok (insert_remote remote s)" "version_mono s (insert_remote remote s)"
proof -
  show "replica_ok (insert_remote remote s)"
    using assms(1) unfolding replica_ok_def clock_bounds_def insert_remote_def
    by (auto simp: le_max_iff_disj dest: fmpredD)
  show "version_mono s (insert_remote remote s)"
    using assms(2)
    by (intro version_monoI)
       (auto simp: insert_remote_def should_accept_remote_def less_imp_le split: if_splits option.splits)
qed

lemma record_remote_ok:
  assumes ok: "replica_ok s" and acc: "should_accept_remote s remote"
    and room: "batch_room s ((remote, tmp) # batch)" and rec: "record_remote remote s = (changes, s')"
  shows "replica_ok s'" "version_mono s s'" "batch_room s' batch" "version_mono (insert_remote remote s) s'"
proof -
  let ?s1 = "insert_remote remote s"
  obtain extra where run: "local_run (?s1, []) (s', extra)"
    and n: "length extra + live_count (fo_entries s') = live_count (fo_entries ?s1)"
    using rec by (rule record_remote_cases)
  have le: "live_count (fo_entries ?s1) \<le> Suc (live_count (fo_entries s))"
    by (simp add: insert_remote_def live_count_upd_le)
  have "unat (fo_lamport ?s1) + Suc (live_count (fo_entries s)) < 2 ^ 64"
    using room by (simp add: batch_room_def word_room_nat insert_remote_def max_def)
  with n le have room1: "clock_room ?s1 (length extra)" by (simp add: clock_room_def word_room_nat)
  note s1 = insert_remote_ok [OF ok acc]
  have b1: "clock_bounds ?s1" using s1(1) by (simp add: replica_ok_def)
  note fresh = local_run_fresh [OF run b1 room1]
  show mono: "version_mono ?s1 s'" by (rule local_run_mono [OF run b1 room1])
  show "version_mono s s'"
    using s1(2) mono by (rule version_mono_trans)
  show "replica_ok s'"
    using fresh(2,3) replay_wf [OF _ local_run_paths(1) [OF run]] s1(1) by (simp add: replica_ok_def)
  obtain new where "[] @ extra = [] @ new" "fo_lamport s' = fo_lamport ?s1 + of_nat (length new)"
    using run by (rule local_run_summary) simp
  then have "unat (fo_lamport s') = unat (fo_lamport ?s1) + length extra"
    using clock_advance [OF room1 order_refl] by simp
  then show "batch_room s' batch"
    using room n le unfolding batch_room_def
    by (auto simp: list_all_iff insert_remote_def max_def word_room_nat)
qed

section \<open>Batches\<close>

lemma apply_core_cases:
  assumes "apply_remote_entry_core remote tmp s fs cp = (r, s', fs', cp')"
  obtains (kept) "s' = s" "cp' = cp" "(\<exists>e. r = Inl e) \<or> r = Inr []"
    | (recorded) changes where "should_accept_remote s remote" "record_remote remote s = (changes, s')"
        "r = Inr changes" "cp' = cp @ map c_path changes"
  using assms unfolding apply_remote_entry_core_def
  by (auto split: sum.splits if_splits prod.splits)

lemma apply_core_ok:
  assumes "replica_ok s" "batch_room s ((remote, tmp) # batch)"
    and "apply_remote_entry_core remote tmp s fs cp = (r, s', fs', cp')"
  shows "replica_ok s' \<and> version_mono s s' \<and> batch_room s' batch"
  using assms(3)
proof (cases rule: apply_core_cases)
  case kept
  with assms show ?thesis by (auto simp: batch_room_def list_all_iff word_room_nat)
next
  case (recorded changes)
  with record_remote_ok [OF assms(1) _ assms(2)] show ?thesis by blast
qed

lemma apply_loop_ok:
  assumes "replica_ok s" "batch_room s batch"
    and "apply_remote_loop batch all s fs cp = (r, s', fs', cp')"
  shows "replica_ok s' \<and> version_mono s s'"
  using assms
proof (induction batch arbitrary: all s fs cp)
  case (Cons x batch)
  obtain r1 s1 fs1 cp1 where core: "apply_remote_entry_core (fst x) (snd x) s fs cp = (r1, s1, fs1, cp1)"
    by (metis prod_cases4)
  have s1: "replica_ok s1" "version_mono s s1" "batch_room s1 batch"
    using apply_core_ok [OF Cons.prems(1) _ core, of batch] Cons.prems(2) by auto
  show ?case
  proof (cases r1)
    case (Inl e)
    with Cons.prems(3) core s1 show ?thesis by simp
  next
    case (Inr changes)
    with Cons.prems(3) core Cons.IH [OF s1(1,3)] show ?thesis
      using version_mono_trans [OF s1(2)] by auto
  qed
qed simp

text \<open>
  C2. Applying a batch of remote entries, whatever its outcome (success, or an error in the
  middle), keeps the index keyed by path and bounded by the clock, never lowers the clock, and
  never replaces an entry by an older version: at every path the version can only grow.
\<close>

theorem apply_remote_entries_monotone:
  assumes "replica_ok s" "batch_room s batch" "apply_remote_entries X batch s fs = (r, s', fs')"
  shows "replica_ok s' \<and> version_mono s s'"
proof -
  obtain r1 s1 fs1 cp where loop: "apply_remote_loop batch [] s fs [] = (r1, s1, fs1, cp)"
    by (metis prod_cases4)
  have "fo_entries s' = fo_entries s1" "fo_lamport s' = fo_lamport s1"
    using assms(3) loop by (auto simp: apply_remote_entries_def Let_def split: sum.splits if_splits)
  then show ?thesis
    using apply_loop_ok [OF assms(1,2) loop]
    by (simp add: replica_ok_def version_mono_def clock_bounds_def)
qed

definition ex_batch :: "(entry \<times> abspath option) list" where
  "ex_batch = [(ex_remote, Some [''r'', ''.lil'', ''recv-1''])]"

theorem apply_remote_entries_monotone_witness:
  "(let s' = fst (snd (apply_remote_entries ex_lib ex_batch ex_state ex_fs)) in
    replica_ok s' \<and> version_mono ex_state s')"
proof -
  have "replica_ok ex_state \<and> batch_room ex_state ex_batch" by code_simp
  then show ?thesis
    using apply_remote_entries_monotone [of ex_state ex_batch ex_lib ex_fs]
    by (metis (no_types, lifting) prod.collapse)
qed

section \<open>The effect of an accepted entry\<close>

lemma tombstone_path_lookup:
  "fmlookup (fo_entries (fst (tombstone_path p st))) q = fmlookup (fo_entries (fst st)) q" if "q \<noteq> p"
  using that by (auto simp: tombstone_path_def next_version_def Let_def split: prod.splits option.splits)

lemma tombstone_path_self:
  "fmlookup (fo_entries (fst st)) p = Some old \<Longrightarrow>
     \<exists>e. fmlookup (fo_entries (fst (tombstone_path p st))) p = Some e \<and> e_kind e = Tombstone"
  by (auto simp: tombstone_path_def next_version_def Let_def split: prod.splits option.splits)

lemma fold_tombstone_lookup:
  "q \<notin> set ps \<Longrightarrow> fmlookup (fo_entries (fst (fold tombstone_path ps st))) q = fmlookup (fo_entries (fst st)) q"
  by (induction ps arbitrary: st) (auto simp: tombstone_path_lookup)

lemma fold_tombstone_self:
  assumes "q \<in> set ps" "distinct ps" "fmlookup (fo_entries (fst st)) q = Some old"
  shows "\<exists>e. fmlookup (fo_entries (fst (fold tombstone_path ps st))) q = Some e \<and> e_kind e = Tombstone"
  using assms
proof (induction ps arbitrary: st)
  case (Cons p ps)
  show ?case
  proof (cases "q = p")
    case True
    with Cons.prems tombstone_path_self [of st p old] show ?thesis
      by (auto simp: fold_tombstone_lookup)
  next
    case False
    with Cons show ?thesis by (simp add: tombstone_path_lookup)
  qed
qed simp

lemma tombstone_children_lookup:
  assumes "tombstone_child_descendants p st = st'"
  shows "\<not> starts_with q (p @ ''/'') \<Longrightarrow> fmlookup (fo_entries (fst st')) q = fmlookup (fo_entries (fst st)) q"
    and "starts_with q (p @ ''/'') \<Longrightarrow> fmlookup (fo_entries (fst st)) q = Some old \<Longrightarrow>
      \<exists>e. fmlookup (fo_entries (fst st')) q = Some e \<and> e_kind e = Tombstone"
    and "starts_with q (p @ ''/'') \<Longrightarrow> fmlookup (fo_entries (fst st)) q = None \<Longrightarrow>
      fmlookup (fo_entries (fst st')) q = None"
  using assms fold_tombstone_lookup [of q "filter (\<lambda>k. starts_with k (p @ ''/'')) (fm_keys (fo_entries (fst st)))" st]
    fold_tombstone_self [of q "filter (\<lambda>k. starts_with k (p @ ''/'')) (fm_keys (fo_entries (fst st)))" st old]
  by (auto simp: tombstone_child_descendants_def Let_def fmlookup_dom'_iff)

text \<open>
  C3. Last writer wins, on every branch: a remote entry whose path is invalid is an error; one
  that is not strictly newer than the local entry (or is a tombstone under the watermark) changes
  nothing; an accepted one, once installed, is the entry at its path. When it is not a directory,
  everything that was below it becomes a tombstone; no other entry changes. An error of the
  installation leaves the index untouched.
\<close>

theorem apply_remote_entry_effect:
  assumes "apply_remote_entry_core remote tmp s fs cp = (r, s', fs', cp')"
  shows
    "if validate_remote_path (e_path remote) \<noteq> Inr () then r = Inl InvalidInput \<and> s' = s \<and> fs' = fs
     else if \<not> should_accept_remote s remote then r = Inr [] \<and> s' = s
     else case r of
       Inl e \<Rightarrow> s' = s
     | Inr _ \<Rightarrow>
         fmlookup (fo_entries s') (e_path remote) = Some remote \<and>
         (\<forall>q. q \<noteq> e_path remote \<longrightarrow>
            (if e_kind remote \<noteq> Dir \<and> starts_with q (e_path remote @ ''/'') \<and> q |\<in>| fmdom (fo_entries s)
             then (case fmlookup (fo_entries s') q of None \<Rightarrow> False | Some e \<Rightarrow> e_kind e = Tombstone)
             else fmlookup (fo_entries s') q = fmlookup (fo_entries s) q))"
proof (cases "validate_remote_path (e_path remote) = Inr () \<and> should_accept_remote s remote")
  case False
  then show ?thesis
    using assms
    by (auto simp: apply_remote_entry_core_def validate_remote_path_def split: if_splits sum.splits)
next
  case True
  then have v: "validate_remote_path (e_path remote) = Inr ()" and a: "should_accept_remote s remote"
    by simp_all
  show ?thesis
  proof (cases r)
    case (Inl e)
    with assms v a show ?thesis
      by (auto simp: apply_remote_entry_core_def split: sum.splits prod.splits)
  next
    case (Inr ch)
    let ?p = "e_path remote" and ?s1 = "insert_remote remote s"
    have rec: "record_remote remote s = (ch, s')"
      using assms v a Inr by (auto simp: apply_remote_entry_core_def split: sum.splits prod.splits)
    have self: "\<not> starts_with ?p (?p @ ''/'')" by (simp add: starts_with_def)
    have ins: "fmlookup (fo_entries ?s1) q = (if q = ?p then Some remote else fmlookup (fo_entries s) q)" for q
      by (simp add: insert_remote_def)
    show ?thesis
    proof (cases "e_kind remote = Dir")
      case True
      with rec have "s' = ?s1" by (simp add: record_remote_def Let_def insert_remote_def)
      with v a Inr True ins show ?thesis by simp
    next
      case False
      with rec have t: "s' = fst (tombstone_child_descendants ?p (?s1, []))"
        by (auto simp: record_remote_def Let_def insert_remote_def split: prod.splits)
      note look = tombstone_children_lookup [OF refl, of _ ?p "(?s1, [])"]
      have "fmlookup (fo_entries s') ?p = Some remote"
        using look(1) [OF self] ins t by simp
      moreover have "if starts_with q (?p @ ''/'') \<and> q |\<in>| fmdom (fo_entries s)
          then (case fmlookup (fo_entries s') q of None \<Rightarrow> False | Some e \<Rightarrow> e_kind e = Tombstone)
          else fmlookup (fo_entries s') q = fmlookup (fo_entries s) q" if "q \<noteq> ?p" for q
        using look(1) [of q] look(2) [of q] look(3) [of q] ins [of q] that t
        by (fastforce simp: fmlookup_dom_iff split: option.splits)
      ultimately show ?thesis using v a Inr False by simp
    qed
  qed
qed

theorem apply_remote_entry_effect_witness:
  "(let R = apply_remote_entry_core ex_remote (Some [''r'', ''.lil'', ''recv-1'']) ex_state ex_fs [] in
    fmlookup (fo_entries (fst (snd R))) ''d/b'' = Some ex_remote)"
proof -
  let ?R = "apply_remote_entry_core ex_remote (Some [''r'', ''.lil'', ''recv-1'']) ex_state ex_fs []"
  have v: "validate_remote_path (e_path ex_remote) = Inr () \<and> should_accept_remote ex_state ex_remote \<and>
      \<not> isl (fst ?R)" by code_simp
  obtain r s' fs' cp' where R: "?R = (r, s', fs', cp')" by (metis prod_cases4)
  moreover from this v obtain ch where "r = Inr ch" by (cases r) auto
  ultimately show ?thesis
    using apply_remote_entry_effect [OF R] v by (simp add: ex_remote_def)
qed

section \<open>The trees follow the index\<close>

lemma record_remote_replay:
  assumes "record_remote remote s = (changes, s')"
  shows "fo_entries s' = replay changes (fo_entries s)" "\<forall>c \<in> set changes. e_path (c_new c) = c_path c"
    "fo_tree s' = fo_tree s" "fo_live_tree s' = fo_live_tree s"
proof -
  obtain extra where run: "local_run (insert_remote remote s, []) (s', extra)"
    and ch: "changes = \<lparr>c_path = e_path remote, c_old = fmlookup (fo_entries s) (e_path remote), c_new = remote\<rparr> # extra"
    using assms by (rule record_remote_cases)
  have "fo_entries s' = replay extra (fo_entries (insert_remote remote s))"
    using run by (auto elim: local_run_summary)
  then show "fo_entries s' = replay changes (fo_entries s)"
    by (simp add: ch replay_def insert_remote_def)
  show "\<forall>c \<in> set changes. e_path (c_new c) = c_path c" "fo_tree s' = fo_tree s" "fo_live_tree s' = fo_live_tree s"
    using local_run_paths [OF run] by (simp_all add: ch insert_remote_def)
qed

lemma apply_loop_replay:
  assumes "apply_remote_loop batch all s fs cp = (Inr all', s', fs', cp')"
  shows "\<exists>new. all' = all @ new \<and> cp' = cp @ map c_path new \<and> fo_entries s' = replay new (fo_entries s) \<and>
    (\<forall>c \<in> set new. e_path (c_new c) = c_path c) \<and> fo_tree s' = fo_tree s \<and> fo_live_tree s' = fo_live_tree s"
  using assms
proof (induction batch arbitrary: all s fs cp)
  case (Cons x batch)
  obtain r1 s1 fs1 cp1 where core: "apply_remote_entry_core (fst x) (snd x) s fs cp = (r1, s1, fs1, cp1)"
    by (metis prod_cases4)
  with Cons.prems obtain ch where r1: "r1 = Inr ch" by (cases r1) auto
  have step: "cp1 = cp @ map c_path ch" "fo_entries s1 = replay ch (fo_entries s)"
    "\<forall>c \<in> set ch. e_path (c_new c) = c_path c" "fo_tree s1 = fo_tree s" "fo_live_tree s1 = fo_live_tree s"
    using core record_remote_replay [of "fst x" s ch s1]
    by (cases rule: apply_core_cases; auto simp: r1 replay_def)+
  from Cons.prems core r1 have "apply_remote_loop batch (all @ ch) s1 fs1 cp1 = (Inr all', s', fs', cp')"
    by simp
  from Cons.IH [OF this] obtain new where
    "all' = (all @ ch) @ new" "cp' = cp1 @ map c_path new" "fo_entries s' = replay new (fo_entries s1)"
    "\<forall>c \<in> set new. e_path (c_new c) = c_path c" "fo_tree s' = fo_tree s1" "fo_live_tree s' = fo_live_tree s1"
    by blast
  with step show ?case
    by (intro exI [of _ "ch @ new"]) (auto simp: replay_append)
qed (simp add: replay_def)

text \<open>
  C24. A batch that is applied without an error leaves the index equal to the old one with the
  reported changes, and both incrementally updated trees equal to trees built from scratch for the
  new index, provided no touched directory is empty.
\<close>

theorem apply_remote_entries_trees:
  assumes "apply_remote_entries X batch s fs = (Inr changes, s', fs')"
    and "wf_index (fo_entries s)" "trees_ok X s"
    and "no_empty_dirs X (fo_entries s) (fo_entries s') (map c_path changes)"
  shows "fo_entries s' = replay changes (fo_entries s) \<and> trees_ok X s'"
proof -
  obtain r1 s1 fs1 cp where loop: "apply_remote_loop batch [] s fs [] = (r1, s1, fs1, cp)"
    by (metis prod_cases4)
  with assms(1) have r1: "r1 = Inr changes"
    by (auto simp: apply_remote_entries_def Let_def split: sum.splits if_splits)
  from apply_loop_replay [OF loop [unfolded r1]] have new:
    "cp = map c_path changes" "fo_entries s1 = replay changes (fo_entries s)"
    "\<forall>c \<in> set changes. e_path (c_new c) = c_path c" "fo_tree s1 = fo_tree s" "fo_live_tree s1 = fo_live_tree s"
    by auto
  have s': "s' = (if changes = [] then s1 else update_trees X (map c_path changes) s1)"
    using assms(1) loop r1 new(1) by (auto simp: apply_remote_entries_def Let_def split: if_splits)
  show ?thesis
  proof (cases "changes = []")
    case True
    with s' new assms(3) show ?thesis by (simp add: trees_ok_def replay_def)
  next
    case False
    with s' have u: "s' = update_trees X (map c_path changes) s1" by simp
    then have "trees_ok X s'"
      using update_trees_ok [of s1 X "fo_entries s" changes] assms(2-4) new
      by (simp add: trees_ok_def)
    with u new show ?thesis by simp
  qed
qed

theorem apply_remote_entries_trees_witness:
  "trees_ok ex_lib (fst (snd (apply_remote_entries ex_lib ex_batch ex_state ex_fs)))"
proof -
  have "let R = apply_remote_entries ex_lib ex_batch ex_state ex_fs in
      \<not> isl (fst R) \<and> wf_index (fo_entries ex_state) \<and>
      no_empty_dirs ex_lib (fo_entries ex_state) (fo_entries (fst (snd R))) (map c_path (projr (fst R)))"
    by code_simp
  moreover have "trees_ok ex_lib ex_state" by (simp add: trees_ok_def ex_state_def ex_lib_def)
  ultimately show ?thesis
    using apply_remote_entries_trees [OF result_split, of ex_lib ex_batch ex_state ex_fs]
    by (simp add: Let_def)
qed

end
