(* ===== verification/Lil_Merge.thy ===== *)
theory Lil_Merge
  imports Lil_Prelude
begin

text \<open>
  The interface shared by the program's replicated maps: an insertion that keeps, at each key, the
  value of highest rank. The watermark of deletions, the membership ledger and the entry index
  (for entries that do not displace a directory) are instances; convergence is proved here once.
\<close>

locale newest_wins =
  fixes put :: "'k \<Rightarrow> 'v \<Rightarrow> ('k, 'v) fmap \<Rightarrow> ('k, 'v) fmap"
    and rank :: "'v \<Rightarrow> 'r::linorder"
  assumes put_lookup: "fmlookup (put k v m) q =
    (if q = k \<and> (case fmlookup m k of None \<Rightarrow> True | Some w \<Rightarrow> rank w < rank v)
     then Some v else fmlookup m q)"
begin

lemma put_grows: "fmlookup m k = Some w \<Longrightarrow> \<exists>w'. fmlookup (put k' v m) k = Some w' \<and> rank w \<le> rank w'"
  by (cases "k = k' \<and> rank w < rank v") (auto simp: put_lookup)

lemma put_covers: "\<exists>w. fmlookup (put k v m) k = Some w \<and> rank v \<le> rank w"
  by (cases "fmlookup m k") (auto simp: put_lookup)

lemma fold_grows:
  "fmlookup m k = Some w \<Longrightarrow>
     \<exists>w'. fmlookup (fold (\<lambda>(k, v). put k v) xs m) k = Some w' \<and> rank w \<le> rank w'"
proof (induction xs arbitrary: m w)
  case (Cons x xs)
  obtain k' v where x: "x = (k', v)" by (cases x)
  from put_grows [OF Cons.prems] obtain w1 where
    "fmlookup (put k' v m) k = Some w1" "rank w \<le> rank w1" by blast
  with Cons.IH show ?case by (fastforce simp: x intro: order_trans)
qed simp

lemma fold_covers:
  "(k, v) \<in> set xs \<Longrightarrow>
     \<exists>w. fmlookup (fold (\<lambda>(k, v). put k v) xs m) k = Some w \<and> rank v \<le> rank w"
proof (induction xs arbitrary: m)
  case (Cons x xs)
  show ?case
  proof (cases "x = (k, v)")
    case True
    from put_covers [of k v m] obtain w where "fmlookup (put k v m) k = Some w" "rank v \<le> rank w"
      by blast
    then show ?thesis using fold_grows [of "put k v m" k w xs] True by (auto intro: order_trans)
  next
    case False
    with Cons show ?thesis by auto
  qed
qed simp

lemma fold_from:
  "fmlookup (fold (\<lambda>(k, v). put k v) xs m) k = Some w \<Longrightarrow> fmlookup m k = Some w \<or> (k, w) \<in> set xs"
proof (induction xs arbitrary: m)
  case (Cons x xs)
  then show ?case
    by (cases x) (force simp: put_lookup split: if_splits)
qed simp

lemma put_below: "fmlookup m k = Some w \<Longrightarrow> rank v \<le> rank w \<Longrightarrow> put k v m = m"
  by (rule fmap_ext) (auto simp: put_lookup)

lemma fold_absorb:
  assumes "\<And>k v. (k, v) \<in> set xs \<Longrightarrow> \<exists>w. fmlookup m k = Some w \<and> rank v \<le> rank w"
  shows "fold (\<lambda>(k, v). put k v) xs m = m"
  using assms
proof (induction xs)
  case (Cons x xs)
  obtain k v where x: "x = (k, v)" by (cases x)
  from Cons.prems [of k v] obtain w where "fmlookup m k = Some w" "rank v \<le> rank w" by (auto simp: x)
  then have "put k v m = m" by (rule put_below)
  with Cons x show ?case by simp
qed simp

text \<open>Receiving the same values again changes nothing.\<close>

lemma fold_idem:
  "fold (\<lambda>(k, v). put k v) xs (fold (\<lambda>(k, v). put k v) xs m) = fold (\<lambda>(k, v). put k v) xs m"
  by (rule fold_absorb) (rule fold_covers)

lemma fold_lookup_None:
  "fmlookup (fold (\<lambda>(k, v). put k v) xs m) k = None \<longleftrightarrow> fmlookup m k = None \<and> k \<notin> fst ` set xs"
proof
  assume none: "fmlookup (fold (\<lambda>(k, v). put k v) xs m) k = None"
  then have "fmlookup m k = None" using fold_grows [of m k _ xs] by (cases "fmlookup m k") auto
  moreover have "(k, v) \<notin> set xs" for v using fold_covers [of k v xs m] none by auto
  ultimately show "fmlookup m k = None \<and> k \<notin> fst ` set xs" by force
next
  assume "fmlookup m k = None \<and> k \<notin> fst ` set xs"
  then show "fmlookup (fold (\<lambda>(k, v). put k v) xs m) k = None"
    using fold_from [of xs m k] by (cases "fmlookup (fold (\<lambda>(k, v). put k v) xs m) k") force+
qed

text \<open>
  Two replicas that start from the same map and receive the same values, in any order and any
  number of times, hold the same map, when equal ranks at a key mean equal values.
\<close>

lemma fold_converges:
  assumes same: "set xs = set ys"
    and inj: "\<And>k v w. (k, v) \<in> set xs \<or> fmlookup m k = Some v \<Longrightarrow>
      (k, w) \<in> set xs \<or> fmlookup m k = Some w \<Longrightarrow> rank v = rank w \<Longrightarrow> v = w"
  shows "fold (\<lambda>(k, v). put k v) xs m = fold (\<lambda>(k, v). put k v) ys m"
proof (rule fmap_ext)
  fix k
  let ?a = "fmlookup (fold (\<lambda>(k, v). put k v) xs m) k" and ?b = "fmlookup (fold (\<lambda>(k, v). put k v) ys m) k"
  show "?a = ?b"
  proof (cases ?a)
    case None
    with same show ?thesis by (metis fold_lookup_None)
  next
    case (Some v)
    with same obtain w where w: "?b = Some w" by (metis fold_lookup_None not_None_eq)
    have v': "fmlookup m k = Some v \<or> (k, v) \<in> set xs" using Some by (rule fold_from)
    have w': "fmlookup m k = Some w \<or> (k, w) \<in> set xs" using fold_from [OF w] same by simp
    have "rank v \<le> rank w"
      using v' fold_grows [of m k v ys] fold_covers [of k v ys m] w same by auto
    moreover have "rank w \<le> rank v"
      using w' fold_grows [of m k w xs] fold_covers [of k w xs m] Some by auto
    ultimately have "v = w" using inj [of k v w] v' w' by auto
    with Some w show ?thesis by simp
  qed
qed

text \<open>Two replicas with different maps that send each other everything they hold agree afterwards.\<close>

lemma fold_exchange:
  assumes m: "\<And>k v. fmlookup m k = Some v \<longleftrightarrow> (k, v) \<in> set ys"
    and n: "\<And>k v. fmlookup n k = Some v \<longleftrightarrow> (k, v) \<in> set xs"
    and inj: "\<And>k v w. fmlookup m k = Some v \<Longrightarrow> fmlookup n k = Some w \<Longrightarrow> rank v = rank w \<Longrightarrow> v = w"
  shows "fold (\<lambda>(k, v). put k v) xs m = fold (\<lambda>(k, v). put k v) ys n"
proof (rule fmap_ext)
  fix k
  let ?a = "fmlookup (fold (\<lambda>(k, v). put k v) xs m) k" and ?b = "fmlookup (fold (\<lambda>(k, v). put k v) ys n) k"
  have a: "\<exists>w'. ?a = Some w' \<and> rank w \<le> rank w'" if "fmlookup m k = Some w \<or> fmlookup n k = Some w" for w
    using that fold_grows [of m k w xs] fold_covers [of k w xs m] n by blast
  have b: "\<exists>w'. ?b = Some w' \<and> rank w \<le> rank w'" if "fmlookup m k = Some w \<or> fmlookup n k = Some w" for w
    using that fold_grows [of n k w ys] fold_covers [of k w ys n] m by blast
  have from_a: "fmlookup m k = Some w \<or> fmlookup n k = Some w" if "?a = Some w" for w
    using fold_from [OF that] n by blast
  have from_b: "fmlookup m k = Some w \<or> fmlookup n k = Some w" if "?b = Some w" for w
    using fold_from [OF that] m by blast
  show "?a = ?b"
  proof (cases ?a)
    case None
    then show ?thesis using a from_b by (cases ?b) fastforce+
  next
    case (Some v)
    then obtain w where w: "?b = Some w" "rank v \<le> rank w" using b from_a by blast
    moreover have "rank w \<le> rank v" using a [OF from_b [OF w(1)]] Some by auto
    ultimately have "v = w" using inj [of k v w] inj [of k w v] from_a [OF Some] from_b [OF w(1)] by auto
    with Some w(1) show ?thesis by simp
  qed
qed

end

end
