(* ===== verification/Lil_Gc.thy ===== *)
theory Lil_Gc
  imports Lil_Remote Lil_Merge
begin

text \<open>
  Garbage collection of tombstones (\<open>merge_gc_watermark\<close>, \<open>gc_tombstones_for_converged_root\<close> and
  \<open>prune_tombstones_covered_by_watermark\<close> of \<open>src/state.rs\<close>): the watermark only grows, a prune
  removes exactly the tombstones under it, and what was collected is not accepted again.
\<close>

section \<open>The watermark as a newest-wins map\<close>

definition wm_put :: "string \<Rightarrow> u64 \<Rightarrow> gc_watermark \<Rightarrow> gc_watermark" where
  "wm_put origin lamport wm = fst (merge_watermark_entry (origin, lamport) (wm, False))"

lemma wm_put_lookup:
  "fmlookup (wm_put k v m) q =
     (if q = k \<and> (case fmlookup m k of None \<Rightarrow> True | Some w \<Rightarrow> w < v) then Some v else fmlookup m q)"
  by (auto simp: wm_put_def merge_watermark_entry_def Let_def word_gt_0 split: option.splits)

interpretation wm: newest_wins wm_put "\<lambda>l. l"
  by unfold_locales (rule wm_put_lookup)

lemma merge_watermark_fst: "fst (merge_watermark_entry x (wm, c)) = wm_put (fst x) (snd x) wm"
  by (cases x) (auto simp: wm_put_def merge_watermark_entry_def Let_def)

lemma merge_watermark_fold:
  "fst (fold merge_watermark_entry xs st) = fold (\<lambda>(o', l). wm_put o' l) xs (fst st)"
proof (induction xs arbitrary: st)
  case (Cons x xs)
  show ?case
    using Cons [of "merge_watermark_entry x st"] merge_watermark_fst [of x "fst st" "snd st"]
    by (simp add: case_prod_beta)
qed simp

section \<open>Pruning\<close>

lemma fold_fmdrop: "fmlookup (fold fmdrop ks m) p = (if p \<in> set ks then None else fmlookup m p)"
  by (induction ks arbitrary: m) auto

lemma prune_entries:
  assumes "prune_tombstones_covered_by_watermark X s = (n, s')"
  shows "fo_entries s' = fmfilter (\<lambda>k. \<not> gc_covered s (the (fmlookup (fo_entries s) k))) (fo_entries s)"
    and "fo_root s' = fo_root s" "fo_origin s' = fo_origin s" "fo_lamport s' = fo_lamport s"
    and "fo_gc_watermark s' = fo_gc_watermark s"
    and "trees_ok X s \<Longrightarrow> trees_ok X s'"
proof -
  let ?rm = "map fst (filter (\<lambda>(k, e). gc_covered s e) (fm_iter (fo_entries s)))"
  have rm: "p \<in> set ?rm \<longleftrightarrow> (\<exists>e. fmlookup (fo_entries s) p = Some e \<and> gc_covered s e)" for p
    by (auto simp: fm_simps image_iff Bex_def)
  have drop: "fold fmdrop ?rm (fo_entries s) =
      fmfilter (\<lambda>k. \<not> gc_covered s (the (fmlookup (fo_entries s) k))) (fo_entries s)"
  proof (rule fmap_ext)
    fix p
    show "fmlookup (fold fmdrop ?rm (fo_entries s)) p =
        fmlookup (fmfilter (\<lambda>k. \<not> gc_covered s (the (fmlookup (fo_entries s) k))) (fo_entries s)) p"
      using rm [of p] by (cases "fmlookup (fo_entries s) p") (auto simp: fold_fmdrop)
  qed
  show "fo_entries s' = fmfilter (\<lambda>k. \<not> gc_covered s (the (fmlookup (fo_entries s) k))) (fo_entries s)"
    using assms drop
    by (cases ?rm) (auto simp: prune_tombstones_covered_by_watermark_def Let_def split: if_splits)
  show "fo_root s' = fo_root s" "fo_origin s' = fo_origin s" "fo_lamport s' = fo_lamport s"
    "fo_gc_watermark s' = fo_gc_watermark s"
    using assms by (auto simp: prune_tombstones_covered_by_watermark_def Let_def split: if_splits)
  show "trees_ok X s'" if "trees_ok X s"
    using assms that
    by (auto simp: prune_tombstones_covered_by_watermark_def Let_def trees_ok_def split: if_splits)
       (simp_all add: rebuild_trees_def)
qed

lemma prune_lookup:
  assumes "prune_tombstones_covered_by_watermark X s = (n, s')"
  shows "fmlookup (fo_entries s') p = Some e \<longleftrightarrow> fmlookup (fo_entries s) p = Some e \<and> \<not> gc_covered s e"
  by (cases "fmlookup (fo_entries s) p") (auto simp: prune_entries(1) [OF assms])

section \<open>Merging a watermark\<close>

text \<open>The state after the merge and before the clock is advanced for pruned tombstones.\<close>

definition merged_wm :: "gc_watermark \<Rightarrow> folder_state \<Rightarrow> gc_watermark" where
  "merged_wm incoming s = fold (\<lambda>(o', l). wm_put o' l) (fm_iter incoming) (fo_gc_watermark s)"

lemma merge_changed:
  assumes "fold merge_watermark_entry xs (wm, c) = (wm', c')"
  shows "c \<Longrightarrow> c'" and "\<not> c' \<Longrightarrow> \<forall>k. (case fmlookup wm' k of None \<Rightarrow> 0 | Some l \<Rightarrow> l) =
      (case fmlookup wm k of None \<Rightarrow> 0 | Some l \<Rightarrow> l)"
proof -
  have "(c \<longrightarrow> c') \<and> (\<not> c' \<longrightarrow> (\<forall>k. (case fmlookup wm' k of None \<Rightarrow> 0 | Some l \<Rightarrow> l) =
      (case fmlookup wm k of None \<Rightarrow> 0 | Some l \<Rightarrow> l)))"
    using assms
  proof (induction xs arbitrary: wm c)
    case (Cons x xs)
    obtain wm1 c1 where x: "merge_watermark_entry x (wm, c) = (wm1, c1)" by fastforce
    then have "(c \<longrightarrow> c1) \<and> (\<not> c1 \<longrightarrow> (\<forall>k. (case fmlookup wm1 k of None \<Rightarrow> 0 | Some l \<Rightarrow> l) =
        (case fmlookup wm k of None \<Rightarrow> 0 | Some l \<Rightarrow> l)))"
      by (cases x) (auto simp: merge_watermark_entry_def Let_def split: option.splits if_splits)
    with Cons.IH [of wm1 c1] Cons.prems x show ?case by auto
  qed auto
  then show "c \<Longrightarrow> c'" "\<not> c' \<Longrightarrow> \<forall>k. (case fmlookup wm' k of None \<Rightarrow> 0 | Some l \<Rightarrow> l) =
      (case fmlookup wm k of None \<Rightarrow> 0 | Some l \<Rightarrow> l)" by blast+
qed

lemma merge_gc_watermark_cases:
  assumes "merge_gc_watermark X incoming s fs = ((changed, pruned), s', fs')"
  obtains s2 s3 where
    "fo_gc_watermark s2 = merged_wm incoming s" "fo_entries s2 = fo_entries s" "fo_origin s2 = fo_origin s"
    "fo_tree s2 = fo_tree s" "fo_live_tree s2 = fo_live_tree s"
    "fo_lamport s2 = (if changed then max (fo_lamport s) (own_watermark s2) else fo_lamport s)"
    "\<not> changed \<longrightarrow> own_watermark s2 = own_watermark s"
    "prune_tombstones_covered_by_watermark X s2 = (pruned, s3)"
    "s' = (if 0 < pruned then s3\<lparr>fo_lamport := fo_lamport s3 + 1\<rparr> else s3)"
proof -
  obtain wm c where f: "fold merge_watermark_entry (fm_iter incoming) (fo_gc_watermark s, False) = (wm, c)"
    by fastforce
  have wm: "wm = merged_wm incoming s"
    using merge_watermark_fold [of "fm_iter incoming" "(fo_gc_watermark s, False)"]
    by (simp add: f merged_wm_def)
  let ?s1 = "s\<lparr>fo_gc_watermark := wm\<rparr>"
  let ?s2 = "if c \<and> fo_lamport s < own_watermark ?s1 then ?s1\<lparr>fo_lamport := own_watermark ?s1\<rparr> else ?s1"
  obtain n s3 where p: "prune_tombstones_covered_by_watermark X ?s2 = (n, s3)" by fastforce
  have eq: "changed = c" "pruned = n" "s' = (if 0 < n then s3\<lparr>fo_lamport := fo_lamport s3 + 1\<rparr> else s3)"
    using assms p by (auto simp: merge_gc_watermark_def f Let_def split: if_splits prod.splits)
  have own: "own_watermark ?s2 = own_watermark ?s1" by (simp add: own_watermark_def)
  show thesis
  proof (rule that [of ?s2 s3])
    show "fo_lamport ?s2 = (if changed then max (fo_lamport s) (own_watermark ?s2) else fo_lamport s)"
      unfolding own by (auto simp: eq max.absorb1 max.absorb2 not_less)
    show "\<not> changed \<longrightarrow> own_watermark ?s2 = own_watermark s"
      unfolding own using merge_changed(2) [OF f] by (simp add: eq own_watermark_def)
  qed (use eq p wm in auto)
qed

text \<open>
  Merging a received watermark never forgets a collected deletion (a version under the old
  watermark is under the new one) and takes the maximum with the incoming one; the index keeps
  exactly the entries that are not tombstones under the new watermark, so a live entry is never
  dropped; and the trees stay those of the index.
\<close>

theorem merge_gc_watermark_prunes_covered:
  assumes "merge_gc_watermark X incoming s fs = ((changed, pruned), s', fs')"
  shows "(is_version_gced s v \<longrightarrow> is_version_gced s' v) \<and>
    (fmlookup incoming o' = Some l \<longrightarrow> is_version_gced s' (Version l o')) \<and>
    (fmlookup (fo_entries s') p = Some e \<longleftrightarrow>
       fmlookup (fo_entries s) p = Some e \<and> \<not> (e_kind e = Tombstone \<and> is_version_gced s' (e_version e))) \<and>
    (trees_ok X s \<longrightarrow> trees_ok X s')"
proof -
  obtain s2 s3 where s2: "fo_gc_watermark s2 = merged_wm incoming s" "fo_entries s2 = fo_entries s"
    "fo_tree s2 = fo_tree s" "fo_live_tree s2 = fo_live_tree s"
    and pr: "prune_tombstones_covered_by_watermark X s2 = (pruned, s3)"
    and s': "s' = (if 0 < pruned then s3\<lparr>fo_lamport := fo_lamport s3 + 1\<rparr> else s3)"
    using assms by (rule merge_gc_watermark_cases)
  note pe = prune_entries [OF pr] and pl = prune_lookup [OF pr]
  have wm': "fo_gc_watermark s' = merged_wm incoming s" using s' pe(5) s2(1) by auto
  then have gced: "is_version_gced s' = is_version_gced s2"
    using s2(1) by (auto simp: is_version_gced_def)
  have "is_version_gced s' v" if "is_version_gced s v"
    using that wm.fold_grows [of "fo_gc_watermark s" "v_origin v" _ "fm_iter incoming"] wm'
    by (fastforce simp: is_version_gced_def merged_wm_def split: option.splits)
  moreover have "is_version_gced s' (Version l o')" if "fmlookup incoming o' = Some l"
    using that wm.fold_covers [of o' l "fm_iter incoming" "fo_gc_watermark s"] wm'
    by (auto simp: is_version_gced_def merged_wm_def fm_simps)
  moreover have "fmlookup (fo_entries s') p = Some e \<longleftrightarrow>
       fmlookup (fo_entries s) p = Some e \<and> \<not> (e_kind e = Tombstone \<and> is_version_gced s' (e_version e))"
  proof -
    have "fo_entries s' = fo_entries s3" using s' by simp
    with pl [of p e] show ?thesis by (simp add: gc_covered_def gced s2(2))
  qed
  moreover have "trees_ok X s'" if "trees_ok X s"
    using pe(6) that s2(2-4) s' by (auto simp: trees_ok_def)
  ultimately show ?thesis by blast
qed

definition ex_deleted :: folder_state where
  "ex_deleted = ex_state\<lparr>fo_entries :=
     fmupd ''x'' (tombstone_entry ''x'' (ex_entry ''x'' File 1) (Version 2 ''n'')) fmempty\<rparr>"

theorem merge_gc_watermark_prunes_covered_witness:
  "(let s' = fst (snd (merge_gc_watermark ex_lib (fmupd ''n'' 2 fmempty) ex_deleted ex_fs)) in
    is_version_gced s' (Version 2 ''n'') \<and>
    fmlookup (fo_entries s') ''x'' \<noteq>
      Some (tombstone_entry ''x'' (ex_entry ''x'' File 1) (Version 2 ''n'')))"
proof -
  let ?R = "merge_gc_watermark ex_lib (fmupd ''n'' 2 fmempty) ex_deleted ex_fs"
  have R: "?R = ((fst (fst ?R), snd (fst ?R)), fst (snd ?R), snd (snd ?R))" by simp
  show ?thesis
    using merge_gc_watermark_prunes_covered [OF R, of "Version 2 ''n''" "''n''" 2 "''x''"
        "tombstone_entry ''x'' (ex_entry ''x'' File 1) (Version 2 ''n'')"]
    by (simp add: Let_def)
qed

text \<open>
  The clock stays at or above this node's own watermark through a merge, so a version issued
  afterwards is never under it: a later local deletion is not pruned at once and not rejected by
  peers as collected. The assumption is that the clock is not at the end of its range.
\<close>

theorem merge_gc_watermark_clock:
  assumes "merge_gc_watermark X incoming s fs = ((changed, pruned), s', fs')"
    and "own_watermark s \<le> fo_lamport s" "word_room (max (fo_lamport s) (own_watermark s')) 2"
  shows "own_watermark s' \<le> fo_lamport s' \<and> fo_lamport s \<le> fo_lamport s' \<and>
    \<not> is_version_gced s' (fst (next_version s'))"
proof -
  obtain s2 s3 where s2: "fo_gc_watermark s2 = merged_wm incoming s" "fo_origin s2 = fo_origin s"
    "fo_lamport s2 = (if changed then max (fo_lamport s) (own_watermark s2) else fo_lamport s)"
    "\<not> changed \<longrightarrow> own_watermark s2 = own_watermark s"
    and pr: "prune_tombstones_covered_by_watermark X s2 = (pruned, s3)"
    and s': "s' = (if 0 < pruned then s3\<lparr>fo_lamport := fo_lamport s3 + 1\<rparr> else s3)"
    using assms(1) by (rule merge_gc_watermark_cases)
  note pe = prune_entries [OF pr]
  have own: "own_watermark s' = own_watermark s2" "fo_origin s' = fo_origin s2"
    using s' pe by (auto simp: own_watermark_def)
  have l2: "own_watermark s2 \<le> fo_lamport s2" "fo_lamport s \<le> fo_lamport s2"
    "fo_lamport s2 \<le> max (fo_lamport s) (own_watermark s')"
    using s2(3,4) assms(2) own by (auto split: if_splits)
  let ?m = "max (fo_lamport s) (own_watermark s')"
  note big = assms(3) [unfolded word_room_nat]
  have lam: "unat (fo_lamport s2) \<le> unat ?m" using l2(3) by (simp add: word_le_nat_alt)
  have l': "unat (fo_lamport s') = unat (fo_lamport s2) + (if 0 < pruned then 1 else 0)"
    using s' pe(4) big lam by (auto simp: unat_word_ariths)
  have next': "unat (fo_lamport s' + 1) = unat (fo_lamport s') + 1"
    using l' big lam by (auto simp: unat_word_ariths split: if_splits)
  have o': "own_watermark s' \<le> fo_lamport s'" "fo_lamport s \<le> fo_lamport s'"
    using l2(1,2) l' own by (auto simp: word_le_nat_alt)
  then have "\<not> fo_lamport s' + 1 \<le> own_watermark s'"
    using next' by (simp add: word_le_nat_alt)
  then have "\<not> is_version_gced s' (fst (next_version s'))"
    by (auto simp: is_version_gced_def next_version_def own_watermark_def Let_def split: option.splits)
  with o' show ?thesis by simp
qed

theorem merge_gc_watermark_clock_witness:
  "(let s' = fst (snd (merge_gc_watermark ex_lib (fmupd ''n'' 7 fmempty) ex_deleted ex_fs)) in
    own_watermark s' \<le> fo_lamport s' \<and> \<not> is_version_gced s' (fst (next_version s')))"
proof -
  let ?R = "merge_gc_watermark ex_lib (fmupd ''n'' 7 fmempty) ex_deleted ex_fs"
  have R: "?R = ((fst (fst ?R), snd (fst ?R)), fst (snd ?R), snd (snd ?R))" by simp
  have "own_watermark ex_deleted \<le> fo_lamport ex_deleted \<and>
      word_room (max (fo_lamport ex_deleted) (own_watermark (fst (snd ?R)))) 2" by code_simp
  then show ?thesis using merge_gc_watermark_clock [OF R] by (simp add: Let_def)
qed

section \<open>Collecting all tombstones\<close>

lemma tombstone_watermark_covers:
  assumes "e \<in> set es" "e_kind e = Tombstone"
  shows "\<exists>l. fmlookup (tombstone_watermark es) (v_origin (e_version e)) = Some l \<and> v_lamport (e_version e) \<le> l"
proof -
  let ?step = "\<lambda>(e :: entry) wm. if e_kind e \<noteq> Tombstone then wm
      else let o' = v_origin (e_version e); l = (case fmlookup wm o' of None \<Rightarrow> 0 | Some l \<Rightarrow> l)
           in fmupd o' (max l (v_lamport (e_version e))) wm"
  have grow: "\<exists>l'. fmlookup (fold ?step es wm) k = Some l' \<and> l \<le> l'" if "fmlookup wm k = Some l" for es wm k l
    using that
  proof (induction es arbitrary: wm l)
    case (Cons e es)
    have "\<exists>l1. fmlookup (?step e wm) k = Some l1 \<and> l \<le> l1"
      using Cons.prems by (cases "v_origin (e_version e) = k") (auto simp: Let_def)
    then obtain l1 where "fmlookup (?step e wm) k = Some l1" "l \<le> l1" by blast
    with Cons.IH [of "?step e wm" l1] show ?case by (auto intro: order_trans)
  qed simp
  have "\<exists>l. fmlookup (fold ?step es wm) (v_origin (e_version e)) = Some l \<and> v_lamport (e_version e) \<le> l" for wm
    using assms
  proof (induction es arbitrary: wm)
    case (Cons d es)
    show ?case
    proof (cases "d = e")
      case True
      have "\<exists>l. fmlookup (?step e wm) (v_origin (e_version e)) = Some l \<and> v_lamport (e_version e) \<le> l"
        using Cons.prems by (simp add: Let_def)
      with grow [of "?step e wm" "v_origin (e_version e)" _ es] True show ?thesis
        by (auto intro: order_trans)
    qed (use Cons in auto)
  qed simp
  then show ?thesis by (simp add: tombstone_watermark_def)
qed

text \<open>
  C26. When all peers agree on the root, collecting tombstones removes every tombstone from the
  index and no live entry, and none of the collected tombstones is accepted again from a peer.
\<close>

theorem gc_converged_root_collects_all:
  assumes "gc_tombstones_for_converged_root X s fs = (n, s', fs')"
  shows "(fmlookup (fo_entries s') p = Some e \<longleftrightarrow> fmlookup (fo_entries s) p = Some e \<and> e_kind e \<noteq> Tombstone) \<and>
    (fmlookup (fo_entries s) p = Some e \<and> e_kind e = Tombstone \<longrightarrow> \<not> should_accept_remote s' e)"
proof (cases "tombstone_watermark (fm_values (fo_entries s)) = fmempty")
  case True
  then have "e_kind e \<noteq> Tombstone" if "fmlookup (fo_entries s) q = Some e" for q e
    using tombstone_watermark_covers [of e "fm_values (fo_entries s)"] that
    by (auto simp: in_fm_values)
  moreover have "s' = s" using assms True by (simp add: gc_tombstones_for_converged_root_def)
  ultimately show ?thesis by auto
next
  case False
  then obtain c where m: "merge_gc_watermark X (tombstone_watermark (fm_values (fo_entries s))) s fs = ((c, n), s', fs')"
    using assms by (auto simp: gc_tombstones_for_converged_root_def Let_def split: prod.splits)
  obtain s2 s3 where s2: "fo_gc_watermark s2 = merged_wm (tombstone_watermark (fm_values (fo_entries s))) s"
    "fo_entries s2 = fo_entries s"
    and pr: "prune_tombstones_covered_by_watermark X s2 = (n, s3)"
    and s': "s' = (if 0 < n then s3\<lparr>fo_lamport := fo_lamport s3 + 1\<rparr> else s3)"
    using m by (rule merge_gc_watermark_cases)
  have wm: "fo_gc_watermark s' = fo_gc_watermark s2" using s' prune_entries(5) [OF pr] by simp
  have gced: "is_version_gced s2 (e_version e)" "is_version_gced s' (e_version e)"
    if "fmlookup (fo_entries s) q = Some e" "e_kind e = Tombstone" for q e
  proof -
    note tomb = that(2)
    have "e \<in> set (fm_values (fo_entries s))" using that(1) by (auto simp: in_fm_values)
    then obtain l where l: "fmlookup (tombstone_watermark (fm_values (fo_entries s))) (v_origin (e_version e)) = Some l"
      "v_lamport (e_version e) \<le> l"
      using tombstone_watermark_covers tomb by blast
    then have "(v_origin (e_version e), l) \<in> set (fm_iter (tombstone_watermark (fm_values (fo_entries s))))"
      by (simp add: in_fm_iter)
    from wm.fold_covers [OF this, of "fo_gc_watermark s"] obtain w where
      "fmlookup (fo_gc_watermark s2) (v_origin (e_version e)) = Some w" "l \<le> w"
      unfolding s2(1) merged_wm_def by blast
    with l(2) show "is_version_gced s2 (e_version e)"
      by (simp add: is_version_gced_def)
    then show "is_version_gced s' (e_version e)" using wm by (simp add: is_version_gced_def)
  qed
  have "fmlookup (fo_entries s') p = Some e \<longleftrightarrow> fmlookup (fo_entries s) p = Some e \<and> e_kind e \<noteq> Tombstone"
    using prune_lookup [OF pr, of p e] s' s2(2) gced(1) by (auto simp: gc_covered_def)
  then show ?thesis using gced(2) by (auto simp: should_accept_remote_def)
qed

theorem gc_converged_root_collects_all_witness:
  "(let s' = fst (snd (gc_tombstones_for_converged_root ex_lib ex_deleted ex_fs)) in
    \<not> should_accept_remote s' (tombstone_entry ''x'' (ex_entry ''x'' File 1) (Version 2 ''n'')))"
proof -
  let ?R = "gc_tombstones_for_converged_root ex_lib ex_deleted ex_fs"
  have R: "?R = (fst ?R, fst (snd ?R), snd (snd ?R))" by simp
  show ?thesis
    using gc_converged_root_collects_all [OF R, of "''x''"
        "tombstone_entry ''x'' (ex_entry ''x'' File 1) (Version 2 ''n'')"]
    by (simp add: Let_def ex_deleted_def)
qed

end
