(* ===== verification/Lil_Persist.thy ===== *)
theory Lil_Persist
  imports Lil_FsFacts Lil_Gc
begin

text \<open>
  Persistence of \<open>FolderState\<close> (\<open>src/state.rs\<close>): atomic writes, the round trip of the clock, the
  index and the watermark through the state directory, and what start-up makes of them. The
  codecs are parameters; what is assumed of them is that decoding inverts encoding.
\<close>

section \<open>Atomicity\<close>

text \<open>
  \<open>write_atomic\<close> is atomic for readers: after its first step (the temporary file), a reader
  of the destination still sees exactly the old content, and after it returns success the
  destination holds exactly the new content; no other file is touched and no temporary file is
  left.
\<close>

theorem write_atomic_is_atomic:
  assumes "writable_slot fs d n"
  shows "(let fs1 = snd (write_file fs (d @ [with_extension_tmp n]) c);
              (r, fs2) = write_atomic fs (d @ [n]) c in
     node_at fs1 (d @ [n]) = node_at fs (d @ [n]) \<and>
     r = Inr () \<and> read_file fs2 (d @ [n]) = Inr c \<and>
     node_at fs2 (d @ [with_extension_tmp n]) = None \<and>
     (\<forall>q. q \<noteq> d @ [n] \<and> q \<noteq> d @ [with_extension_tmp n] \<longrightarrow> node_at fs2 q = node_at fs q))"
proof -
  obtain fs2 where wa: "write_atomic fs (d @ [n]) c = (Inr (), fs2)" and w: "wrote fs d n c fs2"
    using write_atomic_wrote [OF assms] by blast
  have slot: "real_dir fs d" "no_fault fs (d @ [with_extension_tmp n])" "n \<noteq> with_extension_tmp n"
    "node_at fs (d @ [with_extension_tmp n]) = None \<or>
       (\<exists>c m t. node_at fs (d @ [with_extension_tmp n]) = Some (FsFile c m t))"
    using assms by (auto simp: writable_slot_def elim: plainE)
  obtain m where "write_file fs (d @ [with_extension_tmp n]) c =
      (Inr (), put_node (d @ [with_extension_tmp n]) (FsFile c m (fs_now fs)) fs)"
    by (rule write_file_real [OF slot(1,2,4)])
  with slot(3) wrote_read [OF assms w] wa w show ?thesis by (simp add: Let_def wrote_def)
qed

theorem write_atomic_is_atomic_witness:
  "read_file (snd (write_atomic ex_fs [''r'', ''.lil'', ''lamport''] [1, 2])) [''r'', ''.lil'', ''lamport''] =
     Inr [1, 2]"
proof -
  have "writable_slot ex_fs [''r'', ''.lil''] ''lamport''" by code_simp
  from write_atomic_is_atomic [OF this, of "[1, 2]"] show ?thesis
    by (auto simp: Let_def split: prod.splits)
qed

section \<open>Round trips\<close>

lemma with_extension_tmp_names [simp]:
  "with_extension_tmp ''lamport'' = ''lamport.tmp''"
  "with_extension_tmp ''entries.bin'' = ''entries.tmp''"
  "with_extension_tmp ''gc-watermark.bin'' = ''gc-watermark.tmp''"
  by (code_simp)+

text \<open>The state directory is a real directory in which the program can write its files.\<close>

definition state_dir_ok :: "fs \<Rightarrow> abspath \<Rightarrow> bool" where
  "state_dir_ok fs root \<longleftrightarrow>
     list_all (writable_slot fs (state_dir_of root)) [''lamport'', ''entries.bin'', ''gc-watermark.bin'']"

lemma state_dir_of_snoc: "state_dir_of root @ [n] = (root @ [STATE_DIR]) @ [n]"
  by (simp add: state_dir_of_def)

lemma save_lamport_wrote:
  assumes "state_dir_ok fs (fo_root s)"
  shows "wrote fs (state_dir_of (fo_root s)) ''lamport'' (u64_to_le_bytes (fo_lamport s)) (save_lamport s fs)"
proof -
  have "writable_slot fs (state_dir_of (fo_root s)) ''lamport''" using assms by (simp add: state_dir_ok_def)
  from write_atomic_wrote [OF this, of "u64_to_le_bytes (fo_lamport s)"] show ?thesis
    by (auto simp: save_lamport_def)
qed

lemma save_entries_wrote:
  assumes "state_dir_ok fs (fo_root s)" "ser_entries X (fo_entries s) = Some b"
  shows "wrote fs (state_dir_of (fo_root s)) ''entries.bin'' b (save_entries X s fs)"
proof -
  have "writable_slot fs (state_dir_of (fo_root s)) ''entries.bin''" using assms by (simp add: state_dir_ok_def)
  from write_atomic_wrote [OF this, of b] show ?thesis
    using assms(2) by (auto simp: save_entries_def)
qed

lemma wrote_state_dir_ok:
  assumes "state_dir_ok fs root" "wrote fs (state_dir_of root) n c fs'" "n \<in> {''lamport'', ''entries.bin''}"
  shows "state_dir_ok fs' root"
  using assms wrote_slot [of fs "state_dir_of root" n c fs']
  by (auto simp: state_dir_ok_def)

lemma fold_max_ge:
  "m \<le> fold (\<lambda>x m. max m (f x)) xs m" "x \<in> set xs \<Longrightarrow> f x \<le> fold (\<lambda>x m. max m (f x)) xs (m :: u64)"
proof -
  have "m \<le> fold (\<lambda>x m. max m (f x)) xs m \<and> (\<forall>x \<in> set xs. f x \<le> fold (\<lambda>x m. max m (f x)) xs m)"
    by (induction xs arbitrary: m) (auto, (meson max.bounded_iff order_trans)+)
  then show "m \<le> fold (\<lambda>x m. max m (f x)) xs m"
    "x \<in> set xs \<Longrightarrow> f x \<le> fold (\<lambda>x m. max m (f x)) xs m" by blast+
qed

lemma max_entry_lamport_ge:
  assumes "fmlookup E k = Some e"
  shows "v_lamport (e_version e) \<le> max_entry_lamport E"
proof -
  have "e \<in> set (fm_values E)" using assms by (auto simp: in_fm_values)
  then show ?thesis
    unfolding max_entry_lamport_def by (rule fold_max_ge(2))
qed

text \<open>
  C30. Restart after the saves that follow a change: reading back what \<open>save_lamport\<close> and
  \<open>save_entries\<close> wrote gives the same index, a clock at least the saved one and at least every
  version in the index and this node's own watermark, so no version is issued twice.
\<close>

theorem restart_restores_state:
  assumes "state_dir_ok fs (fo_root s)"
    and "ser_entries X (fo_entries s) = Some b" "de_entries X b = Some (fo_entries s)"
    and "fs' = save_entries X s (save_lamport s fs)"
  shows "load_saved_entries X fs' (state_dir_of (fo_root s)) = Inr (fo_entries s) \<and>
    (let t = loaded_state X (fo_root s) (fo_origin s) (fo_entries s) fs' in
     fo_entries t = fo_entries s \<and> fo_lamport s \<le> fo_lamport t \<and> clock_bounds t \<and>
     own_watermark t \<le> fo_lamport t)"
proof -
  let ?d = "state_dir_of (fo_root s)"
  have slots: "writable_slot fs ?d ''lamport''" using assms(1) by (simp add: state_dir_ok_def)
  let ?fs1 = "save_lamport s fs"
  note w1 = save_lamport_wrote [OF assms(1)]
  have ok1: "state_dir_ok ?fs1 (fo_root s)" by (rule wrote_state_dir_ok [OF assms(1) w1]) simp
  note w2 = save_entries_wrote [OF ok1 assms(2)]
  have slots1: "writable_slot ?fs1 ?d ''lamport''" "writable_slot ?fs1 ?d ''entries.bin''"
    using ok1 by (simp_all add: state_dir_ok_def)
  have e: "read_file fs' (?d @ [''entries.bin'']) = Inr b"
    unfolding assms(4) by (rule wrote_read [OF slots1(2) w2])
  have "read_file fs' (?d @ [''lamport'']) = read_file ?fs1 (?d @ [''lamport''])"
    unfolding assms(4) by (rule wrote_slot(3) [OF slots1(2) w2 slots1(1)]) simp_all
  then have l: "read_file fs' (?d @ [''lamport'']) = Inr (u64_to_le_bytes (fo_lamport s))"
    using wrote_read [OF slots w1] by simp
  have lam: "load_saved_lamport fs' ?d = fo_lamport s" using l by (simp add: load_saved_lamport_def)
  let ?t = "loaded_state X (fo_root s) (fo_origin s) (fo_entries s) fs'"
  have "clock_bounds ?t"
    unfolding clock_bounds_def
    by (rule fmpredI) (use max_entry_lamport_ge in \<open>auto simp: loaded_state_def Let_def le_max_iff_disj\<close>)
  then show ?thesis
    using e assms(3) lam
    by (auto simp: load_saved_entries_def loaded_state_def own_watermark_def Let_def le_max_iff_disj)
qed

theorem restart_restores_state_witness:
  "load_saved_entries ex_lib (save_entries ex_lib ex_state (save_lamport ex_state ex_fs))
     (state_dir_of ex_root) = Inr ex_index"
proof -
  have "state_dir_ok ex_fs (fo_root ex_state)" by code_simp
  moreover have "fo_root ex_state = ex_root" "fo_entries ex_state = ex_index"
    "ser_entries ex_lib (fo_entries ex_state) = Some [1]" "de_entries ex_lib [1] = Some (fo_entries ex_state)"
    by (simp_all add: ex_state_def ex_lib_def)
  ultimately show ?thesis using restart_restores_state [of ex_fs ex_state ex_lib "[1]"] by simp
qed

end
