(* ===== verification/Lil_Install.thy ===== *)
theory Lil_Install
  imports Lil_Persist
begin

text \<open>
  Installing remote entries safely (\<open>src/state.rs\<close>, \<open>src/entries.rs\<close>): containment of paths and
  symlink targets, permission bits, the state of the disk after an installation, and the echo a
  scan of it produces.
\<close>

section \<open>Containment\<close>

lemma map_filter_component_of:
  "\<forall>c \<in> set cs. c \<notin> {[], ''.'', ''..''} \<Longrightarrow> List.map_filter component_of cs = map Normal cs"
  by (induction cs) (auto simp: component_of_def List.map_filter_def)

lemma validate_remote_path_Inr:
  assumes "validate_remote_path p = Inr ()"
  shows "p \<noteq> []" "CHR 0x00 \<notin> set p" "CHR 0x5C \<notin> set p"
    "\<forall>c \<in> set (split_char CHR ''/'' p). c \<notin> {[], ''.'', ''..''} \<and> \<not> should_ignore_component c"
  using assms
  by (auto simp: validate_remote_path_def bad_remote_component_def list_ex_iff split: if_splits)

text \<open>
  C27. A remote path that passes validation names a file inside the folder: joined to the root it
  is the root followed by at least one name, each name a proper file name (not empty, not \<open>.\<close> or
  \<open>..\<close>, without slash, backslash or NUL), none of them the state directory or a built-in
  exclusion; lexical resolution from the root gives the same names.
\<close>

theorem validated_path_is_contained:
  assumes "validate_remote_path p = Inr ()"
  shows "\<exists>names. path_join root p = root @ names \<and> names \<noteq> [] \<and>
    resolve_components [] (path_components p) = Some names \<and>
    list_all (\<lambda>n. n \<noteq> [] \<and> n \<noteq> ''.'' \<and> n \<noteq> ''..'' \<and> n \<noteq> STATE_DIR \<and> \<not> should_ignore_component n \<and>
                 set n \<inter> {CHR ''/'', CHR 0x5C, CHR 0x00} = {}) names"
proof -
  let ?names = "split_char CHR ''/'' p"
  note v = validate_remote_path_Inr [OF assms]
  have "filter (\<lambda>c. c \<noteq> [] \<and> c \<noteq> ''.'') ?names = ?names"
    using v(4) by (intro filter_True) auto
  then have "path_join root p = root @ ?names" by (simp add: path_join_def)
  moreover have "path_components p = map Normal ?names"
  proof -
    have "hd ?names \<in> set ?names" by simp
    then have h: "hd ?names \<noteq> ''.''" "hd ?names \<noteq> []" using v(4) by blast+
    have "\<not> starts_with p ''/''"
      using h(2) by (cases p) (auto simp: starts_with_def)
    with h(1) v(4) show ?thesis
      by (simp add: path_components_def Let_def map_filter_component_of)
  qed
  then have "resolve_components [] (path_components p) = Some ?names"
    using resolve_components_normal [of "map Normal ?names" "[]"]
    by (auto simp: list_ex_iff inj_map_eq_map inj_def)
  moreover have "list_all (\<lambda>n. n \<noteq> [] \<and> n \<noteq> ''.'' \<and> n \<noteq> ''..'' \<and> n \<noteq> STATE_DIR \<and>
      \<not> should_ignore_component n \<and> set n \<inter> {CHR ''/'', CHR 0x5C, CHR 0x00} = {}) ?names"
  proof -
    have chars: "set n \<subseteq> set p" if "n \<in> set ?names" for n
      using that by (rule split_char_subset)
    have "n \<noteq> STATE_DIR" if "n \<in> set ?names" for n
      using v(4) that by (auto simp: should_ignore_component_def)
    with v chars show ?thesis
      unfolding list_all_iff by (intro ballI conjI) (use split_char_parts in \<open>fastforce+\<close>)
  qed
  ultimately show ?thesis by (intro exI [of _ ?names]) simp
qed

theorem validated_path_is_contained_witness:
  "\<exists>names. path_join ex_root ''d/b'' = ex_root @ names \<and> names \<noteq> []"
proof -
  have "validate_remote_path ''d/b'' = Inr ()" by code_simp
  from validated_path_is_contained [OF this, of ex_root] show ?thesis by blast
qed

text \<open>
  C28. A symlink target that passes validation leads strictly downwards: resolved from the
  directory that holds the link it never leaves that directory, whatever the directory is.
\<close>

theorem symlink_target_stays_below:
  assumes "validate_symlink_target t = Inr ()"
  shows "\<exists>ns. resolve_components base (path_components t) = Some (base @ ns) \<and> \<not> starts_with t ''/''"
  using assms resolve_components_normal [of "path_components t" base]
  by (auto simp: validate_symlink_target_Inr is_absolute_def)

theorem symlink_target_stays_below_witness:
  "\<exists>ns. resolve_components [''d''] (path_components ''x/y'') = Some ([''d''] @ ns)"
proof -
  have "validate_symlink_target ''x/y'' = Inr ()" by code_simp
  from symlink_target_stays_below [OF this, of "[''d'']"] show ?thesis by blast
qed

section \<open>Installing a file\<close>

lemma mode_masks:
  "(0xC00 :: u32) = push_bit 10 (mask 2)" "(0xFFF :: u32) = mask 12" "(0x3FF :: u32) = mask 10"
  by (code_simp)+

lemma sanitize_bits:
  "chmod_bits old (m AND NOT 0xC00) AND 0xC00 = 0"
  "chmod_bits old (m AND NOT 0xC00) AND 0x3FF = m AND 0x3FF"
  unfolding chmod_bits_def mode_masks
  by (rule bit_word_eqI; auto simp: bit_simps)+

lemma chmod_bits_same:
  assumes "m AND 0xC00 = 0" "m AND NOT 0xFFF = old AND NOT 0xFFF"
  shows "chmod_bits old (m AND NOT 0xC00) = m"
proof -
  have "m AND NOT 0xC00 = (m AND 0xC00) OR (m AND NOT 0xC00)" using assms(1) by simp
  also have "\<dots> = m" by (rule bit_word_eqI) (auto simp: bit_simps)
  finally have "m AND NOT 0xC00 = m" .
  moreover have "(m AND NOT 0xFFF) OR (m AND 0xFFF) = m"
    by (rule bit_word_eqI) (auto simp: bit_simps)
  ultimately show ?thesis using assms(2) by (simp add: chmod_bits_def)
qed

text \<open>The situation in which a downloaded file is installed: the parent of the destination and the
  directory of the temporary file are real directories, the temporary file holds the content, and
  the destination is not a directory.\<close>

definition ready_to_install :: "fs \<Rightarrow> abspath \<Rightarrow> abspath \<Rightarrow> bytes \<Rightarrow> u32 \<Rightarrow> int \<Rightarrow> bool" where
  "ready_to_install fs dest tmp c om t \<longleftrightarrow>
     dest \<noteq> [] \<and> tmp \<noteq> [] \<and> tmp \<noteq> dest \<and> real_dir fs (butlast dest) \<and> real_dir fs (butlast tmp) \<and>
     no_fault fs (butlast dest) \<and> no_fault fs dest \<and> no_fault fs tmp \<and>
     node_at fs tmp = Some (FsFile c om t) \<and> \<not> is_dir_node (node_at fs dest)"

lemma install_remote_file_real:
  assumes "ready_to_install fs dest tmp c om t" "path_join root (e_path remote) = dest" "e_mode remote = Some m"
  shows "\<exists>fs'. install_remote_file root remote tmp fs = (Inr (), fs') \<and>
    node_at fs' dest = Some (FsFile c (chmod_bits om (m AND NOT 0xC00)) t) \<and> node_at fs' tmp = None \<and>
    (\<forall>q. q \<noteq> dest \<longrightarrow> q \<noteq> tmp \<longrightarrow> node_at fs' q = node_at fs q) \<and> fs_now fs' = fs_now fs \<and>
    no_fault fs' = no_fault fs \<and> (\<forall>e. real_dir fs e \<longrightarrow> real_dir fs' e)"
proof -
  obtain d n td tn where dn: "dest = d @ [n]" "tmp = td @ [tn]"
    using assms(1) unfolding ready_to_install_def by (metis append_butlast_last_id)
  have r: "real_dir fs d" "real_dir fs td" "no_fault fs d" "no_fault fs (d @ [n])" "no_fault fs (td @ [tn])"
    "node_at fs (td @ [tn]) = Some (FsFile c om t)" "\<not> is_dir_node (node_at fs (d @ [n]))" "td @ [tn] \<noteq> d @ [n]"
    using assms(1) by (simp_all add: ready_to_install_def dn)
  let ?fs1 = "if node_at fs (d @ [n]) = None then fs else drop_node (d @ [n]) fs"
  let ?fs2 = "put_node (d @ [n]) (FsFile c om t) (drop_node (td @ [tn]) ?fs1)"
  let ?fs3 = "put_node (d @ [n]) (FsFile c (chmod_bits om (m AND NOT 0xC00)) t) ?fs2"
  have n1: "node_at ?fs1 q = (if q = d @ [n] then None else node_at fs q)" "no_fault ?fs1 = no_fault fs" for q
    by auto
  have rd1: "real_dir ?fs1 e" if "real_dir fs e" for e
    using that by (rule real_dir_frame) (use r(7) n1 in auto)
  have rd2: "real_dir ?fs2 e" if "real_dir fs e" for e
    using that by (rule real_dir_frame) (use r(6,7,8) n1 in \<open>auto split: if_splits\<close>)
  have "create_dir_all fs d = (Inr (), fs)" using r(1,3) by (simp add: create_dir_all_real)
  moreover have "remove_path_if_exists fs (d @ [n]) = (Inr (), ?fs1)" using r(1,4,7) by (rule remove_path_real)
  moreover have "rename ?fs1 (td @ [tn]) (d @ [n]) = (Inr (), ?fs2)"
    by (rule rename_real) (use rd1 r n1 in auto)
  moreover have "set_permissions ?fs2 (d @ [n]) (m AND NOT 0xC00) = (Inr (), ?fs3)"
    by (rule set_permissions_real) (use rd2 r n1 in auto)
  ultimately have "install_remote_file root remote tmp fs = (Inr (), ?fs3)"
    using assms(2,3)
    by (simp add: install_remote_file_def Let_def dn io_seq_def set_mode_def sanitize_remote_mode_def)
  moreover have "real_dir ?fs3 e" if "real_dir fs e" for e
    using rd2 [OF that] by (rule real_dir_frame) auto
  moreover have "node_at ?fs3 (d @ [n]) = Some (FsFile c (chmod_bits om (m AND NOT 0xC00)) t)"
    "node_at ?fs3 (td @ [tn]) = None"
    "\<And>q. q \<noteq> d @ [n] \<Longrightarrow> q \<noteq> td @ [tn] \<Longrightarrow> node_at ?fs3 q = node_at fs q"
    "no_fault ?fs3 = no_fault fs" "fs_now ?fs3 = fs_now fs"
    using r(8) by auto
  ultimately show ?thesis unfolding dn by blast
qed

text \<open>
  Installing a downloaded file over a missing or existing file succeeds, puts exactly the
  downloaded content at the destination, removes the temporary file and touches nothing else; the
  installed mode never has the setuid or setgid bit and keeps the other permission bits of the
  remote entry.
\<close>

theorem install_remote_file_effect:
  assumes "ready_to_install fs (path_join root (e_path remote)) tmp c om t" "e_mode remote = Some m"
  shows "\<exists>fs' mode. install_remote_file root remote tmp fs = (Inr (), fs') \<and>
    node_at fs' (path_join root (e_path remote)) = Some (FsFile c mode t) \<and>
    mode AND 0xC00 = 0 \<and> mode AND 0x3FF = m AND 0x3FF \<and> node_at fs' tmp = None \<and>
    (\<forall>q. q \<noteq> path_join root (e_path remote) \<and> q \<noteq> tmp \<longrightarrow> node_at fs' q = node_at fs q)"
  using install_remote_file_real [OF assms(1) refl assms(2)] sanitize_bits [of om m] by blast

definition ex_tmp :: abspath where
  "ex_tmp = [''r'', ''.lil'', ''recv-1'']"

lemma ex_ready: "ready_to_install ex_fs (path_join ex_root (e_path ex_remote)) ex_tmp [9, 9] 0x81A4 7"
  by code_simp

theorem install_remote_file_effect_witness:
  "\<exists>fs' mode. install_remote_file ex_root ex_remote ex_tmp ex_fs = (Inr (), fs') \<and>
     node_at fs' [''r'', ''d'', ''b''] = Some (FsFile [9, 9] mode 7)"
proof -
  have "e_mode ex_remote = Some 0x81A4" "path_join ex_root (e_path ex_remote) = [''r'', ''d'', ''b'']"
    by code_simp+
  with install_remote_file_effect [OF ex_ready, of "0x81A4"] show ?thesis by metis
qed

section \<open>Observing an unchanging file\<close>

lemma observe_attempt_hash:
  assumes "i < FILE_STABILITY_ATTEMPTS" "\<not> (w \<and> is_recently_modified (ev_now env i) md)"
    and "ev_lstat env i = Inr md" "md_type md = FtFile" "ev_hash env i = Inr h"
  shows "observe_attempt env w i md =
    Inr (Some \<lparr>of_content_hash = h, of_size = md_len md, of_mode = md_mode_opt md\<rparr>)"
  by (subst observe_attempt.simps) (use assms in \<open>auto simp: same_file_observation_def\<close>)

lemma observe_attempt_wait:
  assumes "i < FILE_STABILITY_ATTEMPTS" "w" "is_recently_modified (ev_now env i) md"
    and "ev_lstat env i = Inr md" "md_type md = FtFile"
  shows "observe_attempt env w i md = observe_attempt env w (Suc i) md"
  by (subst observe_attempt.simps) (use assms in simp)

lemma observe_still:
  assumes md: "symlink_metadata fs p = Inr md" "md_type md = FtFile" and h: "hash_file X fs p = Inr h"
  shows "observe_file_when_stable (still_env X fs p) md w =
    Inr (Some \<lparr>of_content_hash = h, of_size = md_len md, of_mode = md_mode_opt md\<rparr>)"
    (is "_ = ?res")
proof -
  let ?env = "still_env X fs p"
  have env: "ev_lstat ?env i = Inr md" "ev_hash ?env i = Inr h"
    "ev_now ?env i = fs_now fs + int i * FILE_STABILITY_PAUSE" for i
    using md h by (simp_all add: still_env_def)
  have old: "observe_attempt ?env w i md = ?res"
    if "i < FILE_STABILITY_ATTEMPTS" "\<not> is_recently_modified (ev_now ?env i) md" for i
    using observe_attempt_hash [of i w ?env md h] that env md by simp
  have step: "observe_attempt ?env w i md = ?res" if "observe_attempt ?env w (Suc i) md = ?res" "i < FILE_STABILITY_ATTEMPTS" for i
    using observe_attempt_hash [of i w ?env md h] observe_attempt_wait [of i w ?env md] that env md by metis
  have "\<not> is_recently_modified (ev_now ?env 4) md" if "is_recently_modified (ev_now ?env 0) md"
    using that env(3) [of 0] env(3) [of 4]
    by (auto simp: is_recently_modified_def FILE_STABILITY_PAUSE_def FILE_STABLE_AGE_def
        split: option.splits if_splits)
  then consider "\<not> is_recently_modified (ev_now ?env 0) md" | "\<not> is_recently_modified (ev_now ?env 4) md"
    by blast
  then have "observe_attempt ?env w 0 md = ?res"
  proof cases
    case 1
    then show ?thesis by (intro old) (simp_all add: FILE_STABILITY_ATTEMPTS_def)
  next
    case 2
    then have "observe_attempt ?env w 4 md = ?res" by (intro old) (simp_all add: FILE_STABILITY_ATTEMPTS_def)
    then have "observe_attempt ?env w 3 md = ?res" using step [of 3] by (simp add: FILE_STABILITY_ATTEMPTS_def)
    then have "observe_attempt ?env w 2 md = ?res" using step [of 2] by (simp add: FILE_STABILITY_ATTEMPTS_def numeral_eq_Suc)
    then have "observe_attempt ?env w 1 md = ?res" using step [of 1] by (simp add: FILE_STABILITY_ATTEMPTS_def numeral_eq_Suc)
    then show ?thesis using step [of 0] by (simp add: FILE_STABILITY_ATTEMPTS_def)
  qed
  then show ?thesis by (simp add: observe_file_when_stable_def)
qed

text \<open>
  Every file that does not change while it is observed is observed: the eight attempts with
  pauses of a quarter of a second outlast the one-second age a recently modified file has to
  reach, with or without waiting, and the result is its content hash, size and mode.
\<close>

theorem unchanging_file_is_observed:
  assumes "symlink_metadata fs p = Inr md" "md_type md = FtFile" "hash_file X fs p = Inr h"
  shows "observe_file_when_stable (still_env X fs p) md w =
    Inr (Some \<lparr>of_content_hash = h, of_size = md_len md, of_mode = md_mode_opt md\<rparr>)"
  using assms by (rule observe_still)

theorem unchanging_file_is_observed_witness:
  "observe_file_when_stable (still_env ex_lib ex_fs [''r'', ''a.txt''])
     (metadata_of (FsFile [1, 2, 3] 0x81A4 5)) True =
   Inr (Some \<lparr>of_content_hash = tail_hash [1, 2, 3], of_size = 3, of_mode = Some 0x81A4\<rparr>)"
proof -
  have "symlink_metadata ex_fs [''r'', ''a.txt''] = Inr (metadata_of (FsFile [1, 2, 3] 0x81A4 5))"
    "hash_file ex_lib ex_fs [''r'', ''a.txt''] = Inr (tail_hash [1, 2, 3])" by code_simp+
  from unchanging_file_is_observed [OF this(1) _ this(2), of True] show ?thesis
    by (simp add: md_mode_opt_def)
qed

lemma observe_attempt_stable:
  assumes "observe_attempt env w i before = Inr (Some obs)"
    and "i = 0 \<longrightarrow> before = start" "0 < i \<longrightarrow> ev_lstat env (i - 1) = Inr before"
  shows "\<exists>j prev md. j < FILE_STABILITY_ATTEMPTS \<and>
    (if j = 0 then prev = start else ev_lstat env (j - 1) = Inr prev) \<and>
    ev_hash env j = Inr (of_content_hash obs) \<and> ev_lstat env j = Inr md \<and> md_type md = FtFile \<and>
    same_file_observation prev md \<and> of_size obs = md_len md \<and> of_mode obs = md_mode_opt md \<and>
    (w \<longrightarrow> \<not> is_recently_modified (ev_now env j) prev)"
  using assms
proof (induction env w i before rule: observe_attempt.induct)
  case (1 env w i before)
  note unfold = "1.prems"(1) [unfolded observe_attempt.simps [of env w i before]]
  have i: "i < FILE_STABILITY_ATTEMPTS" using unfold by (auto split: if_splits)
  show ?case
  proof (cases "w \<and> is_recently_modified (ev_now env i) before")
    case True
    with unfold i obtain md where md: "ev_lstat env i = Inr md" "md_type md = FtFile"
      "observe_attempt env w (Suc i) md = Inr (Some obs)"
      by (auto split: if_splits sum.splits)
    show ?thesis by (rule "1.IH"(1)) (use i True md in auto)
  next
    case False
    with unfold i obtain h md where md: "ev_hash env i = Inr h" "ev_lstat env i = Inr md" "md_type md = FtFile"
      "if same_file_observation before md
       then obs = \<lparr>of_content_hash = h, of_size = md_len md, of_mode = md_mode_opt md\<rparr>
       else observe_attempt env w (Suc i) md = Inr (Some obs)"
      by (auto split: if_splits sum.splits)
    show ?thesis
    proof (cases "same_file_observation before md")
      case True
      with md False i "1.prems"(2,3) show ?thesis
        by (intro exI [of _ i] exI [of _ before] exI [of _ md]) auto
    next
      case no: False
      show ?thesis by (rule "1.IH"(2)) (use i False md no in auto)
    qed
  qed
qed

text \<open>
  C31. What an observation means when the file may change under it: the reported hash was read
  between two looks at the metadata that agree on size, modification time and mode (the look
  before the first attempt, or that of the previous attempt, and that of the same attempt); the
  reported size and mode are the agreed ones; and when the caller waits for recent files, the
  file had not been modified within the last second when it was hashed.
\<close>

theorem observed_file_was_stable:
  assumes "observe_file_when_stable env start w = Inr (Some obs)"
  shows "\<exists>j prev md. j < FILE_STABILITY_ATTEMPTS \<and>
    (if j = 0 then prev = start else ev_lstat env (j - 1) = Inr prev) \<and>
    ev_hash env j = Inr (of_content_hash obs) \<and> ev_lstat env j = Inr md \<and> md_type md = FtFile \<and>
    same_file_observation prev md \<and> of_size obs = md_len md \<and> of_mode obs = md_mode_opt md \<and>
    (w \<longrightarrow> \<not> is_recently_modified (ev_now env j) prev)"
  using assms unfolding observe_file_when_stable_def by (rule observe_attempt_stable) simp_all

theorem observed_file_was_stable_witness:
  "(let env = still_env ex_lib ex_fs [''r'', ''a.txt''] in
    \<exists>j. j < FILE_STABILITY_ATTEMPTS \<and> ev_hash env j = Inr (tail_hash [1, 2, 3]))"
proof -
  have "observe_file_when_stable (still_env ex_lib ex_fs [''r'', ''a.txt''])
      (metadata_of (FsFile [1, 2, 3] 0x81A4 5)) True =
    Inr (Some \<lparr>of_content_hash = tail_hash [1, 2, 3], of_size = 3, of_mode = Some 0x81A4\<rparr>)"
    by code_simp
  from observed_file_was_stable [OF this] show ?thesis unfolding Let_def by auto
qed

section \<open>No echo\<close>

text \<open>
  C29. A watcher event for a file that was just installed from a peer does not produce a new
  version: the scan observes exactly the state the index records, provided the entry describes the
  file (content hash, size, type bits) and carries no setuid or setgid bit, and the scan cache
  does not hold a wrong hash for it.
\<close>

theorem installed_file_makes_no_echo:
  assumes ready: "ready_to_install fs (path_join root (e_path remote)) tmp c om t"
    and mode: "e_mode remote = Some m" "m AND 0xC00 = 0" "m AND NOT 0xFFF = om AND NOT 0xFFF"
    and entry: "e_kind remote = File" "e_content_hash remote = Some (blake3 X c)"
      "e_symlink_target remote = None" "e_size remote = of_nat (length c)"
    and inst: "install_remote_file root remote tmp fs = (r, fs')"
    and idx: "fmlookup (fo_entries s) (e_path remote) = Some remote"
    and cache: "\<forall>cf. fmlookup (sc_files (fo_scan_cache s)) (e_path remote) = Some cf \<longrightarrow>
      cf_content_hash cf = blake3 X c"
    and ev: "apply_one_path X fs' (path_join root (e_path remote)) (e_path remote) pats (s, cs) = (r', s', cs')"
  shows "r' = Inr () \<and> cs' = cs \<and> fo_entries s' = fo_entries s \<and> fo_lamport s' = fo_lamport s"
proof (cases "should_ignore (e_path remote) pats")
  case True
  with ev show ?thesis by (simp add: apply_one_path_def)
next
  case False
  let ?dest = "path_join root (e_path remote)"
  obtain fs2 where fs2: "install_remote_file root remote tmp fs = (Inr (), fs2)"
    "node_at fs2 ?dest = Some (FsFile c (chmod_bits om (m AND NOT 0xC00)) t)"
    "no_fault fs2 = no_fault fs" "\<forall>e. real_dir fs e \<longrightarrow> real_dir fs2 e"
    using install_remote_file_real [OF ready refl mode(1)] by blast
  have fs': "fs' = fs2" using inst fs2(1) by simp
  obtain d n where dn: "?dest = d @ [n]"
    using ready unfolding ready_to_install_def by (metis append_butlast_last_id)
  have real: "real_dir fs' d" "no_fault fs' (d @ [n])"
    using ready fs2 fs' by (auto simp: ready_to_install_def dn)
  let ?md = "metadata_of (FsFile c m t)"
  have node: "node_at fs' (d @ [n]) = Some (FsFile c m t)"
    using fs2(2) fs' chmod_bits_same [OF mode(2,3)] by (simp add: dn)
  have md: "symlink_metadata fs' ?dest = Inr ?md" "hash_file X fs' ?dest = Inr (blake3 X c)"
    using symlink_metadata_real [OF real] hash_file_real [OF real node] node by (simp_all add: dn)
  let ?obs = "\<lparr>of_content_hash = blake3 X c, of_size = of_nat (length c), of_mode = Some m\<rparr>"
  have "\<exists>ca. observe_file_cached X fs' ?dest (e_path remote) ?md True (fo_scan_cache s) = (Inr (Some ?obs), ca)"
    using observe_still [OF md(1) _ md(2), of True] cache
    by (auto simp: observe_file_cached_def cache_lookup_def md_mode_opt_def Let_def
        split: option.splits if_splits)
  then obtain ca where obs: "observe_file_cached X fs' ?dest (e_path remote) ?md True (fo_scan_cache s) =
      (Inr (Some ?obs), ca)" by blast
  have "same_observed_state remote (file_entry (e_path remote) ?obs)"
    using entry mode(1) by (simp add: same_observed_state_def file_entry_def)
  then have "update_entry (e_path remote) (file_entry (e_path remote) ?obs) (s\<lparr>fo_scan_cache := ca\<rparr>, cs) =
      (s\<lparr>fo_scan_cache := ca\<rparr>, cs)"
    using idx by (simp add: update_entry_def)
  with ev False md(1) obs show ?thesis by (auto simp: apply_one_path_def Let_def)
qed

theorem installed_file_makes_no_echo_witness:
  "(let fs' = snd (install_remote_file ex_root ex_remote ex_tmp ex_fs);
        s = ex_state\<lparr>fo_entries := fmupd ''d/b'' ex_remote ex_index\<rparr>
    in fst (apply_one_path ex_lib fs' (path_join ex_root ''d/b'') ''d/b'' [] (s, [])) = Inr () \<and>
       snd (snd (apply_one_path ex_lib fs' (path_join ex_root ''d/b'') ''d/b'' [] (s, []))) = [])"
proof -
  let ?I = "install_remote_file ex_root ex_remote ex_tmp ex_fs"
  let ?s = "ex_state\<lparr>fo_entries := fmupd ''d/b'' ex_remote ex_index\<rparr>"
  let ?A = "apply_one_path ex_lib (snd ?I) (path_join ex_root ''d/b'') ''d/b'' [] (?s, [])"
  have e: "e_path ex_remote = ''d/b''" "e_mode ex_remote = Some 0x81A4" "e_kind ex_remote = File"
    "e_content_hash ex_remote = Some (blake3 ex_lib [9, 9])" "e_symlink_target ex_remote = None"
    "e_size ex_remote = of_nat (length [9 :: u8, 9])" "(0x81A4 :: u32) AND 0xC00 = 0"
    by (simp_all add: ex_remote_def ex_lib_def)
  have "fst ?A = Inr () \<and> snd (snd ?A) = [] \<and> fo_entries (fst (snd ?A)) = fo_entries ?s \<and>
      fo_lamport (fst (snd ?A)) = fo_lamport ?s"
    by (rule installed_file_makes_no_echo [OF ex_ready, of "0x81A4" ex_lib "fst ?I" "snd ?I" ?s "[]" "[]"])
       (use e in \<open>simp_all add: ex_state_def scan_cache_default_def\<close>)
  then show ?thesis by (simp add: Let_def)
qed

end
