(* ===== verification/Lil_Findings.thy ===== *)
theory Lil_Findings
  imports Lil_Install
begin

text \<open>
  Behaviour of \<open>src/state.rs\<close> that departs from what its comments and the protocol intend,
  exhibited by evaluating the model on concrete folders.
\<close>

section \<open>Errors in the middle of a batch\<close>

definition ex_orphan_tombstone :: entry where
  "ex_orphan_tombstone = tombstone_entry ''a.txt/old'' (ex_entry ''a.txt/old'' File 1) (Version 12 ''peer'')"

text \<open>
  A tombstone below a path that is a regular file here cannot be applied: the entry is
  acceptable, but looking it up fails with \<open>NotADirectory\<close>, which \<open>remove_path_if_exists\<close> does
  not take as already removed. The index is unchanged, so the next attempt fails in the same way.
\<close>

theorem tombstone_below_file_fails:
  "should_accept_remote ex_state ex_orphan_tombstone \<and>
   fst (apply_remote_entry_core ex_orphan_tombstone None ex_state ex_fs []) = Inl NotADirectory \<and>
   fst (snd (apply_remote_entry_core ex_orphan_tombstone None ex_state ex_fs [])) = ex_state"
proof -
  have a: "should_accept_remote ex_state ex_orphan_tombstone \<and> fo_root ex_state = ex_root \<and>
      validate_remote_path (e_path ex_orphan_tombstone) = Inr () \<and>
      install_remote ex_root ex_orphan_tombstone None ex_fs = (Inl NotADirectory, ex_fs)" by code_simp
  then show ?thesis by (simp add: apply_remote_entry_core_def)
qed

text \<open>
  An error in the middle of a batch leaves the index ahead of the trees: the entries before
  the failing one are in the index, but the trees were not updated, so the root hash still
  describes the old index and is announced as such.
\<close>

theorem failed_batch_leaves_stale_tree:
  "(let R = apply_remote_entries ex_lib [(ex_remote, Some ex_tmp), (ex_orphan_tombstone, None)] ex_state ex_fs;
        s' = fst (snd R)
    in fst R = Inl NotADirectory \<and> fmlookup (fo_entries s') ''d/b'' = Some ex_remote \<and>
       root_hash s' = root_hash ex_state \<and> root_hash s' \<noteq> ts_root_hash (derive_tree tail_hash (fo_entries s')))"
  by code_simp

section \<open>Links into the state directory\<close>

definition ex_link :: entry where
  "ex_link =
     \<lparr>e_path = ''x'', e_kind = Symlink, e_content_hash = None, e_symlink_target = Some ''.lil'',
      e_size = 0, e_mode = None, e_version = Version 10 ''peer''\<rparr>"

definition ex_through_link :: entry where
  "ex_through_link = ex_remote\<lparr>e_path := ''x/lamport''\<rparr>"

text \<open>
  Validation keeps remote paths out of the state directory by name only. A peer that first
  sends a symlink to \<open>.lil\<close> (a valid target) and then a file below that link replaces a file of
  the state directory: the batch is accepted and the clock file holds the peer's bytes.
\<close>

theorem link_reaches_state_dir:
  "(let R = apply_remote_entries ex_lib [(ex_link, None), (ex_through_link, Some ex_tmp)] ex_state ex_fs in
    \<not> isl (fst R) \<and> validate_remote_path (e_path ex_through_link) = Inr ())
   \<and> (let f = snd (install_remote ex_root ex_link None ex_fs);
          f' = snd (install_remote ex_root ex_through_link (Some ex_tmp) f)
      in read_file f' [''r'', ''.lil'', ''lamport''] = Inr [9, 9])"
  by code_simp

section \<open>Setuid files\<close>

definition ex_setuid :: entry where
  "ex_setuid = ex_remote\<lparr>e_mode := Some 0x89ED\<rparr>"

text \<open>
  A remote file with the setuid bit is installed without it, but recorded with it: the next
  event for the file reports a change with a new version of this node, whose mode lacks the bit.
  The new version then replaces the original one at its origin.
\<close>

theorem setuid_entry_echoes:
  "(let (r, s1, f, cp) = apply_remote_entry_core ex_setuid (Some ex_tmp) ex_state ex_fs [];
        (r2, s2, cs) = apply_one_path ex_lib f [''r'', ''d'', ''b''] ''d/b'' [] (s1, [])
    in map (\<lambda>c. (c_path c, e_mode (c_new c), e_version (c_new c))) cs =
         [(''d/b'', Some 0x81ED, Version 10 ''n'')] \<and>
       e_version ex_setuid < Version 10 ''n'')"
  by code_simp

section \<open>Rescans are not saved\<close>

text \<open>
  A rescan (the poll mode, or a change of \<open>.nolil\<close>) advances the clock and reports changes
  without saving either: a restart from the file system it leaves resumes with a clock below
  versions that were already announced, which is what the comment at start-up sets out to exclude.
\<close>

theorem rescan_is_not_saved:
  "(let fs0 = save_lamport ex_state ex_fs;
        (r, s', fs') = rescan ex_lib ex_state fs0;
        t = loaded_state ex_lib ex_root ''n'' ex_index fs'
    in \<not> isl r \<and> fo_lamport t = 3 \<and> fo_lamport t < fo_lamport s' \<and>
       list_ex (\<lambda>c. fo_lamport t < v_lamport (e_version (c_new c))) (projr r))"
  by code_simp

section \<open>The end of the clock\<close>

text \<open>
  The clock takes over the Lamport value of any accepted entry and wraps: after one entry with
  the largest value, the next local change is issued with version 0, older than everything, and
  peers reject it.
\<close>

theorem clock_wraps_after_largest_value:
  "(let s1 = snd (record_remote (ex_remote\<lparr>e_version := Version (- 1) ''peer''\<rparr>) ex_state);
        (v, s2) = next_version s1
    in v = Version 0 ''n'' \<and> v < e_version ex_remote \<and>
       \<not> should_accept_remote s1 (ex_remote\<lparr>e_version := v\<rparr>))"
  by code_simp

end
