(* ===== verification/Lil_Fuel.thy ===== *)
theory Lil_Fuel
  imports Lil_Example Lil_FsFacts
begin

text \<open>
  The depth bound of the two recursions over a directory tree, \<open>scan_dir\<close> (\<open>src/scan.rs\<close>) and
  \<open>make_dir_tree_writable\<close> (\<open>src/state.rs\<close>): the bound the model gives them, the depth of the
  file system, is never what ends them. They descend into directories only, never through a link,
  so each level of the recursion is one level of the tree.
\<close>

section \<open>Depth\<close>

definition dirs_within :: "nat \<Rightarrow> fs \<Rightarrow> bool" where
  "dirs_within d fs \<longleftrightarrow> (\<forall>q. is_dir_node (node_at fs q) \<longrightarrow> length q < d)"

lemma fold_depth_ge_start: "b \<le> fold (\<lambda>k n. max (length k) n) xs (b :: nat)"
  by (induction xs arbitrary: b) (auto intro: le_trans [OF max.cobounded2])

lemma fold_depth_ge: "x \<in> set xs \<Longrightarrow> length x \<le> fold (\<lambda>k n. max (length k) n) xs (b :: nat)"
  by (induction xs arbitrary: b) (auto intro: le_trans [OF max.cobounded1 fold_depth_ge_start])

lemma scan_fuel_dirs: "dirs_within (scan_fuel fs) fs"
  unfolding dirs_within_def scan_fuel_def
  by (auto simp: node_at_def is_dir_node_iff less_Suc_eq_le split: if_splits intro!: fold_depth_ge fmdom'I)

lemma walk_into_dir:
  assumes "walk n fs cur cs = Inr q" "node_at fs q \<noteq> None" "is_dir_node (node_at fs (q @ [x]))"
  shows "walk n fs cur (cs @ [Normal x]) = Inr (q @ [x])"
  using assms
proof (induction n fs cur cs rule: walk.induct)
  case (1 n fs cur)
  then show ?case by (auto simp: is_dir_node_iff)
next
  case (5 n fs cur y cs)
  show ?case
  proof (cases "node_at fs (cur @ [y])")
    case None
    with 5 show ?thesis by (auto split: if_splits)
  next
    case (Some nd)
    with 5 show ?thesis by (cases nd; cases n) auto
  qed
qed auto

lemma follow_into_dir:
  "follow fs d = Inr q \<Longrightarrow> node_at fs q \<noteq> None \<Longrightarrow> is_dir_node (node_at fs (q @ [x])) \<Longrightarrow> follow fs (d @ [x]) = Inr (q @ [x])"
  using walk_into_dir [of MAX_LINKS fs "[]" "map Normal d" q x] by (simp add: follow_def)

text \<open>The path of a directory that is listed, and of the directories in it.\<close>

definition listed :: "fs \<Rightarrow> abspath \<Rightarrow> abspath \<Rightarrow> bool" where
  "listed fs p q \<longleftrightarrow> follow fs p = Inr q \<and> is_dir_node (node_at fs q)"

lemma read_dir_children:
  assumes "read_dir fs p = Inr children"
  shows "\<exists>q. listed fs p q" and "\<forall>c \<in> set children. \<exists>x. c = p @ [x]"
  using assms by (auto simp: read_dir_def stat_node_def at_node_def fault_def and_then_def listed_def is_dir_node_iff
      split: sum.splits option.splits fs_node.splits)

lemma metadata_dir: "md_type (metadata_of nd) = FtDir \<longleftrightarrow> (\<exists>m. nd = FsDir m)"
  by (cases nd) simp_all

lemma listed_child:
  assumes "listed fs p q" "symlink_metadata fs (p @ [x]) = Inr md" "md_type md = FtDir"
  shows "listed fs (p @ [x]) (q @ [x])"
proof -
  have "is_dir_node (node_at fs (q @ [x]))"
    using assms by (auto simp: symlink_metadata_def lstat_node_def nofollow_def at_node_def fault_def and_then_def listed_def
        is_dir_node_iff metadata_dir split: sum.splits option.splits)
  moreover have "node_at fs q \<noteq> None" using assms(1) by (auto simp: listed_def is_dir_node_iff)
  ultimately show ?thesis using assms(1) follow_into_dir by (simp add: listed_def)
qed

section \<open>The scan\<close>

lemma try_for_cong: "(\<And>x s. x \<in> set xs \<Longrightarrow> f x s = g x s) \<Longrightarrow> try_for f xs s = try_for g xs s"
  by (induction xs arbitrary: s) (auto split: prod.splits sum.splits)

lemma scan_child_cong:
  assumes "\<And>md a. symlink_metadata fs p = Inr md \<Longrightarrow> md_type md = FtDir \<Longrightarrow> f p a = g p a"
  shows "scan_child f X fs root pats p a = scan_child g X fs root pats p a"
  using assms by (auto simp: scan_child_def split: sum.split file_type.split)

lemma scan_dir_depth:
  assumes "dirs_within d fs" "listed fs p q" "d \<le> n + length q" "d \<le> m + length q"
  shows "scan_dir n X fs root pats p a = scan_dir m X fs root pats p a"
  using assms(2-)
proof (induction n arbitrary: m p q a)
  case 0
  then show ?case using assms(1) by (auto simp: listed_def dirs_within_def)
next
  case (Suc n)
  have "length q < d" using assms(1) Suc.prems(1) by (auto simp: listed_def dirs_within_def)
  with Suc.prems(3) obtain k where m: "m = Suc k" by (cases m) auto
  have "scan_child (scan_dir n X fs root pats) X fs root pats c b = scan_child (scan_dir k X fs root pats) X fs root pats c b"
    if r: "read_dir fs p = Inr children" and c: "c \<in> set children" for children c b
  proof -
    obtain x where x: "c = p @ [x]" using read_dir_children(2) [OF r] c by blast
    show ?thesis
      by (rule scan_child_cong, rule Suc.IH [of c "q @ [x]"]) (use Suc.prems m x in \<open>auto intro: listed_child\<close>)
  qed
  then show ?case by (auto simp: m split: sum.split intro!: try_for_cong)
qed

lemma scan_fuel_enough:
  assumes "scan_fuel fs \<le> n"
  shows "scan_dir n X fs root pats p a = scan_dir (scan_fuel fs) X fs root pats p a"
proof (cases "read_dir fs p")
  case (Inl e)
  then show ?thesis using assms by (cases n; cases "scan_fuel fs") (simp_all add: scan_fuel_def)
next
  case (Inr children)
  then obtain q where "listed fs p q" using read_dir_children(1) by blast
  from scan_dir_depth [OF scan_fuel_dirs this, of n "scan_fuel fs"] assms show ?thesis by simp
qed

section \<open>Making a tree writable\<close>

text \<open>What the walk cares about: everything but the mode bits of directories.\<close>

definition shape :: "fs \<Rightarrow> abspath \<Rightarrow> fs_node option" where
  "shape fs q = (case node_at fs q of Some (FsDir m) \<Rightarrow> Some (FsDir 0) | nd \<Rightarrow> nd)"

definition same_shape :: "fs \<Rightarrow> fs \<Rightarrow> bool" where
  "same_shape fs fs' \<longleftrightarrow> shape fs = shape fs'"

lemma shape_cases:
  "node_at fs q = None \<longleftrightarrow> shape fs q = None"
  "is_dir_node (node_at fs q) \<longleftrightarrow> shape fs q = Some (FsDir 0)"
  by (auto simp: shape_def is_dir_node_iff split: option.splits fs_node.splits)

lemma walk_shape:
  assumes "same_shape fs fs'"
  shows "walk n fs cur cs = walk n fs' cur cs"
  using assms
proof (induction n fs cur cs rule: walk.induct)
  case (5 n fs cur y cs)
  have "shape fs (cur @ [y]) = shape fs' (cur @ [y])" and "is_dir_node (node_at fs cur) = is_dir_node (node_at fs' cur)"
    using 5 by (simp_all add: same_shape_def shape_cases)
  with 5 show ?case
    by (cases "node_at fs (cur @ [y])"; cases "node_at fs' (cur @ [y])"; cases n)
      (auto simp: shape_def split: fs_node.splits)
qed auto

lemma listed_shape: "same_shape fs fs' \<Longrightarrow> listed fs p q \<Longrightarrow> listed fs' p q"
  by (simp add: listed_def follow_def walk_shape [of fs fs'] shape_cases(2) same_shape_def)

lemma dirs_within_shape: "same_shape fs fs' \<Longrightarrow> dirs_within d fs \<Longrightarrow> dirs_within d fs'"
  by (simp add: dirs_within_def shape_cases(2) same_shape_def)

lemma same_shape_trans: "same_shape a b \<Longrightarrow> same_shape b c \<Longrightarrow> same_shape a c"
  by (simp add: same_shape_def)

lemma set_mode_dir_shape:
  assumes "listed fs p q"
  shows "same_shape fs (snd (set_mode fs p m))"
proof (cases m)
  case (Some k)
  obtain old where "node_at fs q = Some (FsDir old)" using assms by (auto simp: listed_def is_dir_node_iff)
  with assms Some show ?thesis
    by (cases "q = []") (auto simp: set_mode_def set_permissions_def stat_node_def at_node_def listed_def and_then_def with_fs_def fault_def
        same_shape_def shape_def fun_eq_iff node_at_def put_node_def split: option.splits)
qed (simp add: set_mode_def same_shape_def)

lemma try_for_both:
  assumes "\<And>x s. x \<in> set xs \<Longrightarrow> R s \<Longrightarrow> f x s = g x s \<and> R (snd (g x s))" "R s"
  shows "try_for f xs s = try_for g xs s \<and> R (snd (try_for g xs s))"
  using assms
proof (induction xs arbitrary: s)
  case (Cons x xs)
  obtain r t where g: "g x s = (r, t)" by (cases "g x s")
  from Cons.prems(1) [of x s] Cons.prems(2) g have "f x s = (r, t)" "R t" by auto
  moreover have "try_for f xs t = try_for g xs t \<and> R (snd (try_for g xs t))" using Cons.IH Cons.prems(1) \<open>R t\<close> by simp
  ultimately show ?case using g by (auto split: sum.split)
qed simp

lemma make_writable_depth:
  assumes "dirs_within d fs" "listed fs p q" "d \<le> n + length q" "d \<le> m + length q"
  shows "make_dir_tree_writable n p fs = make_dir_tree_writable m p fs \<and> same_shape fs (snd (make_dir_tree_writable m p fs))"
  using assms
proof (induction n arbitrary: m p q fs)
  case 0
  then show ?case by (auto simp: listed_def dirs_within_def)
next
  case (Suc n)
  have "length q < d" using Suc.prems by (auto simp: listed_def dirs_within_def)
  with Suc.prems(4) obtain k where m: "m = Suc k" by (cases m) auto
  define body where "body j c t = (case symlink_metadata t c of Inl e \<Rightarrow> (Inl e, t)
      | Inr cm \<Rightarrow> if md_type cm = FtDir then make_dir_tree_writable j c t else (Inr (), t))" for j c t
  have step: "body n c t = body k c t \<and> same_shape fs (snd (body k c t))"
    if t: "same_shape fs t" and c: "c = p @ [x]" for c x t
  proof (cases "\<exists>cm. symlink_metadata t c = Inr cm \<and> md_type cm = FtDir")
    case True
    then have "listed t c (q @ [x])" using listed_child [OF listed_shape [OF t Suc.prems(2)]] c by blast
    from Suc.IH [OF dirs_within_shape [OF t Suc.prems(1)] this, of k] Suc.prems m True t same_shape_trans show ?thesis
      by (auto simp: body_def)
  qed (auto simp: body_def t split: sum.split)
  have tree: "try_for (body n) cs t = try_for (body k) cs t \<and> same_shape fs (snd (try_for (body k) cs t))"
    if "same_shape fs t" "\<forall>c \<in> set cs. \<exists>x. c = p @ [x]" for cs t
    by (rule try_for_both [where R = "same_shape fs"]) (use that step in auto)
  have mode: "set_mode fs p w = (r, t) \<Longrightarrow> same_shape fs t" for w r t
    using set_mode_dir_shape [OF Suc.prems(2), of w] by simp
  have refl: "same_shape fs fs" by (simp add: same_shape_def)
  show ?case
  proof (cases "symlink_metadata fs p")
    case (Inr md)
    obtain r t where t: "set_mode fs p (Some (md_mode md OR 0x1C0)) = (r, t)" by fastforce
    from tree [OF mode [OF t]] read_dir_children(2) [of t p] mode [OF t] Inr t refl show ?thesis
      unfolding m make_dir_tree_writable.simps body_def [symmetric] io_seq_def by (auto split: sum.split)
  qed (simp add: m refl)
qed

lemma lstat_dir_listed:
  assumes "symlink_metadata fs p = Inr md" "md_type md = FtDir"
  shows "\<exists>q. listed fs p q"
proof (cases p rule: rev_cases)
  case Nil
  then show ?thesis by (auto simp: listed_def follow_def node_at_def)
next
  case (snoc d x)
  then obtain q where "listed fs d q"
    using assms by (auto simp: symlink_metadata_def lstat_node_def nofollow_def and_then_def listed_def
        split: sum.splits option.splits if_splits)
  with listed_child assms snoc show ?thesis by blast
qed

lemma make_writable_enough:
  assumes "scan_fuel fs \<le> n"
  shows "make_dir_tree_writable n p fs = make_dir_tree_writable (scan_fuel fs) p fs"
proof (cases "\<exists>md. symlink_metadata fs p = Inr md \<and> md_type md = FtDir")
  case True
  then obtain q where "listed fs p q" using lstat_dir_listed by blast
  from make_writable_depth [OF scan_fuel_dirs this, of n "scan_fuel fs"] assms show ?thesis by simp
next
  case False
  then show ?thesis using assms by (cases n; cases "scan_fuel fs") (auto simp: scan_fuel_def split: sum.split)
qed

section \<open>The bound is enough\<close>

text \<open>
  C23. The recursions over a directory tree end by themselves: bounded by the depth of the file
  system, the scan of a folder and the walk that makes a tree writable before it is removed give
  what they give with any larger bound, whatever the tree contains and even when its path leads through links.
\<close>

theorem tree_recursions_end:
  assumes "scan_fuel fs \<le> n"
  shows "scan_dir n X fs root pats p a = scan_dir (scan_fuel fs) X fs root pats p a \<and>
    make_dir_tree_writable n p fs = make_dir_tree_writable (scan_fuel fs) p fs"
  using scan_fuel_enough [OF assms] make_writable_enough [OF assms] by blast

definition ex_acc :: scan_acc where
  "ex_acc = \<lparr>sa_entries = fmempty, sa_unstable = {||}, sa_cache = scan_cache_default\<rparr>"

theorem tree_recursions_end_witness:
  "scan_dir 9 ex_lib ex_fs [''r''] [] [''r''] ex_acc = scan_dir 4 ex_lib ex_fs [''r''] [] [''r''] ex_acc \<and>
   make_dir_tree_writable 9 [''r'', ''d''] ex_fs = make_dir_tree_writable 4 [''r'', ''d''] ex_fs"
proof -
  have f: "scan_fuel ex_fs = 4" by code_simp
  have n: "scan_fuel ex_fs \<le> 9" unfolding f by simp
  show ?thesis
    using tree_recursions_end [OF n, of ex_lib "[''r'']" "[]" "[''r'']" ex_acc]
      tree_recursions_end [OF n, of ex_lib "[''r'']" "[]" "[''r'', ''d'']" ex_acc]
    unfolding f by (intro conjI) (erule conjunct1, erule conjunct2)
qed

end
