(* ===== verification/Lil_Identity.thy ===== *)
theory Lil_Identity
  imports Lil_Install
begin

text \<open>
  Node identity, \<open>src/identity.rs\<close>: the textual form of a \<open>NodeId\<close> and its parser, and the key
  file. Ed25519 and the system's random source are parameters: \<open>vk\<close> maps a secret key to its
  verifying key, and the random bytes of a call are an argument.
\<close>

section \<open>Node ids\<close>

type_synonym node_id = bytes

definition node_id_to_string :: "node_id \<Rightarrow> string" where
  "node_id_to_string n = concat (map hex_byte n)"

definition hex_digit_value :: "char \<Rightarrow> nat option" where
  "hex_digit_value c =
     (let v = (of_char c :: nat) in
      if 48 \<le> v \<and> v \<le> 57 then Some (v - 48)
      else if 97 \<le> v \<and> v \<le> 102 then Some (v - 87)
      else if 65 \<le> v \<and> v \<le> 70 then Some (v - 55) else None)"

text \<open>\<open>u8::from_str_radix(s, 16)\<close> on a two-character string; a leading plus sign is allowed.\<close>

definition from_str_radix16 :: "char \<Rightarrow> char \<Rightarrow> u8 option" where
  "from_str_radix16 a b =
     (if a = CHR ''+'' then map_option of_nat (hex_digit_value b)
      else case (hex_digit_value a, hex_digit_value b) of
             (Some x, Some y) \<Rightarrow> Some (of_nat (16 * x + y)) | _ \<Rightarrow> None)"

fun parse_hex_chunks :: "string \<Rightarrow> bytes option" where
  "parse_hex_chunks (a # b # rest) =
     (if from_utf8 (as_bytes [a, b]) = None then None
      else case from_str_radix16 a b of
             None \<Rightarrow> None
           | Some v \<Rightarrow> map_option ((#) v) (parse_hex_chunks rest))"
| "parse_hex_chunks _ = Some []"

definition parse_node_id :: "string \<Rightarrow> node_id io_result" where
  "parse_node_id value =
     (if length value \<noteq> 64 then Inl InvalidInput
      else case parse_hex_chunks value of None \<Rightarrow> Inl InvalidInput | Some b \<Rightarrow> Inr b)"

lemma hex_digit_value_hex_digit: "n < 16 \<Longrightarrow> hex_digit_value (hex_digit n) = Some n"
proof -
  have "\<forall>n \<in> {0..<16}. hex_digit_value (hex_digit n) = Some n" by code_simp
  then show "n < 16 \<Longrightarrow> hex_digit_value (hex_digit n) = Some n" by simp
qed

lemma hex_digit_ascii: "n < 16 \<Longrightarrow> hex_digit n \<noteq> CHR ''+'' \<and> byte_of_char (hex_digit n) < 0x80"
proof -
  have "\<forall>n \<in> {0..<16}. hex_digit n \<noteq> CHR ''+'' \<and> byte_of_char (hex_digit n) < 0x80" by code_simp
  then show "n < 16 \<Longrightarrow> hex_digit n \<noteq> CHR ''+'' \<and> byte_of_char (hex_digit n) < 0x80" by simp
qed

lemma utf8_valid_ascii: "list_all (\<lambda>b. b < 0x80) bs \<Longrightarrow> utf8_valid bs"
  by (induction bs) (simp_all add: utf8_tail_def)

lemma parse_hex_chunks_hex: "parse_hex_chunks (concat (map hex_byte bs)) = Some bs"
proof (induction bs)
  case (Cons b bs)
  have "unat b < 256" using unsigned_less [of b] by simp
  then have d: "unat b div 16 < 16" "unat b mod 16 < 16" by auto
  have "utf8_valid (as_bytes [hex_digit (unat b div 16), hex_digit (unat b mod 16)])"
    by (rule utf8_valid_ascii) (use hex_digit_ascii d in \<open>simp add: as_bytes_def\<close>)
  then have "from_utf8 (as_bytes [hex_digit (unat b div 16), hex_digit (unat b mod 16)]) \<noteq> None"
    by (simp add: from_utf8_def del: utf8_valid.simps)
  moreover have "from_str_radix16 (hex_digit (unat b div 16)) (hex_digit (unat b mod 16)) = Some b"
    using hex_digit_ascii [OF d(1)] hex_digit_value_hex_digit [OF d(1)] hex_digit_value_hex_digit [OF d(2)]
    by (simp add: from_str_radix16_def)
  ultimately show ?case using Cons by (simp add: hex_byte_def)
qed simp

lemma length_node_id_to_string [simp]: "length (node_id_to_string n) = 2 * length n"
  unfolding node_id_to_string_def by (induction n) (auto simp: hex_byte_def)

lemma parse_node_id_display: "length n = 32 \<Longrightarrow> parse_node_id (node_id_to_string n) = Inr n"
  by (simp add: parse_node_id_def) (simp add: node_id_to_string_def parse_hex_chunks_hex)

text \<open>
  Printing a node id and parsing it back gives the same id, so distinct nodes have distinct
  printed ids.
\<close>

theorem node_id_roundtrip:
  assumes "length n = 32"
  shows "parse_node_id (node_id_to_string n) = Inr n \<and>
    (length n' = 32 \<and> node_id_to_string n' = node_id_to_string n \<longrightarrow> n' = n)"
  using parse_node_id_display [of n] parse_node_id_display [of n'] assms by auto

theorem node_id_roundtrip_witness:
  "parse_node_id (node_id_to_string (replicate 32 171)) = Inr (replicate 32 171)"
  using node_id_roundtrip [of "replicate 32 171"] by simp

section \<open>The key file\<close>

definition load_or_create_identity :: "fs \<Rightarrow> abspath \<Rightarrow> bytes io_result \<Rightarrow> bytes io_result \<times> fs" where
  "load_or_create_identity fs path random =
     (case read_file fs path of
        Inr b \<Rightarrow> (if length b = 32 then Inr b else Inl Other, fs)
      | Inl _ \<Rightarrow>
          (case create_dir_all fs (butlast path) of
             (Inl e, fs1) \<Rightarrow> (Inl e, fs1)
           | (Inr _, fs1) \<Rightarrow>
               (case random of
                  Inl _ \<Rightarrow> (Inl Other, fs1)
                | Inr b \<Rightarrow>
                    (case write_file fs1 path b of
                       (Inl e, fs2) \<Rightarrow> (Inl e, fs2)
                     | (Inr _, fs2) \<Rightarrow> (Inr b, fs2)))))"

definition identity_node_id :: "(bytes \<Rightarrow> bytes) \<Rightarrow> bytes \<Rightarrow> node_id" where
  "identity_node_id vk key = vk key"

text \<open>
  The identity is stable: once a key has been created, every later start loads the same key,
  whatever the random source would give, and leaves the file system alone.
\<close>

theorem identity_is_stable:
  assumes "real_dir fs d" "no_fault fs d" "no_fault fs (d @ [n])" "node_at fs (d @ [n]) = None"
    and "length key = 32" "load_or_create_identity fs (d @ [n]) (Inr key) = (r, fs')"
  shows "r = Inr key \<and> load_or_create_identity fs' (d @ [n]) random = (Inr key, fs')"
proof -
  have "read_file fs (d @ [n]) = Inl NotFound"
    using assms by (simp add: read_file_def stat_real and_then_def)
  moreover have "create_dir_all fs d = (Inr (), fs)" using assms by (simp add: create_dir_all_real)
  moreover obtain m where w: "write_file fs (d @ [n]) key = (Inr (), put_node (d @ [n]) (FsFile key m (fs_now fs)) fs)"
    using write_file_real [OF assms(1,3), of key] assms(4) by blast
  ultimately have "r = Inr key" "fs' = put_node (d @ [n]) (FsFile key m (fs_now fs)) fs"
    using assms(6) by (simp_all add: load_or_create_identity_def)
  moreover have "read_file (put_node (d @ [n]) (FsFile key m (fs_now fs)) fs) (d @ [n]) = Inr key"
    by (rule read_file_real) (use assms in \<open>auto intro!: real_dir_put\<close>)
  ultimately show ?thesis using assms(5) by (simp add: load_or_create_identity_def)
qed

theorem identity_is_stable_witness:
  "(let R = load_or_create_identity ex_fs [''r'', ''.lil'', ''key''] (Inr (replicate 32 5)) in
    load_or_create_identity (snd R) [''r'', ''.lil'', ''key''] (Inl Other) = (Inr (replicate 32 5), snd R))"
proof -
  let ?R = "load_or_create_identity ex_fs [''r'', ''.lil'', ''key''] (Inr (replicate 32 5))"
  have "real_dir ex_fs [''r'', ''.lil''] \<and> no_fault ex_fs [''r'', ''.lil''] \<and>
      no_fault ex_fs ([''r'', ''.lil''] @ [''key'']) \<and> node_at ex_fs ([''r'', ''.lil''] @ [''key'']) = None"
    by code_simp
  then show ?thesis
    using identity_is_stable [of ex_fs "[''r'', ''.lil'']" "''key''" "replicate 32 5" "fst ?R" "snd ?R" "Inl Other"]
    by (simp add: Let_def)
qed

end
