(* ===== verification/Lil_Group.thy ===== *)
theory Lil_Group
  imports Lil_Identity Lil_Merge
begin

text \<open>
  Group membership, \<open>src/group.rs\<close>: the ledger of members with its Lamport values, the merge of
  ledgers received from peers, and one-time invitations. JSON is a parameter (the record \<open>json\<close>).
  Methods that persist return the updated state also when saving fails, as the source does.
\<close>

section \<open>Data\<close>

datatype member_status = Active | Removed

record member_entry =
  m_id :: string
  m_status :: member_status
  m_lamport :: u64

record peers_file =
  pf_topic_id :: "string option"
  pf_members :: "member_entry list"

record group_state =
  g_path :: abspath
  g_local_id :: string
  g_members :: "(string, member_entry) fmap"

record member_merge =
  mm_changed :: bool
  mm_removed_self :: bool
  mm_active_peers :: "node_id list"

record pending_invite =
  pi_secret_hash :: string
  pi_expires_at_ms :: u64

record json =
  peers_to_json :: "peers_file \<Rightarrow> bytes option"
  peers_from_json :: "string \<Rightarrow> peers_file option"
  invites_to_json :: "pending_invite list \<Rightarrow> bytes option"
  invites_from_json :: "string \<Rightarrow> pending_invite list option"

section \<open>The ledger\<close>

definition read_to_string :: "fs \<Rightarrow> abspath \<Rightarrow> string io_result" where
  "read_to_string fs p =
     and_then (read_file fs p) (\<lambda>c. case from_utf8 c of None \<Rightarrow> Inl InvalidData | Some s \<Rightarrow> Inr s)"

definition save_peers_file ::
    "json \<Rightarrow> fs \<Rightarrow> abspath \<Rightarrow> member_entry list \<Rightarrow> unit io_result \<times> fs" where
  "save_peers_file J fs path members =
     io_seq (create_dir_all fs (butlast path))
       (\<lambda>fs1. case peers_to_json J \<lparr>pf_topic_id = None, pf_members = sort_key m_id members\<rparr> of
                None \<Rightarrow> (Inl Other, fs1)
              | Some b \<Rightarrow> write_atomic fs1 path b)"

definition group_members :: "group_state \<Rightarrow> member_entry list" where
  "group_members g = fm_values (g_members g)"

definition group_persist :: "json \<Rightarrow> group_state \<Rightarrow> fs \<Rightarrow> unit io_result \<times> fs" where
  "group_persist J g fs = save_peers_file J fs (g_path g) (group_members g)"

definition next_member_lamport :: "(string, member_entry) fmap \<Rightarrow> u64" where
  "next_member_lamport ms = fold (\<lambda>e m. max m (m_lamport e)) (fm_values ms) 0 + 1"

definition load_or_init_group ::
    "json \<Rightarrow> fs \<Rightarrow> abspath \<Rightarrow> node_id \<Rightarrow> group_state io_result \<times> fs" where
  "load_or_init_group J fs path local_node =
     (let local_id = node_id_to_string local_node;
          loaded = (case read_to_string fs path of
                      Inr contents \<Rightarrow> (case peers_from_json J contents of
                                         None \<Rightarrow> Inl Other | Some f \<Rightarrow> Inr (Some f))
                    | Inl e \<Rightarrow> if e = NotFound then Inr None else Inl e)
      in case loaded of
           Inl e \<Rightarrow> (Inl e, fs)
         | Inr file \<Rightarrow>
             let ms0 = (case file of None \<Rightarrow> fmempty
                        | Some f \<Rightarrow> fm_collect (map (\<lambda>e. (m_id e, e)) (pf_members f)));
                 ms = (if local_id |\<in>| fmdom ms0 then ms0
                       else fmupd local_id \<lparr>m_id = local_id, m_status = Active,
                                             m_lamport = next_member_lamport ms0\<rparr> ms0);
                 g = \<lparr>g_path = path, g_local_id = local_id, g_members = ms\<rparr>
             in case group_persist J g fs of
                  (Inl e, fs1) \<Rightarrow> (Inl e, fs1)
                | (Inr _, fs1) \<Rightarrow> (Inr g, fs1))"

definition active_peers_from_members :: "string \<Rightarrow> member_entry list \<Rightarrow> node_id list" where
  "active_peers_from_members local_id members =
     List.map_filter (\<lambda>e. case parse_node_id (m_id e) of Inl _ \<Rightarrow> None | Inr n \<Rightarrow> Some n)
       (filter (\<lambda>e. m_status e = Active) (filter (\<lambda>e. m_id e \<noteq> local_id) members))"

definition active_peers :: "group_state \<Rightarrow> node_id list" where
  "active_peers g = active_peers_from_members (g_local_id g) (group_members g)"

definition active_peer_ids :: "group_state \<Rightarrow> string list" where
  "active_peer_ids g =
     map m_id (filter (\<lambda>e. m_status e = Active) (filter (\<lambda>e. m_id e \<noteq> g_local_id g) (group_members g)))"

definition is_active_member :: "group_state \<Rightarrow> node_id \<Rightarrow> bool" where
  "is_active_member g peer =
     (case fmlookup (g_members g) (node_id_to_string peer) of
        None \<Rightarrow> False | Some e \<Rightarrow> m_status e = Active)"

definition is_known_member :: "group_state \<Rightarrow> node_id \<Rightarrow> bool" where
  "is_known_member g peer \<longleftrightarrow> node_id_to_string peer |\<in>| fmdom (g_members g)"

definition add_active_peer ::
    "json \<Rightarrow> node_id \<Rightarrow> group_state \<Rightarrow> fs \<Rightarrow> bool io_result \<times> group_state \<times> fs" where
  "add_active_peer J peer g fs =
     (let mid = node_id_to_string peer;
          lamport = next_member_lamport (g_members g);
          (changed, ms) =
            (case fmlookup (g_members g) mid of
               Some e \<Rightarrow> if m_status e = Active then (False, g_members g)
                         else (True, fmupd mid (e\<lparr>m_status := Active, m_lamport := lamport\<rparr>) (g_members g))
             | None \<Rightarrow> (True, fmupd mid \<lparr>m_id = mid, m_status = Active, m_lamport = lamport\<rparr> (g_members g)));
          g1 = g\<lparr>g_members := ms\<rparr>
      in if changed then (case group_persist J g1 fs of
                            (Inl e, fs1) \<Rightarrow> (Inl e, g1, fs1)
                          | (Inr _, fs1) \<Rightarrow> (Inr True, g1, fs1))
         else (Inr False, g1, fs))"

definition remove_peer ::
    "json \<Rightarrow> string \<Rightarrow> group_state \<Rightarrow> fs \<Rightarrow> string option io_result \<times> group_state \<times> fs" where
  "remove_peer J target g fs =
     (case find (\<lambda>e. m_id e = target) (fm_values (g_members g)) of
        None \<Rightarrow> (Inr None, g, fs)
      | Some found \<Rightarrow>
          if m_id found = g_local_id g then (Inl Other, g, fs)
          else let lamport = next_member_lamport (g_members g);
                   e = the (fmlookup (g_members g) (m_id found));
                   g1 = g\<lparr>g_members := fmupd (m_id found)
                            (e\<lparr>m_status := Removed, m_lamport := lamport\<rparr>) (g_members g)\<rparr>
               in case group_persist J g1 fs of
                    (Inl er, fs1) \<Rightarrow> (Inl er, g1, fs1)
                  | (Inr _, fs1) \<Rightarrow> (Inr (Some (m_id found)), g1, fs1))"

text \<open>The body of the loop of \<open>merge_members\<close>: the ledger and the two flags.\<close>

definition merge_member ::
    "string \<Rightarrow> member_entry \<Rightarrow> (string, member_entry) fmap \<times> bool \<times> bool \<Rightarrow>
     (string, member_entry) fmap \<times> bool \<times> bool" where
  "merge_member local_id e st =
     (case st of (ms, changed, removed_self) \<Rightarrow>
        if isl (parse_node_id (m_id e)) then st
        else if \<not> (case fmlookup ms (m_id e) of None \<Rightarrow> True | Some l \<Rightarrow> m_lamport l < m_lamport e) then st
        else (fmupd (m_id e) e ms, True,
              removed_self \<or> m_id e = local_id \<and> m_status e = Removed))"

definition merge_members ::
    "json \<Rightarrow> member_entry list \<Rightarrow> group_state \<Rightarrow> fs \<Rightarrow> member_merge io_result \<times> group_state \<times> fs" where
  "merge_members J incoming g fs =
     (let (ms, changed, removed_self) =
            fold (merge_member (g_local_id g)) incoming (g_members g, False, False);
          g1 = g\<lparr>g_members := ms\<rparr>;
          (r, fs1) = (if changed then group_persist J g1 fs else (Inr (), fs))
      in case r of
           Inl e \<Rightarrow> (Inl e, g1, fs1)
         | Inr _ \<Rightarrow> (Inr \<lparr>mm_changed = changed, mm_removed_self = removed_self,
                          mm_active_peers = active_peers g1\<rparr>, g1, fs1))"

section \<open>Invitations\<close>

definition hash_secret :: "lib \<Rightarrow> string \<Rightarrow> string" where
  "hash_secret X secret = hex (blake3 X (as_bytes secret))"

definition load_invites :: "json \<Rightarrow> fs \<Rightarrow> abspath \<Rightarrow> pending_invite list io_result" where
  "load_invites J fs path =
     (case read_to_string fs path of
        Inr contents \<Rightarrow> (case invites_from_json J contents of None \<Rightarrow> Inl Other | Some l \<Rightarrow> Inr l)
      | Inl e \<Rightarrow> if e = NotFound then Inr [] else Inl e)"

definition save_invites :: "json \<Rightarrow> fs \<Rightarrow> abspath \<Rightarrow> pending_invite list \<Rightarrow> unit io_result \<times> fs" where
  "save_invites J fs path invites =
     io_seq (create_dir_all fs (butlast path))
       (\<lambda>fs1. case invites_to_json J invites of
                None \<Rightarrow> (Inl Other, fs1) | Some b \<Rightarrow> write_atomic fs1 path b)"

definition add_invite ::
    "json \<Rightarrow> lib \<Rightarrow> u64 \<Rightarrow> fs \<Rightarrow> abspath \<Rightarrow> string \<Rightarrow> u64 \<Rightarrow> unit io_result \<times> fs" where
  "add_invite J X now fs path secret expires_at_ms =
     (case load_invites J fs path of
        Inl e \<Rightarrow> (Inl e, fs)
      | Inr invites \<Rightarrow>
          save_invites J fs path
            (filter (\<lambda>i. now < pi_expires_at_ms i) invites @
             [\<lparr>pi_secret_hash = hash_secret X secret, pi_expires_at_ms = expires_at_ms\<rparr>]))"

definition keep_invite :: "u64 \<Rightarrow> string \<Rightarrow> pending_invite \<Rightarrow> bool" where
  "keep_invite now h i \<longleftrightarrow> \<not> pi_expires_at_ms i \<le> now \<and> pi_secret_hash i \<noteq> h"

definition consume_invite ::
    "json \<Rightarrow> lib \<Rightarrow> u64 \<Rightarrow> fs \<Rightarrow> abspath \<Rightarrow> string \<Rightarrow> bool io_result \<times> fs" where
  "consume_invite J X now fs path secret =
     (case load_invites J fs path of
        Inl e \<Rightarrow> (Inl e, fs)
      | Inr invites \<Rightarrow>
          let h = hash_secret X secret;
              kept = filter (keep_invite now h) invites;
              found = list_ex (\<lambda>i. \<not> pi_expires_at_ms i \<le> now \<and> pi_secret_hash i = h) invites
          in if length kept \<noteq> length invites
             then (case save_invites J fs path kept of
                     (Inl e, fs1) \<Rightarrow> (Inl e, fs1)
                   | (Inr _, fs1) \<Rightarrow> (Inr found, fs1))
             else (Inr found, fs))"

section \<open>The ledger as a newest-wins map\<close>

definition member_put ::
    "string \<Rightarrow> member_entry \<Rightarrow> (string, member_entry) fmap \<Rightarrow> (string, member_entry) fmap" where
  "member_put k e ms =
     (if (case fmlookup ms k of None \<Rightarrow> True | Some l \<Rightarrow> m_lamport l < m_lamport e)
      then fmupd k e ms else ms)"

interpretation ledger: newest_wins member_put m_lamport
  by unfold_locales (auto simp: member_put_def split: option.splits)

definition valid_pairs :: "member_entry list \<Rightarrow> (string \<times> member_entry) list" where
  "valid_pairs es = map (\<lambda>e. (m_id e, e)) (filter (\<lambda>e. \<not> isl (parse_node_id (m_id e))) es)"

lemma merge_member_fst:
  "fst (merge_member l e st) = (if isl (parse_node_id (m_id e)) then fst st else member_put (m_id e) e (fst st))"
  by (auto simp: merge_member_def member_put_def split: prod.splits option.splits)

lemma merge_member_fold:
  "fst (fold (merge_member l) es st) = fold (\<lambda>(k, e). member_put k e) (valid_pairs es) (fst st)"
proof (induction es arbitrary: st)
  case (Cons e es)
  show ?case using Cons [of "merge_member l e st"] by (simp add: merge_member_fst valid_pairs_def)
qed (simp add: valid_pairs_def)

lemma merge_members_ledger:
  "g_members (fst (snd (merge_members J incoming g fs))) =
     fold (\<lambda>(k, e). member_put k e) (valid_pairs incoming) (g_members g)"
  using merge_member_fold [of "g_local_id g" incoming "(g_members g, False, False)"]
  by (auto simp: merge_members_def Let_def split: prod.splits sum.splits)

definition ledger_ok :: "group_state \<Rightarrow> bool" where
  "ledger_ok g \<longleftrightarrow> fmpred (\<lambda>k e. m_id e = k \<and> \<not> isl (parse_node_id k)) (g_members g)"

lemma valid_pairs_members:
  assumes "ledger_ok g"
  shows "(k, e) \<in> set (valid_pairs (group_members g)) \<longleftrightarrow> fmlookup (g_members g) k = Some e"
  using assms by (auto simp: valid_pairs_def group_members_def ledger_ok_def in_fm_values dest: fmpredD)


section \<open>Changes of membership propagate\<close>

lemma next_member_lamport_newest:
  assumes "fmlookup ms k = Some e" "word_room (next_member_lamport ms - 1) 1"
  shows "m_lamport e < next_member_lamport ms"
proof -
  let ?m = "fold (\<lambda>e m. max m (m_lamport e)) (fm_values ms) 0"
  have "e \<in> set (fm_values ms)" using assms(1) by (auto simp: in_fm_values)
  then have "m_lamport e \<le> ?m" by (rule fold_max_ge(2))
  moreover have "unat (?m + 1) = unat ?m + 1"
    using assms(2) by (simp add: next_member_lamport_def word_room_nat unat_word_ariths)
  ultimately show ?thesis by (simp add: next_member_lamport_def word_less_nat_alt word_le_nat_alt)
qed

text \<open>
  Removing a member is final for every peer that has not seen a later change: the removal is
  recorded with a Lamport value above all others, and a peer that merges the ledger records the
  member as removed and no longer authorises it.
\<close>

theorem removal_propagates:
  assumes "remove_peer J (node_id_to_string n) g fs = (Inr (Some i), g', fs')" "ledger_ok g" "length n = 32"
    and "word_room (next_member_lamport (g_members g) - 1) 1"
    and "\<forall>e. fmlookup (g_members p) (node_id_to_string n) = Some e \<longrightarrow>
      m_lamport e < next_member_lamport (g_members g)"
  shows "i = node_id_to_string n \<and> \<not> is_active_member g' n \<and>
    \<not> is_active_member (fst (snd (merge_members J (group_members g') p fs2))) n"
proof -
  let ?k = "node_id_to_string n" and ?l = "next_member_lamport (g_members g)"
  obtain found where f: "find (\<lambda>e. m_id e = ?k) (fm_values (g_members g)) = Some found"
    using assms(1) by (cases "find (\<lambda>e. m_id e = ?k) (fm_values (g_members g))") (auto simp: remove_peer_def)
  then have fk: "m_id found = ?k" "found \<in> set (fm_values (g_members g))"
    by (auto simp: find_Some_iff)
  then have lk: "fmlookup (g_members g) ?k = Some found"
    using assms(2) by (auto simp: in_fm_values ledger_ok_def dest: fmpredD)
  let ?new = "found\<lparr>m_status := Removed, m_lamport := ?l\<rparr>"
  have g': "g' = g\<lparr>g_members := fmupd ?k ?new (g_members g)\<rparr>" "i = ?k"
    using assms(1) f fk lk by (auto simp: remove_peer_def Let_def split: if_splits sum.splits prod.splits)
  have ok': "ledger_ok g'"
    using assms(2) fk lk by (auto simp: ledger_ok_def g' dest: fmpredD)
  have new: "fmlookup (g_members g') ?k = Some ?new" by (simp add: g')
  then have pair: "(?k, ?new) \<in> set (valid_pairs (group_members g'))"
    using valid_pairs_members [OF ok'] by blast
  let ?r = "fold (\<lambda>(k, e). member_put k e) (valid_pairs (group_members g')) (g_members p)"
  obtain w where w: "fmlookup ?r ?k = Some w" "?l \<le> m_lamport w"
    using ledger.fold_covers [OF pair, of "g_members p"] by auto
  have "w = ?new"
    using ledger.fold_from [OF w(1)] assms(5) w(2) new valid_pairs_members [OF ok', of ?k w] by auto
  then show ?thesis
    using new w(1) g'(2) by (simp add: is_active_member_def merge_members_ledger)
qed

section \<open>Invitations are used once\<close>

lemma save_invites_load:
  assumes "writable_slot fs d n" "no_fault fs d" "invites_to_json J l = Some b"
    and "from_utf8 b = Some contents" "invites_from_json J contents = Some l"
  shows "\<exists>fs'. save_invites J fs (d @ [n]) l = (Inr (), fs') \<and> load_invites J fs' (d @ [n]) = Inr l"
proof -
  have "create_dir_all fs d = (Inr (), fs)"
    using assms(1,2) by (simp add: create_dir_all_real writable_slot_def)
  moreover obtain fs' where w: "write_atomic fs (d @ [n]) b = (Inr (), fs')" "wrote fs d n b fs'"
    using write_atomic_wrote [OF assms(1)] by blast
  ultimately show ?thesis
    using wrote_read [OF assms(1) w(2)] assms
    by (simp add: save_invites_def io_seq_def load_invites_def read_to_string_def and_then_def)
qed

text \<open>
  C39. An invitation works at most once and not after it expires: when a secret is accepted, some
  unexpired invitation for it was on file, and any later attempt with the same secret, at any
  time, is refused; invitations for other secrets stay on file.
\<close>

theorem invite_is_used_once:
  assumes "writable_slot fs d n" "no_fault fs d"
    and "load_invites J fs (d @ [n]) = Inr invites"
    and "kept = filter (keep_invite now (hash_secret X secret)) invites"
    and "invites_to_json J kept = Some b" "from_utf8 b = Some c" "invites_from_json J c = Some kept"
    and "consume_invite J X now fs (d @ [n]) secret = (Inr True, fs')"
  shows "(\<exists>i \<in> set invites. now < pi_expires_at_ms i \<and> pi_secret_hash i = hash_secret X secret) \<and>
    load_invites J fs' (d @ [n]) =
      Inr (filter (\<lambda>i. now < pi_expires_at_ms i \<and> pi_secret_hash i \<noteq> hash_secret X secret) invites) \<and>
    fst (consume_invite J X later fs' (d @ [n]) secret) \<noteq> Inr True"
proof -
  let ?h = "hash_secret X secret"
  let ?kept = "filter (keep_invite now ?h) invites"
  have keep: "keep_invite now ?h = (\<lambda>i. now < pi_expires_at_ms i \<and> pi_secret_hash i \<noteq> ?h)"
    by (auto simp: keep_invite_def fun_eq_iff)
  have found: "list_ex (\<lambda>i. \<not> pi_expires_at_ms i \<le> now \<and> pi_secret_hash i = ?h) invites"
    using assms(3,8) by (auto simp: consume_invite_def Let_def split: if_splits sum.splits prod.splits)
  then have "\<exists>i \<in> set invites. \<not> keep_invite now ?h i" by (auto simp: list_ex_iff keep_invite_def)
  then have ne: "length ?kept \<noteq> length invites"
    by (metis (no_types, lifting) filter_id_conv length_filter_less less_irrefl)
  obtain fs2 where s: "save_invites J fs (d @ [n]) ?kept = (Inr (), fs2)" "load_invites J fs2 (d @ [n]) = Inr ?kept"
    using save_invites_load [OF assms(1,2,5,6,7)] assms(4) by blast
  then have "fs' = fs2" using assms(3,8) ne by (simp add: consume_invite_def Let_def)
  with s(2) have load': "load_invites J fs' (d @ [n]) = Inr ?kept" by simp
  have "\<not> list_ex (\<lambda>i. \<not> pi_expires_at_ms i \<le> later \<and> pi_secret_hash i = ?h) ?kept"
    by (auto simp: list_ex_iff keep_invite_def)
  then have "fst (consume_invite J X later fs' (d @ [n]) secret) \<noteq> Inr True"
    using load' by (auto simp: consume_invite_def Let_def split: prod.splits sum.splits)
  with found load' show ?thesis
    unfolding keep by (auto simp: list_ex_iff not_le)
qed

section \<open>Instances\<close>

definition ex_node :: "u8 \<Rightarrow> node_id" where
  "ex_node b = replicate 32 b"

definition ex_member :: "u8 \<Rightarrow> member_status \<Rightarrow> u64 \<Rightarrow> member_entry" where
  "ex_member b st l = \<lparr>m_id = node_id_to_string (ex_node b), m_status = st, m_lamport = l\<rparr>"

definition ex_group :: "u8 \<Rightarrow> member_entry list \<Rightarrow> group_state" where
  "ex_group b ms =
     \<lparr>g_path = [''r'', ''.lil'', ''peers.json''], g_local_id = node_id_to_string (ex_node b),
      g_members = fm_collect (map (\<lambda>e. (m_id e, e)) ms)\<rparr>"

definition ex_json :: json where
  "ex_json =
     \<lparr>peers_to_json = (\<lambda>_. Some [0x41]), peers_from_json = (\<lambda>_. None),
      invites_to_json = (\<lambda>_. Some [0x42]),
      invites_from_json = (\<lambda>s. if s = ''B'' then Some []
         else Some [\<lparr>pi_secret_hash = hash_secret ex_lib ''secret'', pi_expires_at_ms = 100\<rparr>])\<rparr>"


theorem removal_propagates_witness:
  "(let g = ex_group 1 [ex_member 1 Active 1, ex_member 2 Active 2];
        g' = fst (snd (remove_peer ex_json (node_id_to_string (ex_node 2)) g ex_fs));
        p = ex_group 3 [ex_member 2 Active 2]
    in \<not> is_active_member (fst (snd (merge_members ex_json (group_members g') p ex_fs))) (ex_node 2))"
proof -
  let ?g = "ex_group 1 [ex_member 1 Active 1, ex_member 2 Active 2]"
  let ?p = "ex_group 3 [ex_member 2 Active 2]"
  let ?R = "remove_peer ex_json (node_id_to_string (ex_node 2)) ?g ex_fs"
  have v: "(case fst ?R of Inr (Some i) \<Rightarrow> True | _ \<Rightarrow> False) \<and> ledger_ok ?g \<and>
      word_room (next_member_lamport (g_members ?g) - 1) 1 \<and>
      (case fmlookup (g_members ?p) (node_id_to_string (ex_node 2)) of
         None \<Rightarrow> False | Some e \<Rightarrow> m_lamport e < next_member_lamport (g_members ?g))" by code_simp
  then obtain i where "?R = (Inr (Some i), fst (snd ?R), snd (snd ?R))"
    by (cases ?R) (auto split: sum.splits option.splits)
  from removal_propagates [OF this, of ?p ex_fs] v show ?thesis
    by (auto simp: Let_def ex_node_def split: option.splits)
qed

definition ex_invite_fs :: fs where
  "ex_invite_fs = put_node [''r'', ''.lil'', ''invites.json''] (FsFile [0x41] 0x81A4 1) ex_fs"

theorem invite_is_used_once_witness:
  "(let R = consume_invite ex_json ex_lib 50 ex_invite_fs [''r'', ''.lil'', ''invites.json''] ''secret'' in
    fst R = Inr True \<and>
    fst (consume_invite ex_json ex_lib 60 (snd R) [''r'', ''.lil'', ''invites.json''] ''secret'') \<noteq> Inr True)"
proof -
  let ?R = "consume_invite ex_json ex_lib 50 ex_invite_fs [''r'', ''.lil'', ''invites.json''] ''secret''"
  let ?inv = "[\<lparr>pi_secret_hash = hash_secret ex_lib ''secret'', pi_expires_at_ms = 100\<rparr>]"
  have v: "writable_slot ex_invite_fs [''r'', ''.lil''] ''invites.json'' \<and> no_fault ex_invite_fs [''r'', ''.lil''] \<and>
      load_invites ex_json ex_invite_fs [''r'', ''.lil'', ''invites.json''] = Inr ?inv \<and>
      filter (keep_invite 50 (hash_secret ex_lib ''secret'')) ?inv = [] \<and>
      from_utf8 [0x42] = Some ''B'' \<and> fst ?R = Inr True" by code_simp
  have j: "invites_to_json ex_json [] = Some [0x42]" "invites_from_json ex_json ''B'' = Some []"
    by (simp_all add: ex_json_def)
  have "?R = (Inr True, snd ?R)" using v by (cases ?R) auto
  then show ?thesis
    using invite_is_used_once [of ex_invite_fs "[''r'', ''.lil'']" "''invites.json''" ex_json ?inv "[]" 50 ex_lib
        "''secret''" "[0x42]" "''B''" "snd ?R" 60] v j
    by (simp add: Let_def)
qed

section \<open>Ties and aliases\<close>

text \<open>
  Two ledgers that record different statuses of a member with the same Lamport value never
  agree: merging in both directions changes nothing, since an incoming entry must be strictly
  newer and there is no tie-break as there is for file versions.
\<close>

theorem equal_lamport_ledgers_never_agree:
  "(let a = ex_group 1 [ex_member 3 Active 5]; b = ex_group 2 [ex_member 3 Removed 5] in
    g_members (fst (snd (merge_members ex_json (group_members b) a ex_fs))) = g_members a \<and>
    g_members (fst (snd (merge_members ex_json (group_members a) b ex_fs))) = g_members b \<and>
    is_active_member a (ex_node 3) \<and> \<not> is_active_member b (ex_node 3))"
  by code_simp

definition upper_alias :: member_entry where
  "upper_alias = \<lparr>m_id = concat (replicate 32 ''AB''), m_status = Active, m_lamport = 1\<rparr>"

text \<open>
  Ids are not normalised when a ledger is merged: an entry whose id is the upper-case
  spelling of a removed member is accepted as a different member, and the removed node is
  again in the list of active peers to contact (though not authorised).
\<close>

theorem alias_of_removed_member_is_active:
  "(let g = ex_group 1 [ex_member 1 Active 1, ex_member 0xAB Removed 4];
        g' = fst (snd (merge_members ex_json [upper_alias] g ex_fs))
    in ex_node 0xAB \<notin> set (active_peers g) \<and> ex_node 0xAB \<in> set (active_peers g') \<and>
       \<not> is_active_member g' (ex_node 0xAB))"
  by code_simp

end
