(* ===== verification/Lil_Endpoints.thy ===== *)
theory Lil_Endpoints
  imports Lil_Group
begin

text \<open>
  The address book of peers, \<open>src/endpoints.rs\<close>: the merge of advertised endpoints, the file
  \<open>endpoints.json\<close>, the listen port, and the choice and printing of this node's own endpoints.
  The book is a map from node ids; JSON is a pair of parameters and the interfaces of the machine
  are an argument.
\<close>

section \<open>The book\<close>

definition ENDPOINTS_FILE :: string where
  "ENDPOINTS_FILE = ''endpoints.json''"

definition PORT_FILE :: string where
  "PORT_FILE = ''port''"

definition MAX_ENDPOINTS_PER_PEER :: nat where
  "MAX_ENDPOINTS_PER_PEER = 8"

record peer_info =
  pi_endpoints :: "string list"
  pi_name :: "string option"

type_synonym address_book = "(node_id, peer_info) fmap"

definition new_address_book :: address_book where
  "new_address_book = fmempty"

text \<open>The keys of the parsed file are taken in ascending order; the source iterates over a hash
  map. The order matters only when two spellings of one id occur in the file.\<close>

definition load_address_book ::
    "(string \<Rightarrow> (string, peer_info) fmap option) \<Rightarrow> fs \<Rightarrow> abspath \<Rightarrow> address_book" where
  "load_address_book from_json fs state_dir =
     (case read_to_string fs (state_dir @ [ENDPOINTS_FILE]) of
        Inl _ \<Rightarrow> fmempty
      | Inr contents \<Rightarrow>
          (case from_json contents of
             None \<Rightarrow> fmempty
           | Some parsed \<Rightarrow>
               fm_collect (List.map_filter
                 (\<lambda>(i, info). case parse_node_id i of Inl _ \<Rightarrow> None | Inr n \<Rightarrow> Some (n, info))
                 (fm_iter parsed))))"

definition save_address_book ::
    "((string, peer_info) fmap \<Rightarrow> bytes option) \<Rightarrow> fs \<Rightarrow> abspath \<Rightarrow> address_book \<Rightarrow> unit io_result \<times> fs" where
  "save_address_book to_json fs state_dir book =
     (case to_json (fm_collect (map (\<lambda>(n, info). (node_id_to_string n, info)) (fm_iter book))) of
        None \<Rightarrow> (Inl Other, fs)
      | Some j \<Rightarrow>
          (let path = state_dir @ [ENDPOINTS_FILE];
               tmp = state_dir @ [ENDPOINTS_FILE @ ''.tmp'']
           in io_seq (write_file fs tmp j) (\<lambda>fs1. rename fs1 tmp path)))"

text \<open>\<open>str::parse::<u16>\<close>: an optional plus sign and at least one decimal digit, below \<open>2 ^ 16\<close>.\<close>

definition decimal_digit :: "char \<Rightarrow> nat option" where
  "decimal_digit c = (let v = (of_char c :: nat) in if 48 \<le> v \<and> v \<le> 57 then Some (v - 48) else None)"

primrec parse_decimal :: "nat \<Rightarrow> string \<Rightarrow> nat option" where
  "parse_decimal acc [] = Some acc"
| "parse_decimal acc (c # s) =
     (case decimal_digit c of
        None \<Rightarrow> None
      | Some d \<Rightarrow> if 10 * acc + d < 65536 then parse_decimal (10 * acc + d) s else None)"

definition parse_u16 :: "string \<Rightarrow> u16 option" where
  "parse_u16 s =
     (let digits = (case s of [] \<Rightarrow> [] | c # r \<Rightarrow> if c = CHR ''+'' then r else s) in
      if digits = [] then None else map_option of_nat (parse_decimal 0 digits))"

definition load_port :: "fs \<Rightarrow> abspath \<Rightarrow> u16 option" where
  "load_port fs state_dir =
     (case read_to_string fs (state_dir @ [PORT_FILE]) of
        Inl _ \<Rightarrow> None | Inr s \<Rightarrow> parse_u16 (str_trim s))"

definition save_port :: "fs \<Rightarrow> abspath \<Rightarrow> u16 \<Rightarrow> unit io_result \<times> fs" where
  "save_port fs state_dir port =
     write_file fs (state_dir @ [PORT_FILE]) (as_bytes (nat_to_string (unat port)))"

section \<open>Local endpoints\<close>

text \<open>\<open>std::net::IpAddr\<close>: the four octets of an IPv4 address, the eight segments of an IPv6 one.\<close>

datatype ip_addr = V4 "u8 list" | V6 "u16 list"

fun is_loopback :: "ip_addr \<Rightarrow> bool" where
  "is_loopback (V4 os) = (os ! 0 = 127)"
| "is_loopback (V6 ss) = (ss = [0, 0, 0, 0, 0, 0, 0, 1])"

fun is_unspecified :: "ip_addr \<Rightarrow> bool" where
  "is_unspecified (V4 os) = (os = [0, 0, 0, 0])"
| "is_unspecified (V6 ss) = (ss = [0, 0, 0, 0, 0, 0, 0, 0])"

fun is_ipv6 :: "ip_addr \<Rightarrow> bool" where
  "is_ipv6 (V4 _) = False"
| "is_ipv6 (V6 _) = True"

fun routable :: "ip_addr \<Rightarrow> bool" where
  "routable (V4 _) = True"
| "routable (V6 ss) = (ss ! 0 AND 0xffc0 \<noteq> 0xfe80)"

definition show_v4 :: "u8 list \<Rightarrow> string" where
  "show_v4 os = join_char CHR ''.'' (map (\<lambda>b. nat_to_string (unat b)) os)"

function nat_to_hex :: "nat \<Rightarrow> string" where
  "nat_to_hex n = (if n < 16 then [hex_digit n] else nat_to_hex (n div 16) @ [hex_digit (n mod 16)])"
  by pat_completeness auto
termination
  by (relation "measure id") auto

declare nat_to_hex.simps [simp del]

definition show_segments :: "u16 list \<Rightarrow> string" where
  "show_segments ss = join_char CHR '':'' (map (\<lambda>w. nat_to_hex (unat w)) ss)"

text \<open>The first longest run of zero segments, as its start and length: the state of the search is
  the index, the best run so far and the current run.\<close>

primrec longest_zeros :: "nat \<Rightarrow> nat \<times> nat \<Rightarrow> nat \<times> nat \<Rightarrow> u16 list \<Rightarrow> nat \<times> nat" where
  "longest_zeros i best cur [] = best"
| "longest_zeros i best cur (w # ws) =
     (if w = 0 then
        let start = (if snd cur = 0 then i else fst cur);
            n = snd cur + 1
        in longest_zeros (i + 1) (if snd best < n then (start, n) else best) (start, n) ws
      else longest_zeros (i + 1) best (0, 0) ws)"

definition show_v6 :: "u16 list \<Rightarrow> string" where
  "show_v6 ss =
     (if take 6 ss = [0, 0, 0, 0, 0, 0xffff] then
        ''::ffff:'' @ show_v4 [ucast (drop_bit 8 (ss ! 6)), ucast (ss ! 6),
                               ucast (drop_bit 8 (ss ! 7)), ucast (ss ! 7)]
      else
        case longest_zeros 0 (0, 0) (0, 0) ss of
          (start, n) \<Rightarrow>
            if 1 < n then show_segments (take start ss) @ ''::'' @ show_segments (drop (start + n) ss)
            else show_segments ss)"

fun format_endpoint :: "ip_addr \<Rightarrow> u16 \<Rightarrow> string" where
  "format_endpoint (V4 v4) port = show_v4 v4 @ '':'' @ nat_to_string (unat port)"
| "format_endpoint (V6 v6) port = ''['' @ show_v6 v6 @ '']:'' @ nat_to_string (unat port)"

definition local_endpoints :: "ip_addr list io_result \<Rightarrow> u16 \<Rightarrow> string list" where
  "local_endpoints ifaces port =
     (let addrs = (case ifaces of
                     Inl _ \<Rightarrow> []
                   | Inr ips \<Rightarrow> filter routable (filter (\<lambda>ip. \<not> is_loopback ip \<and> \<not> is_unspecified ip) ips))
      in map (\<lambda>ip. format_endpoint ip port)
           (take MAX_ENDPOINTS_PER_PEER (remdups_adj (sort_key is_ipv6 addrs))))"

section \<open>Merging\<close>

definition push_endpoint :: "string \<Rightarrow> string list \<Rightarrow> string list" where
  "push_endpoint e merged =
     (if e \<notin> set merged \<and> length merged < MAX_ENDPOINTS_PER_PEER then merged @ [e] else merged)"

definition merge_peer_endpoints ::
    "node_id \<Rightarrow> string option \<Rightarrow> string list \<Rightarrow> string option \<Rightarrow> address_book \<Rightarrow> bool \<times> address_book" where
  "merge_peer_endpoints peer observed advertised name book =
     (let merged = fold push_endpoint (case observed of None \<Rightarrow> advertised | Some o' \<Rightarrow> o' # advertised) [] in
      if merged = [] then (False, book)
      else case fmlookup book peer of
             Some info \<Rightarrow>
               if pi_endpoints info = merged \<and> pi_name info = name then (False, book)
               else (True, fmupd peer (info\<lparr>pi_endpoints := merged, pi_name := name\<rparr>) book)
           | None \<Rightarrow> (True, fmupd peer \<lparr>pi_endpoints = merged, pi_name = name\<rparr> book))"

section \<open>The merge is bounded and keeps the first occurrences\<close>

definition info_ok :: "peer_info \<Rightarrow> bool" where
  "info_ok i \<longleftrightarrow> pi_endpoints i \<noteq> [] \<and> distinct (pi_endpoints i) \<and>
     length (pi_endpoints i) \<le> MAX_ENDPOINTS_PER_PEER"

definition book_ok :: "address_book \<Rightarrow> bool" where
  "book_ok b \<longleftrightarrow> fmpred (\<lambda>_. info_ok) b"

fun firsts :: "'a list \<Rightarrow> 'a list \<Rightarrow> 'a list" where
  "firsts seen [] = []"
| "firsts seen (x # xs) = (if x \<in> set seen then firsts seen xs else x # firsts (x # seen) xs)"

lemma firsts_set: "set (firsts seen xs) = set xs - set seen" "distinct (firsts seen xs)"
  by (induction seen xs rule: firsts.induct) auto

lemma firsts_cong: "set seen = set seen' \<Longrightarrow> firsts seen xs = firsts seen' xs"
proof (induction xs arbitrary: seen seen')
  case (Cons x xs)
  from Cons.prems have "firsts seen xs = firsts seen' xs" "firsts (x # seen) xs = firsts (x # seen') xs"
    by (auto intro: Cons.IH)
  with Cons.prems show ?case by simp
qed simp

lemma fold_push_full:
  "MAX_ENDPOINTS_PER_PEER \<le> length acc \<Longrightarrow> fold push_endpoint xs acc = acc"
  by (induction xs) (auto simp: push_endpoint_def)

lemma fold_push_firsts:
  "length acc \<le> MAX_ENDPOINTS_PER_PEER \<Longrightarrow>
     fold push_endpoint xs acc = take MAX_ENDPOINTS_PER_PEER (acc @ firsts acc xs)"
proof (induction xs arbitrary: acc)
  case (Cons x xs)
  show ?case
  proof (cases "x \<in> set acc \<or> MAX_ENDPOINTS_PER_PEER \<le> length acc")
    case True
    then show ?thesis using Cons by (auto simp: push_endpoint_def fold_push_full)
  next
    case False
    then have "firsts (x # acc) xs = firsts (acc @ [x]) xs" by (intro firsts_cong) auto
    with False show ?thesis using Cons.IH [of "acc @ [x]"] by (simp add: push_endpoint_def)
  qed
qed simp

text \<open>
  Merging endpoints keeps the address book bounded and honest: the list stored for the peer
  is the first eight distinct ones of the observed endpoint followed by the advertised ones, so
  the observed endpoint comes first; a message without endpoints changes nothing; other peers are
  untouched; no list of the book exceeds eight distinct endpoints; and the returned flag says
  exactly whether the book changed.
\<close>

theorem merge_peer_endpoints_correct:
  assumes "merge_peer_endpoints peer observed advertised name book = (changed, book')"
  shows "(let candidates = (case observed of None \<Rightarrow> advertised | Some o' \<Rightarrow> o' # advertised) in
      (changed \<longleftrightarrow> book' \<noteq> book) \<and> (book_ok book \<longrightarrow> book_ok book') \<and>
      (\<forall>p. p \<noteq> peer \<longrightarrow> fmlookup book' p = fmlookup book p) \<and>
      (if candidates = [] then book' = book
       else fmlookup book' peer =
         Some \<lparr>pi_endpoints = take MAX_ENDPOINTS_PER_PEER (firsts [] candidates), pi_name = name\<rparr>) \<and>
      (\<forall>o'. observed = Some o' \<longrightarrow> map_option (\<lambda>i. hd (pi_endpoints i)) (fmlookup book' peer) = Some o'))"
proof -
  define cand where "cand = (case observed of None \<Rightarrow> advertised | Some o' \<Rightarrow> o' # advertised)"
  define merged where "merged = take MAX_ENDPOINTS_PER_PEER (firsts [] cand)"
  have m: "fold push_endpoint cand [] = merged" by (simp add: fold_push_firsts merged_def)
  have nil: "merged = [] \<longleftrightarrow> cand = []" by (cases cand) (auto simp: merged_def MAX_ENDPOINTS_PER_PEER_def)
  have ok: "cand \<noteq> [] \<Longrightarrow> info_ok \<lparr>pi_endpoints = merged, pi_name = name\<rparr>"
    using nil firsts_set(2) [of "[]" cand] by (simp add: info_ok_def merged_def)
  have hd: "observed = Some o' \<Longrightarrow> hd merged = o' \<and> cand \<noteq> []" for o'
    by (simp add: merged_def cand_def MAX_ENDPOINTS_PER_PEER_def)
  have upd: "fmlookup book peer = Some info \<Longrightarrow>
      info\<lparr>pi_endpoints := merged, pi_name := name\<rparr> = \<lparr>pi_endpoints = merged, pi_name = name\<rparr>" for info
    by simp
  show ?thesis
  proof (cases "cand = []")
    case True
    then show ?thesis using assms m nil hd
      by (auto simp: merge_peer_endpoints_def Let_def cand_def [symmetric])
  next
    case False
    let ?i = "\<lparr>pi_endpoints = merged, pi_name = name\<rparr>"
    have b: "book' = fmupd peer ?i book" "changed \<longleftrightarrow> fmlookup book peer \<noteq> Some ?i"
      using assms m nil False
      by (auto simp: merge_peer_endpoints_def Let_def cand_def [symmetric] intro!: fmap_ext
          split: option.splits if_splits)
    have "book' \<noteq> book \<longleftrightarrow> fmlookup book peer \<noteq> Some ?i"
      unfolding b(1) by (metis fmap_ext fmupd_lookup)
    moreover have "book_ok book \<longrightarrow> book_ok book'" using ok [OF False] by (auto simp: b(1) book_ok_def)
    ultimately show ?thesis using b hd False
      by (auto simp: Let_def cand_def [symmetric] merged_def [symmetric])
  qed
qed

theorem merge_peer_endpoints_correct_witness:
  "(let R = merge_peer_endpoints (ex_node 1) (Some ''10.0.0.2:7'') [''10.0.0.1:7'', ''10.0.0.2:7''] None fmempty
    in fst R \<longleftrightarrow> snd R \<noteq> fmempty)"
  using merge_peer_endpoints_correct [of "ex_node 1" "Some ''10.0.0.2:7''" "[''10.0.0.1:7'', ''10.0.0.2:7'']"
      None fmempty "fst R" "snd R" for R]
  by (metis (no_types, lifting) prod.collapse)

section \<open>The files\<close>

lemma read_to_string_real:
  "real_dir fs d \<Longrightarrow> no_fault fs (d @ [n]) \<Longrightarrow> node_at fs (d @ [n]) = Some (FsFile c m t) \<Longrightarrow>
     from_utf8 c = Some s \<Longrightarrow> read_to_string fs (d @ [n]) = Inr s"
  by (simp add: read_to_string_def read_file_real and_then_def)

definition endpoint_slot :: "fs \<Rightarrow> abspath \<Rightarrow> bool" where
  "endpoint_slot fs d \<longleftrightarrow>
     real_dir fs d \<and> no_fault fs (d @ [ENDPOINTS_FILE]) \<and> no_fault fs (d @ [ENDPOINTS_FILE @ ''.tmp'']) \<and>
     plain (node_at fs (d @ [ENDPOINTS_FILE])) \<and> plain (node_at fs (d @ [ENDPOINTS_FILE @ ''.tmp'']))"

lemma save_address_book_reads_back:
  assumes "endpoint_slot fs d" "from_utf8 b = Some c"
    and "to_json (fm_collect (map (\<lambda>(n, info). (node_id_to_string n, info)) (fm_iter book))) = Some b"
  shows "\<exists>fs'. save_address_book to_json fs d book = (Inr (), fs') \<and>
    read_to_string fs' (d @ [ENDPOINTS_FILE]) = Inr c"
proof -
  let ?n = ENDPOINTS_FILE and ?t = "ENDPOINTS_FILE @ ''.tmp''"
  have s: "real_dir fs d" "no_fault fs (d @ [?n])" "no_fault fs (d @ [?t])" "plain (node_at fs (d @ [?n]))"
    "node_at fs (d @ [?t]) = None \<or> (\<exists>c m t. node_at fs (d @ [?t]) = Some (FsFile c m t))"
    using assms(1) by (auto simp: endpoint_slot_def elim: plainE)
  obtain m where w: "write_file fs (d @ [?t]) b = (Inr (), put_node (d @ [?t]) (FsFile b m (fs_now fs)) fs)"
    by (rule write_file_real [OF s(1,3,5)])
  let ?fs1 = "put_node (d @ [?t]) (FsFile b m (fs_now fs)) fs"
  let ?fs2 = "put_node (d @ [?n]) (FsFile b m (fs_now fs)) (drop_node (d @ [?t]) ?fs1)"
  have nd: "\<not> is_dir_node (node_at fs (d @ [?t]))" using s(5) by (auto simp: is_dir_node_iff)
  have d1: "real_dir ?fs1 d" using s(1) nd by (intro real_dir_put) auto
  have "rename ?fs1 (d @ [?t]) (d @ [?n]) = (Inr (), ?fs2)"
    by (rule rename_real) (use d1 s in simp_all)
  moreover have "real_dir (drop_node (d @ [?t]) ?fs1) d"
    using d1 by (intro real_dir_drop) (auto simp: is_dir_node_iff)
  then have "real_dir ?fs2 d" using s(4) by (intro real_dir_put) auto
  then have "read_to_string ?fs2 (d @ [?n]) = Inr c"
    by (rule read_to_string_real) (use s(2) assms(2) in auto)
  ultimately show ?thesis using w assms(3) by (simp add: save_address_book_def Let_def io_seq_def)
qed

lemma node_id_string_inject:
  "length n = 32 \<Longrightarrow> length n' = 32 \<Longrightarrow> node_id_to_string n = node_id_to_string n' \<Longrightarrow> n = n'"
  by (metis parse_node_id_display sum.inject(2))

definition ids_ok :: "address_book \<Rightarrow> bool" where
  "ids_ok book \<longleftrightarrow> fmpred (\<lambda>n _. length n = 32) book"

lemma book_strings_lookup:
  assumes "ids_ok book"
  defines "by_id \<equiv> fm_collect (map (\<lambda>(n, info). (node_id_to_string n, info)) (fm_iter book))"
  shows "fmlookup by_id i = Some info \<longleftrightarrow> (\<exists>n. i = node_id_to_string n \<and> fmlookup book n = Some info)"
proof -
  have len: "fmlookup book n = Some x \<Longrightarrow> length n = 32" for n x
    using assms(1) fmpredD by (fastforce simp: ids_ok_def)
  have fn: "fmlookup book n = Some x \<Longrightarrow> fmlookup book n' = Some y \<Longrightarrow>
      node_id_to_string n = node_id_to_string n' \<Longrightarrow> x = y" for n n' x y
    using len node_id_string_inject by (metis option.inject)
  show ?thesis
  proof
    assume "fmlookup by_id i = Some info"
    then show "\<exists>n. i = node_id_to_string n \<and> fmlookup book n = Some info"
      using fm_collect_in [of _ i info] unfolding by_id_def by (fastforce simp: fm_simps)
  next
    assume "\<exists>n. i = node_id_to_string n \<and> fmlookup book n = Some info"
    then obtain n where n: "i = node_id_to_string n" "(n, info) \<in> set (fm_iter book)" "fmlookup book n = Some info"
      by (auto simp: fm_simps)
    show "fmlookup by_id i = Some info"
      unfolding by_id_def
    proof (subst fm_collect_functional)
      show "(i, info) \<in> set (map (\<lambda>(n, info). (node_id_to_string n, info)) (fm_iter book))"
        using n(1,2) by force
    qed (use fn n in \<open>auto simp: fm_simps\<close>)
  qed
qed

text \<open>
  The address book survives a restart: what \<open>save_address_book\<close> wrote, \<open>load_address_book\<close>
  reads back as the same book, provided JSON reads back what it printed.
\<close>

theorem address_book_roundtrip:
  assumes "endpoint_slot fs d" "ids_ok book"
    and "by_id = fm_collect (map (\<lambda>(n, info). (node_id_to_string n, info)) (fm_iter book))"
    and "to_json by_id = Some b" "from_utf8 b = Some c" "from_json c = Some by_id"
  shows "\<exists>fs'. save_address_book to_json fs d book = (Inr (), fs') \<and>
    load_address_book from_json fs' d = book"
proof -
  obtain fs' where s: "save_address_book to_json fs d book = (Inr (), fs')"
    "read_to_string fs' (d @ [ENDPOINTS_FILE]) = Inr c"
    using save_address_book_reads_back [OF assms(1,5)] assms(3,4) by blast
  let ?f = "\<lambda>(i, info). case parse_node_id i of Inl _ \<Rightarrow> None | Inr n \<Rightarrow> Some (n, info)"
  let ?xs = "List.map_filter ?f (fm_iter by_id)"
  have len: "fmlookup book n = Some x \<Longrightarrow> length n = 32" for n x
    using assms(2) fmpredD by (fastforce simp: ids_ok_def)
  have xs: "(n, info) \<in> set ?xs \<longleftrightarrow> fmlookup book n = Some info" for n info
  proof
    assume "(n, info) \<in> set ?xs"
    then obtain i where "fmlookup by_id i = Some info" "parse_node_id i = Inr n"
      by (auto simp: in_map_filter fm_simps split: sum.splits)
    then show "fmlookup book n = Some info"
      using book_strings_lookup [OF assms(2), of i info] parse_node_id_display len
      unfolding assms(3) by fastforce
  next
    assume "fmlookup book n = Some info"
    then have "(node_id_to_string n, info) \<in> set (fm_iter by_id)" "parse_node_id (node_id_to_string n) = Inr n"
      using book_strings_lookup [OF assms(2), of "node_id_to_string n" info] parse_node_id_display len
      unfolding assms(3) by (auto simp: fm_simps)
    then show "(n, info) \<in> set ?xs" by (force simp: in_map_filter)
  qed
  have "fm_collect ?xs = book"
  proof (rule fmap_ext)
    fix n
    show "fmlookup (fm_collect ?xs) n = fmlookup book n"
    proof (cases "fmlookup book n")
      case None
      then have "fmlookup (fm_collect ?xs) n \<noteq> Some v" for v
        using fm_collect_in [of ?xs n v] xs [of n v] by auto
      with None show ?thesis by (cases "fmlookup (fm_collect ?xs) n") auto
    next
      case (Some info)
      then have "fmlookup (fm_collect ?xs) n = Some info"
        using xs by (subst fm_collect_functional) simp_all
      with Some show ?thesis by simp
    qed
  qed
  with s assms(6) show ?thesis by (simp add: load_address_book_def)
qed

definition ex_book :: address_book where
  "ex_book = fmap_of_list [(ex_node 1, \<lparr>pi_endpoints = [''10.0.0.1:7''], pi_name = None\<rparr>)]"

theorem address_book_roundtrip_witness:
  "\<exists>fs'. save_address_book (\<lambda>_. Some [0x41]) ex_fs [''r'', ''.lil''] ex_book = (Inr (), fs') \<and>
     load_address_book (\<lambda>_. Some (fm_collect (map (\<lambda>(n, info). (node_id_to_string n, info)) (fm_iter ex_book))))
       fs' [''r'', ''.lil''] = ex_book"
proof -
  have "endpoint_slot ex_fs [''r'', ''.lil''] \<and> ids_ok ex_book \<and> from_utf8 [0x41] = Some ''A''" by code_simp
  then show ?thesis by (intro address_book_roundtrip [OF _ _ refl]) auto
qed

section \<open>The port\<close>

lemma decimal_digit_char: "n < 10 \<Longrightarrow> decimal_digit (char_of (48 + n)) = Some n"
  by (simp add: decimal_digit_def)

lemma parse_decimal_append:
  "parse_decimal acc (s @ t) = (case parse_decimal acc s of None \<Rightarrow> None | Some a \<Rightarrow> parse_decimal a t)"
  by (induction s arbitrary: acc) (auto split: option.splits)

lemma parse_decimal_print: "n < 65536 \<Longrightarrow> parse_decimal 0 (nat_to_string n) = Some n"
proof (induction n rule: nat_to_string.induct)
  case (1 n)
  show ?case
  proof (cases "n < 10")
    case True
    then show ?thesis by (simp add: nat_to_string.simps [of n] decimal_digit_char)
  next
    case False
    then show ?thesis
      using 1 by (subst nat_to_string.simps) (simp add: parse_decimal_append decimal_digit_char)
  qed
qed

lemma nat_to_string_digits:
  "nat_to_string n \<noteq> [] \<and> (\<forall>c \<in> set (nat_to_string n). \<exists>k < (10 :: nat). c = char_of (48 + k))"
proof (induction n rule: nat_to_string.induct)
  case (1 n)
  then show ?case by (subst (1 2) nat_to_string.simps) (auto intro: exI [of _ n] exI [of _ "n mod 10"])
qed

lemma digit_char_facts:
  assumes "k < (10 :: nat)"
  shows "\<not> is_whitespace (char_of (48 + k)) \<and> (char_of (48 + k) :: char) \<noteq> CHR ''+'' \<and>
    byte_of_char (char_of (48 + k)) < 0x80"
proof -
  have "list_all (\<lambda>k. \<not> is_whitespace (char_of (48 + k)) \<and> (char_of (48 + k) :: char) \<noteq> CHR ''+'' \<and>
      byte_of_char (char_of (48 + k)) < 0x80) [0..<10]" by code_simp
  then show ?thesis using assms by (simp add: list_all_iff del: upt_rec_numeral)
qed

lemma str_trim_id: "(\<forall>c \<in> set s. \<not> is_whitespace c) \<Longrightarrow> str_trim s = s"
proof -
  assume "\<forall>c \<in> set s. \<not> is_whitespace c"
  then have "dropWhile is_whitespace s = s" "dropWhile is_whitespace (rev s) = rev s"
    by (metis dropWhile_eq_self_iff hd_in_set, metis dropWhile_eq_self_iff hd_in_set set_rev)
  then show ?thesis by (simp add: str_trim_def)
qed

text \<open>
  The listen port survives a restart: after \<open>save_port\<close>, \<open>load_port\<close> gives the same port, for
  every 16-bit value, so that advertised endpoints stay valid.
\<close>

theorem port_roundtrip:
  assumes "real_dir fs d" "no_fault fs (d @ [PORT_FILE])" "plain (node_at fs (d @ [PORT_FILE]))"
  shows "\<exists>fs'. save_port fs d port = (Inr (), fs') \<and> load_port fs' d = Some port"
proof -
  let ?s = "nat_to_string (unat port)"
  have n: "node_at fs (d @ [PORT_FILE]) = None \<or> (\<exists>c m t. node_at fs (d @ [PORT_FILE]) = Some (FsFile c m t))"
    using assms(3) by (auto elim: plainE)
  obtain m where w: "save_port fs d port =
      (Inr (), put_node (d @ [PORT_FILE]) (FsFile (as_bytes ?s) m (fs_now fs)) fs)"
    unfolding save_port_def by (rule write_file_real [OF assms(1,2) n])
  have dig: "?s \<noteq> []" "\<forall>c \<in> set ?s. \<not> is_whitespace c \<and> c \<noteq> CHR ''+'' \<and> byte_of_char c < 0x80"
    using nat_to_string_digits [of "unat port"] by (blast, metis digit_char_facts)
  then have "utf8_valid (as_bytes ?s)"
    by (intro utf8_valid_ascii) (auto simp: as_bytes_def list_all_iff)
  then have u: "from_utf8 (as_bytes ?s) = Some ?s" by (simp add: from_utf8_def as_bytes_def comp_def)
  have "read_to_string (snd (save_port fs d port)) (d @ [PORT_FILE]) = Inr ?s"
    unfolding w snd_conv
    by (rule read_to_string_real) (use assms u in \<open>auto intro!: real_dir_put\<close>)
  moreover have "str_trim ?s = ?s" using dig(2) by (intro str_trim_id) auto
  moreover have "parse_u16 ?s = Some port"
  proof -
    have "unat port < 65536" using unsigned_less [of port] by simp
    then have "parse_decimal 0 ?s = Some (unat port)" by (rule parse_decimal_print)
    with dig show ?thesis by (cases ?s) (simp_all add: parse_u16_def)
  qed
  ultimately show ?thesis using w by (simp add: load_port_def)
qed

theorem port_roundtrip_witness:
  "\<exists>fs'. save_port ex_fs [''r'', ''.lil''] 7420 = (Inr (), fs') \<and> load_port fs' [''r'', ''.lil''] = Some 7420"
proof -
  have "real_dir ex_fs [''r'', ''.lil''] \<and> no_fault ex_fs ([''r'', ''.lil''] @ [PORT_FILE]) \<and>
      plain (node_at ex_fs ([''r'', ''.lil''] @ [PORT_FILE]))" by code_simp
  then show ?thesis using port_roundtrip [of ex_fs "[''r'', ''.lil'']" 7420] by simp
qed

end
