(* ===== verification/Lil_Protocol.thy ===== *)
theory Lil_Protocol
  imports Lil_Endpoints
begin

text \<open>
  The messages between nodes: gossip, \<open>src/message.rs\<close>, and requests and responses,
  \<open>src/protocol.rs\<close>. A struct variant is a constructor with its fields in the order of the
  source. Texts of errors keep their constant part; what \<open>Display\<close> of an I/O error adds is left out.
\<close>

record tree_hint =
  th_truncated :: bool
  th_nodes :: "tree_node list"

datatype gossip_message =
    SyncState (gm_origin: string) (gm_state_root: hash32) (gm_live_root: hash32) (gm_lamport: u64)
      (gm_state_nodes: nat) (gm_live_nodes: nat) (gm_gc_watermark: gc_watermark)
  | FilesystemChanged (gm_origin: string) (gm_state_root: hash32) (gm_live_root: hash32) (gm_lamport: u64)
      (gm_hint: "tree_hint option")
  | GossipPeers (gm_origin: string) (gm_members: "member_entry list")
  | GossipEndpoints (gm_origin: string) (gm_listen_port: u16) (gm_endpoints: "string list")
      (gm_name: "string option")

fun message_origin :: "gossip_message \<Rightarrow> string" where
  "message_origin (SyncState origin _ _ _ _ _ _) = origin"
| "message_origin (FilesystemChanged origin _ _ _ _) = origin"
| "message_origin (GossipPeers origin _) = origin"
| "message_origin (GossipEndpoints origin _ _ _) = origin"

datatype request_message =
    Join u64 string string
  | GetRoot u64
  | GetPeers u64
  | GetNode u64 string
  | GetEntries u64 string
  | GetObject u64 hash32
  | Announce u64 gossip_message

datatype response_message =
    JoinAccepted u64 "member_entry list"
  | RespOk u64
  | JoinRejected u64 string
  | RespRoot u64 hash32 hash32 u64
  | RespPeers u64 "member_entry list"
  | RespNode u64 "tree_node option"
  | RespEntries u64 "entry list"
  | ObjectHeader u64 u64
  | RespError u64 string

fun request_id :: "request_message \<Rightarrow> u64" where
  "request_id (Join i _ _) = i"
| "request_id (GetRoot i) = i"
| "request_id (GetPeers i) = i"
| "request_id (GetNode i _) = i"
| "request_id (GetEntries i _) = i"
| "request_id (GetObject i _) = i"
| "request_id (Announce i _) = i"

end
