(* ===== verification/Lil_Rpc.thy ===== *)
theory Lil_Rpc
  imports Lil_Protocol
begin

text \<open>
  The RPC layer, \<open>src/rpc.rs\<close>: the request handlers of the server over its folder state, its
  group and its invitations; the client's check of responses; the pool of connections; and the
  transfer of an object into a file. A connection is an abstract value: what is sent and received
  on it is given by functions, and a time-out is one of the errors they may return.
\<close>

section \<open>The server\<close>

datatype rpc_event =
    PeerJoined node_id
  | Announcement node_id gossip_message ip_addr

record server =
  sv_state :: folder_state
  sv_group :: group_state
  sv_fs :: fs
  sv_events :: "rpc_event list"

definition check_member :: "group_state \<Rightarrow> node_id \<Rightarrow> u64 \<Rightarrow> response_message + unit" where
  "check_member g peer rid =
     (if is_active_member g peer then Inr () else Inl (RespError rid ''peer is not a group member''))"

definition check_known_member :: "group_state \<Rightarrow> node_id \<Rightarrow> u64 \<Rightarrow> response_message + unit" where
  "check_known_member g peer rid =
     (if is_known_member g peer then Inr () else Inl (RespError rid ''peer is not a group member''))"

definition entries_at :: "folder_state \<Rightarrow> string \<Rightarrow> entry list" where
  "entries_at s prefix =
     (case state_node s prefix of
        None \<Rightarrow> []
      | Some node \<Rightarrow>
          List.map_filter
            (\<lambda>name. let p = trim_matches CHR ''/'' prefix;
                        path = (if p = [] then name else p @ ''/'' @ name)
                    in state_entry s path)
            (fm_keys (tn_entries node)))"

definition handle_join ::
    "json \<Rightarrow> lib \<Rightarrow> u64 \<Rightarrow> abspath \<Rightarrow> node_id \<Rightarrow> u64 \<Rightarrow> string \<Rightarrow> string \<Rightarrow> server \<Rightarrow>
     response_message \<times> server" where
  "handle_join J X now invites_path peer rid secret joiner_id sv =
     (if joiner_id \<noteq> node_id_to_string peer
      then (JoinRejected rid ''joiner id does not match RPC peer'', sv)
      else case consume_invite J X now (sv_fs sv) invites_path secret of
             (Inr True, fs1) \<Rightarrow>
               (case add_active_peer J peer (sv_group sv) fs1 of
                  (Inr _, g, fs2) \<Rightarrow>
                    (JoinAccepted rid (group_members g),
                     sv\<lparr>sv_group := g, sv_fs := fs2, sv_events := sv_events sv @ [PeerJoined peer]\<rparr>)
                | (Inl _, g, fs2) \<Rightarrow>
                    (JoinRejected rid ''could not add peer'', sv\<lparr>sv_group := g, sv_fs := fs2\<rparr>))
           | (Inr False, fs1) \<Rightarrow> (JoinRejected rid ''invalid or expired ticket'', sv\<lparr>sv_fs := fs1\<rparr>)
           | (Inl _, fs1) \<Rightarrow> (JoinRejected rid ''could not validate ticket'', sv\<lparr>sv_fs := fs1\<rparr>))"

text \<open>The result is \<open>None\<close> where the source panics: an object request is not for this handler.\<close>

fun handle_request ::
    "json \<Rightarrow> lib \<Rightarrow> u64 \<Rightarrow> abspath \<Rightarrow> node_id \<Rightarrow> ip_addr \<Rightarrow> request_message \<Rightarrow> server \<Rightarrow>
     response_message option \<times> server" where
  "handle_request J X now invites_path peer ip (Join rid secret joiner_id) sv =
     (case handle_join J X now invites_path peer rid secret joiner_id sv of (r, sv1) \<Rightarrow> (Some r, sv1))"
| "handle_request J X now invites_path peer ip (GetRoot rid) sv =
     (case check_member (sv_group sv) peer rid of
        Inl r \<Rightarrow> (Some r, sv)
      | Inr _ \<Rightarrow> (Some (RespRoot rid (root_hash (sv_state sv)) (live_root_hash (sv_state sv))
                    (fo_lamport (sv_state sv))), sv))"
| "handle_request J X now invites_path peer ip (GetPeers rid) sv =
     (case check_known_member (sv_group sv) peer rid of
        Inl r \<Rightarrow> (Some r, sv)
      | Inr _ \<Rightarrow> (Some (RespPeers rid (group_members (sv_group sv))), sv))"
| "handle_request J X now invites_path peer ip (GetNode rid prefix) sv =
     (case check_member (sv_group sv) peer rid of
        Inl r \<Rightarrow> (Some r, sv)
      | Inr _ \<Rightarrow> (Some (RespNode rid (state_node (sv_state sv) prefix)), sv))"
| "handle_request J X now invites_path peer ip (GetEntries rid prefix) sv =
     (case check_member (sv_group sv) peer rid of
        Inl r \<Rightarrow> (Some r, sv)
      | Inr _ \<Rightarrow> (Some (RespEntries rid (entries_at (sv_state sv) prefix)), sv))"
| "handle_request J X now invites_path peer ip (Announce rid message) sv =
     (case check_member (sv_group sv) peer rid of
        Inl r \<Rightarrow> (Some r, sv)
      | Inr _ \<Rightarrow> (Some (RespOk rid), sv\<lparr>sv_events := sv_events sv @ [Announcement peer message ip]\<rparr>))"
| "handle_request J X now invites_path peer ip (GetObject rid h) sv = (None, sv)"

text \<open>The response and the bytes streamed after it; \<open>Inl\<close> closes the connection.\<close>

definition handle_get_object ::
    "u64 \<Rightarrow> hash32 \<Rightarrow> node_id \<Rightarrow> server \<Rightarrow> (response_message \<times> bytes) io_result" where
  "handle_get_object rid content_hash peer sv =
     (if \<not> is_active_member (sv_group sv) peer then Inr (RespError rid ''peer is not a group member'', [])
      else case object_file (sv_state sv) content_hash of
             None \<Rightarrow> Inr (RespError rid ''object not found'', [])
           | Some (path, expected_size) \<Rightarrow>
               (case read_file (sv_fs sv) path of
                  Inl _ \<Rightarrow> Inl Other
                | Inr c \<Rightarrow>
                    let size = of_nat (length c) in
                    if size \<noteq> expected_size
                    then Inr (RespError rid ''object changed before transfer'', [])
                    else Inr (ObjectHeader rid size, c)))"

text \<open>One turn of the loop of \<open>handle_connection\<close>: the outcome for the client, the server after it.\<close>

definition serve ::
    "json \<Rightarrow> lib \<Rightarrow> u64 \<Rightarrow> abspath \<Rightarrow> node_id \<Rightarrow> ip_addr \<Rightarrow> request_message \<Rightarrow> server \<Rightarrow>
     (response_message \<times> bytes) io_result option \<times> server" where
  "serve J X now invites_path peer ip req sv =
     (case req of
        GetObject rid h \<Rightarrow> (Some (handle_get_object rid h peer sv), sv)
      | _ \<Rightarrow> (case handle_request J X now invites_path peer ip req sv of
                (r, sv1) \<Rightarrow> (map_option (\<lambda>r. Inr (r, [])) r, sv1)))"

section \<open>The client\<close>

text \<open>Each call sends one request and accepts only the matching response with its own id.\<close>

definition get_root :: "(request_message \<Rightarrow> response_message io_result) \<Rightarrow> u64 \<Rightarrow> (hash32 \<times> hash32 \<times> u64) io_result" where
  "get_root rt rid =
     and_then (rt (GetRoot rid))
       (\<lambda>r. case r of
              RespRoot actual state_root live_root lamport \<Rightarrow>
                if actual = rid then Inr (state_root, live_root, lamport) else Inl Other
            | _ \<Rightarrow> Inl Other)"

definition get_peers :: "(request_message \<Rightarrow> response_message io_result) \<Rightarrow> u64 \<Rightarrow> member_entry list io_result" where
  "get_peers rt rid =
     and_then (rt (GetPeers rid))
       (\<lambda>r. case r of
              RespPeers actual members \<Rightarrow> if actual = rid then Inr members else Inl Other
            | _ \<Rightarrow> Inl Other)"

definition get_node :: "(request_message \<Rightarrow> response_message io_result) \<Rightarrow> u64 \<Rightarrow> string \<Rightarrow> tree_node option io_result" where
  "get_node rt rid prefix =
     and_then (rt (GetNode rid prefix))
       (\<lambda>r. case r of
              RespNode actual node \<Rightarrow> if actual = rid then Inr node else Inl Other
            | _ \<Rightarrow> Inl Other)"

definition get_entries :: "(request_message \<Rightarrow> response_message io_result) \<Rightarrow> u64 \<Rightarrow> string \<Rightarrow> entry list io_result" where
  "get_entries rt rid prefix =
     and_then (rt (GetEntries rid prefix))
       (\<lambda>r. case r of
              RespEntries actual entries \<Rightarrow> if actual = rid then Inr entries else Inl Other
            | _ \<Rightarrow> Inl Other)"

definition join_group ::
    "(request_message \<Rightarrow> response_message io_result) \<Rightarrow> u64 \<Rightarrow> string \<Rightarrow> node_id \<Rightarrow> member_entry list io_result" where
  "join_group rt rid secret joiner_id =
     and_then (rt (Join rid secret (node_id_to_string joiner_id)))
       (\<lambda>r. case r of
              JoinAccepted actual members \<Rightarrow> if actual = rid then Inr members else Inl Other
            | _ \<Rightarrow> Inl Other)"

definition announce :: "(request_message \<Rightarrow> response_message io_result) \<Rightarrow> u64 \<Rightarrow> gossip_message \<Rightarrow> unit io_result" where
  "announce rt rid message =
     and_then (rt (Announce rid message))
       (\<lambda>r. case r of
              RespOk actual \<Rightarrow> if actual = rid then Inr () else Inl Other
            | _ \<Rightarrow> Inl Other)"

text \<open>The process-wide counter of request ids: the id of a request, and the counter after it.\<close>

definition next_request_id :: "u64 \<Rightarrow> u64 \<times> u64" where
  "next_request_id counter = (counter, counter + 1)"

section \<open>Connections\<close>

definition POOL_SIZE :: nat where
  "POOL_SIZE = 8"

type_synonym 'c pool = "(node_id, 'c list) fmap"

definition checkout :: "node_id \<Rightarrow> 'c pool \<Rightarrow> 'c option \<times> 'c pool" where
  "checkout peer idle =
     (case fmlookup idle peer of
        Some (c # q) \<Rightarrow> (Some c, fmupd peer q idle)
      | _ \<Rightarrow> (None, idle))"

definition checkin :: "node_id \<Rightarrow> 'c \<Rightarrow> 'c pool \<Rightarrow> 'c pool" where
  "checkin peer c idle =
     (let q = (case fmlookup idle peer of None \<Rightarrow> [] | Some q \<Rightarrow> q)
      in fmupd peer (if length q < POOL_SIZE then q @ [c] else q) idle)"

text \<open>The loop of \<open>connect\<close> over the known endpoints, with the last error. \<open>dial\<close> is
  \<open>NoiseConnection::connect\<close> under its time-out and \<open>conn_peer\<close> the authenticated peer.\<close>

primrec connect_endpoints ::
    "(string \<Rightarrow> 'c io_result) \<Rightarrow> ('c \<Rightarrow> node_id) \<Rightarrow> node_id \<Rightarrow> io_error \<Rightarrow> string list \<Rightarrow> 'c io_result" where
  "connect_endpoints dial conn_peer peer last_err [] = Inl last_err"
| "connect_endpoints dial conn_peer peer last_err (e # es) =
     (case dial e of
        Inr c \<Rightarrow> if conn_peer c = peer then Inr c else connect_endpoints dial conn_peer peer Other es
      | Inl err \<Rightarrow> connect_endpoints dial conn_peer peer err es)"

text \<open>\<open>wait_for_endpoints\<close> polls the address book until the deadline; \<open>books\<close> are the books it sees.\<close>

primrec wait_for_endpoints :: "node_id \<Rightarrow> address_book list \<Rightarrow> string list io_result" where
  "wait_for_endpoints peer [] = Inl TimedOut"
| "wait_for_endpoints peer (b # books) =
     (let es = (case fmlookup b peer of None \<Rightarrow> [] | Some info \<Rightarrow> pi_endpoints info)
      in if es \<noteq> [] then Inr es else wait_for_endpoints peer books)"

definition connect ::
    "(string \<Rightarrow> 'c io_result) \<Rightarrow> ('c \<Rightarrow> node_id) \<Rightarrow> node_id \<Rightarrow> address_book list \<Rightarrow> 'c io_result" where
  "connect dial conn_peer peer books =
     and_then (wait_for_endpoints peer books) (connect_endpoints dial conn_peer peer Other)"

text \<open>\<open>exchange\<close> sends a request on a connection and reads a response, under the time-out; the
  connection after it may go back to the pool.\<close>

definition round_trip ::
    "('c \<Rightarrow> request_message \<Rightarrow> response_message io_result \<times> 'c) \<Rightarrow> 'c io_result \<Rightarrow> node_id \<Rightarrow>
     request_message \<Rightarrow> 'c pool \<Rightarrow> response_message io_result \<times> 'c pool" where
  "round_trip exchange fresh peer req idle =
     (let (pooled, idle1) = checkout peer idle;
          retry = (case fresh of
                     Inl e \<Rightarrow> (Inl e, idle1)
                   | Inr c \<Rightarrow> (case exchange c req of
                                (Inr r, c') \<Rightarrow> (Inr r, checkin peer c' idle1)
                              | (Inl e, _) \<Rightarrow> (Inl e, idle1)))
      in case pooled of
           None \<Rightarrow> retry
         | Some c \<Rightarrow> (case exchange c req of
                       (Inr r, c') \<Rightarrow> (Inr r, checkin peer c' idle1)
                     | (Inl _, _) \<Rightarrow> retry))"

section \<open>Receiving an object\<close>

definition MAX_PLAINTEXT_CHUNK :: nat where
  "MAX_PLAINTEXT_CHUNK = 16 * 1024"

text \<open>
  The loop of \<open>stream_to_file\<close>: \<open>remaining\<close> bytes are still to be received, in pieces of at most
  one chunk. The bytes that arrive are \<open>incoming\<close>; asking for more gives the error \<open>eof\<close>. The
  result is the content written so far, and whether all of it arrived.
\<close>

function stream_loop :: "nat \<Rightarrow> bytes \<Rightarrow> io_error \<Rightarrow> bytes \<Rightarrow> unit io_result \<times> bytes" where
  "stream_loop remaining incoming eof written =
     (if remaining = 0 then (Inr (), written)
      else let to_read = min remaining MAX_PLAINTEXT_CHUNK in
           if length incoming < to_read then (Inl eof, written)
           else stream_loop (remaining - to_read) (drop to_read incoming) eof (written @ take to_read incoming))"
  by pat_completeness auto
termination
  by (relation "measure fst") (auto simp: MAX_PLAINTEXT_CHUNK_def)

declare stream_loop.simps [simp del]

definition stream_to_file ::
    "lib \<Rightarrow> fs \<Rightarrow> u64 \<Rightarrow> bytes \<Rightarrow> io_error \<Rightarrow> hash32 \<Rightarrow> abspath \<Rightarrow> unit io_result \<times> fs" where
  "stream_to_file X fs sz incoming eof expected_hash dest =
     io_seq (write_file fs dest [])
       (\<lambda>fs1. case stream_loop (unat sz) incoming eof [] of
                (r, c) \<Rightarrow>
                  io_seq (write_file fs1 dest c)
                    (\<lambda>fs2. case r of
                             Inl e \<Rightarrow> (Inl e, fs2)
                           | Inr _ \<Rightarrow> if blake3 X c \<noteq> expected_hash then (Inl Other, fs2) else (Inr (), fs2)))"

text \<open>\<open>obj\<close> is the peer's answer to the object request with this id: the header, then the bytes.\<close>

definition get_object_to_file ::
    "lib \<Rightarrow> (response_message \<times> bytes \<times> io_error) io_result \<Rightarrow> u64 \<Rightarrow> hash32 \<Rightarrow> u64 \<Rightarrow> abspath \<Rightarrow> fs \<Rightarrow>
     unit io_result \<times> fs" where
  "get_object_to_file X obj rid content_hash expected_size dest fs =
     (case obj of
        Inl e \<Rightarrow> (Inl e, fs)
      | Inr (ObjectHeader actual sz, incoming, eof) \<Rightarrow>
          if actual \<noteq> rid then (Inl Other, fs)
          else if sz \<noteq> expected_size then (Inl Other, fs)
          else (case stream_to_file X fs sz incoming eof content_hash dest of
                  (Inr _, fs1) \<Rightarrow> (Inr (), fs1)
                | (Inl e, fs1) \<Rightarrow> (Inl e, snd (remove_file fs1 dest)))
      | Inr _ \<Rightarrow> (Inl Other, fs))"

section \<open>Who is served\<close>

lemma active_is_known: "is_active_member g peer \<Longrightarrow> is_known_member g peer"
  by (auto simp: is_active_member_def is_known_member_def fmlookup_dom_iff split: option.splits)


definition ex_server :: server where
  "ex_server =
     \<lparr>sv_state = ex_state, sv_group = ex_group 1 [ex_member 1 Active 1, ex_member 2 Active 2, ex_member 3 Removed 3],
      sv_fs = ex_invite_fs, sv_events = []\<rparr>"


lemma serve_never_panics: "fst (serve J X now invites_path peer ip req sv) \<noteq> None"
  by (cases req) (auto simp: serve_def check_member_def check_known_member_def split: prod.splits)

lemma add_active_peer_effect:
  assumes "add_active_peer J peer g fs = (Inr b, g', fs')"
  shows "is_active_member g' peer"
    and "node_id_to_string q \<noteq> node_id_to_string peer \<Longrightarrow> is_active_member g' q = is_active_member g q"
  using assms
  by (auto simp: add_active_peer_def is_active_member_def Let_def split: option.splits if_splits sum.splits prod.splits)

text \<open>
  Joining: a join is accepted only for the node that holds the authenticated connection and
  only when an unexpired invitation with this secret was found (and thereby consumed); then
  exactly that node becomes an active member, and the members are sent to it.
\<close>

theorem join_needs_invite:
  assumes "serve J X now invites_path peer ip (Join rid secret joiner) sv =
    (Some (Inr (JoinAccepted i members, b)), sv')"
  shows "joiner = node_id_to_string peer \<and> i = rid \<and> members = group_members (sv_group sv') \<and>
    fst (consume_invite J X now (sv_fs sv) invites_path secret) = Inr True \<and>
    is_active_member (sv_group sv') peer \<and> sv_events sv' = sv_events sv @ [PeerJoined peer] \<and>
    (\<forall>q. node_id_to_string q \<noteq> node_id_to_string peer \<longrightarrow>
       is_active_member (sv_group sv') q = is_active_member (sv_group sv) q)"
proof -
  obtain fs1 a g fs2 where c: "consume_invite J X now (sv_fs sv) invites_path secret = (Inr True, fs1)"
    and g: "add_active_peer J peer (sv_group sv) fs1 = (Inr a, g, fs2)" and j: "joiner = node_id_to_string peer"
    and sv': "sv' = sv\<lparr>sv_group := g, sv_fs := fs2, sv_events := sv_events sv @ [PeerJoined peer]\<rparr>"
    and "i = rid" "members = group_members g"
    using assms by (auto simp: serve_def handle_join_def split: if_splits prod.splits sum.splits bool.splits)
  then show ?thesis using add_active_peer_effect [OF g] by simp
qed

theorem join_needs_invite_witness:
  "(let R = serve ex_json ex_lib 50 [''r'', ''.lil'', ''invites.json''] (ex_node 4) (V4 [10, 0, 0, 1])
      (Join 7 ''secret'' (node_id_to_string (ex_node 4))) ex_server
    in is_active_member (sv_group (snd R)) (ex_node 4))"
proof -
  let ?R = "serve ex_json ex_lib 50 [''r'', ''.lil'', ''invites.json''] (ex_node 4) (V4 [10, 0, 0, 1])
      (Join 7 ''secret'' (node_id_to_string (ex_node 4))) ex_server"
  have "case fst ?R of Some (Inr (JoinAccepted i ms, b)) \<Rightarrow> True | _ \<Rightarrow> False" by code_simp
  then obtain i ms b where "fst ?R = Some (Inr (JoinAccepted i ms, b))"
    by (auto split: option.splits sum.splits prod.splits response_message.splits)
  then have "?R = (Some (Inr (JoinAccepted i ms, b)), snd ?R)" by (cases ?R) auto
  from join_needs_invite [OF this] show ?thesis by (simp add: Let_def)
qed

text \<open>
  A join that is rejected because the ledger could not be written still leaves the joiner an active
  member in memory: \<open>add_active_peer\<close> changes the ledger before it saves it.
\<close>

definition ex_full_server :: server where
  "ex_full_server = ex_server\<lparr>sv_fs := ex_invite_fs\<lparr>fs_faults :=
     fmupd [''r'', ''.lil'', ''peers.tmp''] PermissionDenied (fs_faults ex_invite_fs)\<rparr>\<rparr>"

theorem rejected_joiner_is_member:
  "(let R = serve ex_json ex_lib 50 [''r'', ''.lil'', ''invites.json''] (ex_node 4) (V4 [10, 0, 0, 1])
      (Join 7 ''secret'' (node_id_to_string (ex_node 4))) ex_full_server
    in fst R = Some (Inr (JoinRejected 7 ''could not add peer'', [])) \<and>
       is_active_member (sv_group (snd R)) (ex_node 4))"
  by code_simp

section \<open>Connections are what they claim to be\<close>

definition pool_ok :: "('c \<Rightarrow> node_id) \<Rightarrow> 'c pool \<Rightarrow> bool" where
  "pool_ok conn_peer idle \<longleftrightarrow>
     (\<forall>peer q. fmlookup idle peer = Some q \<longrightarrow> length q \<le> POOL_SIZE \<and> (\<forall>c \<in> set q. conn_peer c = peer))"

lemma connect_endpoints_peer:
  "connect_endpoints dial conn_peer peer err es = Inr c \<Longrightarrow> conn_peer c = peer"
  by (induction es arbitrary: err) (auto split: sum.splits if_splits)

lemma connect_peer: "connect dial conn_peer peer books = Inr c \<Longrightarrow> conn_peer c = peer"
  by (auto simp: connect_def and_then_def split: sum.splits dest: connect_endpoints_peer)

lemma checkout_ok:
  assumes "pool_ok conn_peer idle" "checkout peer idle = (r, idle')"
  shows "pool_ok conn_peer idle'" "\<And>c. r = Some c \<Longrightarrow> conn_peer c = peer"
  using assms by (fastforce simp: checkout_def pool_ok_def split: option.splits list.splits if_splits)+

lemma checkin_ok: "pool_ok conn_peer idle \<Longrightarrow> conn_peer c = peer \<Longrightarrow> pool_ok conn_peer (checkin peer c idle)"
  by (auto simp: checkin_def pool_ok_def Let_def split: option.splits if_splits) (metis le_antisym not_less)

text \<open>
  The pool: a round trip, whether it uses a pooled connection, falls back to a fresh one or
  fails, keeps the pool bounded per peer and filled only with connections authenticated as the
  peer they are filed under; a fresh connection is authenticated as the wanted peer whatever the
  endpoints answer; and the response comes from a connection to that peer.
\<close>

theorem round_trip_keeps_pool:
  assumes "pool_ok conn_peer idle" "\<And>c req r c'. exchange c req = (r, c') \<Longrightarrow> conn_peer c' = conn_peer c"
    and "round_trip exchange (connect dial conn_peer peer books) peer req idle = (r, idle')"
  shows "pool_ok conn_peer idle' \<and>
    (\<forall>resp. r = Inr resp \<longrightarrow> (\<exists>c. conn_peer c = peer \<and> fst (exchange c req) = Inr resp))"
proof -
  obtain pooled idle1 where co: "checkout peer idle = (pooled, idle1)" by fastforce
  note ok = checkout_ok [OF assms(1) co]
  have used: "pool_ok conn_peer (checkin peer c' idle1) \<and> (\<exists>c. conn_peer c = peer \<and> fst (exchange c req) = Inr resp)"
    if "conn_peer c = peer" "exchange c req = (Inr resp, c')" for c c' resp
    using that ok(1) assms(2) [OF that(2)] by (auto intro: checkin_ok)
  show ?thesis
    using assms(3) co ok used connect_peer [of dial conn_peer peer books]
    unfolding round_trip_def Let_def by (fastforce split: option.splits sum.splits prod.splits)
qed

theorem round_trip_keeps_pool_witness:
  "pool_ok fst (snd (round_trip (\<lambda>c req. (Inr (RespOk (request_id req)), c))
     (connect (\<lambda>e. Inr (ex_node 2, e)) fst (ex_node 2) [fmupd (ex_node 2) \<lparr>pi_endpoints = [''h:1''], pi_name = None\<rparr> fmempty])
     (ex_node 2) (GetRoot 1) fmempty))"
proof -
  let ?R = "round_trip (\<lambda>c req. (Inr (RespOk (request_id req)), c))
     (connect (\<lambda>e. Inr (ex_node 2, e)) fst (ex_node 2) [fmupd (ex_node 2) \<lparr>pi_endpoints = [''h:1''], pi_name = None\<rparr> fmempty])
     (ex_node 2) (GetRoot 1) fmempty"
  have "pool_ok fst (fmempty :: (node_id \<times> string) pool)" by (simp add: pool_ok_def)
  from round_trip_keeps_pool [OF this _ prod.collapse [symmetric, of ?R]] show ?thesis by simp
qed

section \<open>A received object is the object\<close>

lemma stream_loop_complete:
  "remaining \<le> length incoming \<Longrightarrow>
     stream_loop remaining incoming eof written = (Inr (), written @ take remaining incoming)"
proof (induction remaining incoming eof written rule: stream_loop.induct)
  case (1 remaining incoming eof written)
  show ?case
  proof (cases "remaining = 0")
    case False
    let ?n = "min remaining MAX_PLAINTEXT_CHUNK"
    have "\<not> length incoming < ?n" using "1.prems" by simp
    then have "stream_loop remaining incoming eof written =
        (Inr (), (written @ take ?n incoming) @ take (remaining - ?n) (drop ?n incoming))"
      using "1.IH" [OF False refl] "1.prems" False by (subst stream_loop.simps) (simp add: Let_def)
    then show ?thesis by (simp flip: take_add)
  qed (simp add: stream_loop.simps)
qed

lemma stream_loop_short:
  "length incoming < remaining \<Longrightarrow> fst (stream_loop remaining incoming eof written) = Inl eof"
proof (induction remaining incoming eof written rule: stream_loop.induct)
  case (1 remaining incoming eof written)
  let ?n = "min remaining MAX_PLAINTEXT_CHUNK"
  have ne: "remaining \<noteq> 0" using "1.prems" by simp
  show ?case
  proof (cases "length incoming < ?n")
    case True
    with ne show ?thesis by (subst stream_loop.simps) (simp add: Let_def)
  next
    case False
    with ne "1.prems" "1.IH" [OF ne refl False] show ?thesis
      by (subst stream_loop.simps) (auto simp: Let_def)
  qed
qed

lemma stream_to_file_result:
  assumes "real_dir fs d" "no_fault fs (d @ [n])" "plain (node_at fs (d @ [n]))"
    and "stream_to_file X fs sz incoming eof h (d @ [n]) = (r, fs')"
  obtains c m where "fs' = put_node (d @ [n]) (FsFile c m (fs_now fs)) fs"
    "r = Inr () \<longrightarrow> unat sz \<le> length incoming \<and> c = take (unat sz) incoming \<and> blake3 X c = h"
proof -
  have slot: "node_at fs (d @ [n]) = None \<or> (\<exists>c m t. node_at fs (d @ [n]) = Some (FsFile c m t))"
    using assms(3) by (auto elim: plainE)
  obtain m where w1: "write_file fs (d @ [n]) [] = (Inr (), put_node (d @ [n]) (FsFile [] m (fs_now fs)) fs)"
    by (rule write_file_real [OF assms(1,2) slot])
  let ?fs1 = "put_node (d @ [n]) (FsFile [] m (fs_now fs)) fs"
  obtain r1 c where loop: "stream_loop (unat sz) incoming eof [] = (r1, c)" by fastforce
  have d1: "real_dir ?fs1 d" using assms(1,3) by (intro real_dir_put) auto
  obtain m' where w2: "write_file ?fs1 (d @ [n]) c = (Inr (), put_node (d @ [n]) (FsFile c m' (fs_now ?fs1)) ?fs1)"
    by (rule write_file_real [OF d1]) (use assms(2) in auto)
  have "put_node (d @ [n]) (FsFile c m' (fs_now ?fs1)) ?fs1 = put_node (d @ [n]) (FsFile c m' (fs_now fs)) fs"
    by (auto simp: put_node_def intro!: fmap_ext)
  with w1 w2 loop assms(4) have "fs' = put_node (d @ [n]) (FsFile c m' (fs_now fs)) fs"
    and r: "r = Inr () \<Longrightarrow> r1 = Inr () \<and> blake3 X c = h"
    by (auto simp: stream_to_file_def io_seq_def split: sum.splits if_splits)
  moreover have "unat sz \<le> length incoming \<and> c = take (unat sz) incoming" if "r1 = Inr ()"
    using that loop stream_loop_short [of incoming "unat sz" eof "[]"] stream_loop_complete [of "unat sz" incoming eof "[]"]
    by (cases "unat sz \<le> length incoming") (auto simp: not_le)
  ultimately show ?thesis using that by blast
qed

text \<open>
  C32. An object is verified before it is used: when \<open>get_object_to_file\<close> succeeds, the file holds
  exactly the announced number of bytes and their BLAKE3 hash is the requested one, whatever the
  peer sent; when it fails, either nothing was written or the partial file is gone. No other file
  is touched.
\<close>

theorem received_object_is_verified:
  assumes "real_dir fs d" "no_fault fs (d @ [n])" "plain (node_at fs (d @ [n]))"
    and "get_object_to_file X obj rid h expected_size (d @ [n]) fs = (r, fs')"
  shows "(\<forall>q. q \<noteq> d @ [n] \<longrightarrow> node_at fs' q = node_at fs q) \<and>
    (case r of
       Inr _ \<Rightarrow> \<exists>c. read_file fs' (d @ [n]) = Inr c \<and> blake3 X c = h \<and> length c = unat expected_size
     | Inl _ \<Rightarrow> fs' = fs \<or> node_at fs' (d @ [n]) = None)"
proof (cases "\<exists>incoming eof. obj = Inr (ObjectHeader rid expected_size, incoming, eof)")
  case False
  then have "fs' = fs" "isl r"
    using assms(4) by (auto simp: get_object_to_file_def split: sum.splits prod.splits response_message.splits if_splits)
  then show ?thesis by (cases r) simp_all
next
  case True
  then obtain incoming eof where obj: "obj = Inr (ObjectHeader rid expected_size, incoming, eof)" by blast
  obtain r1 fs1 where st: "stream_to_file X fs expected_size incoming eof h (d @ [n]) = (r1, fs1)" by fastforce
  obtain c m where fs1: "fs1 = put_node (d @ [n]) (FsFile c m (fs_now fs)) fs"
    and ok: "r1 = Inr () \<longrightarrow> unat expected_size \<le> length incoming \<and> c = take (unat expected_size) incoming \<and> blake3 X c = h"
    by (rule stream_to_file_result [OF assms(1-3) st])
  have d1: "real_dir fs1 d" unfolding fs1 using assms(1,3) by (intro real_dir_put) auto
  show ?thesis
  proof (cases r1)
    case (Inr u)
    then have "r = Inr ()" "fs' = fs1" using assms(4) obj st by (auto simp: get_object_to_file_def)
    moreover have "read_file fs1 (d @ [n]) = Inr c"
      by (rule read_file_real [OF d1]) (use assms(2) fs1 in auto)
    ultimately show ?thesis using ok Inr by (auto simp: fs1)
  next
    case (Inl e)
    have "remove_file fs1 (d @ [n]) = (Inr (), drop_node (d @ [n]) fs1)"
      using d1 assms(2) by (simp add: remove_file_def real_simps fs1)
    then have "r = Inl e" "fs' = drop_node (d @ [n]) fs1"
      using Inl assms(4) obj st by (auto simp: get_object_to_file_def)
    then show ?thesis by (simp add: fs1)
  qed
qed

theorem received_object_is_verified_witness:
  "(let R = get_object_to_file ex_lib (Inr (ObjectHeader 1 2, [9, 9], UnexpectedEof)) 1 (tail_hash [9, 9]) 2
      [''r'', ''.lil'', ''recv-2''] ex_fs
    in fst R = Inr () \<and> (\<exists>c. read_file (snd R) [''r'', ''.lil'', ''recv-2''] = Inr c \<and> tail_hash c = tail_hash [9, 9]))"
proof -
  let ?R = "get_object_to_file ex_lib (Inr (ObjectHeader 1 2, [9, 9], UnexpectedEof)) 1 (tail_hash [9, 9]) 2
      ([''r'', ''.lil''] @ [''recv-2'']) ex_fs"
  have v: "real_dir ex_fs [''r'', ''.lil''] \<and> no_fault ex_fs ([''r'', ''.lil''] @ [''recv-2'']) \<and>
      plain (node_at ex_fs ([''r'', ''.lil''] @ [''recv-2''])) \<and> fst ?R = Inr ()" by code_simp
  then show ?thesis
    using received_object_is_verified [OF _ _ _ prod.collapse [symmetric, of ?R]] by (auto simp: ex_lib_def Let_def)
qed

end
