(* ===== verification/Lil_Soundness.thy ===== *)
theory Lil_Soundness
  imports Lil_Incremental
begin

text \<open>
  What a Merkle hash commits to. The byte encodings of \<open>hash_entry\<close> and \<open>hash_node\<close> are
  injective, so two trees with the same hash at a prefix hold the same entries below it, as long
  as BLAKE3 gives no other input the digest of an input of the first tree. This is what makes it
  sound for a reconciliation to skip a subtree whose hash it already has.
\<close>

section \<open>The encodings are injective\<close>

definition short :: "bytes \<Rightarrow> bool" where
  "short b \<longleftrightarrow> int (length b) < 2 ^ 64"

text \<open>Values of type \<open>[u8; 32]\<close> are byte lists in the model; this is their length.\<close>

definition typed_entry :: "entry \<Rightarrow> bool" where
  "typed_entry e \<longleftrightarrow> (case e_content_hash e of None \<Rightarrow> True | Some h \<Rightarrow> length h = 32)"

definition digest_length :: "hasher \<Rightarrow> bool" where
  "digest_length H \<longleftrightarrow> (\<forall>b. length (H b) = 32)"

lemma of_nat_short_inject:
  assumes "int a < 2 ^ 64" "int b < 2 ^ 64" "(of_nat a :: u64) = of_nat b"
  shows "a = b"
proof -
  have small: "uint (of_nat n :: u64) = int n" if "int n < 2 ^ 64" for n
  proof -
    have "uint (of_nat n :: u64) = int n mod 2 ^ 64"
      using uint_word_of_int [where 'a = 64, of "int n"] by simp
    with that show ?thesis by simp
  qed
  have "int a = int b" using small [OF assms(1)] small [OF assms(2)] assms(3) by metis
  then show ?thesis by simp
qed

lemma short_append: "short (a @ b) \<Longrightarrow> short a \<and> short b"
  by (simp add: short_def)

lemma short_ConsD: "short (a # b) \<Longrightarrow> short b"
  by (simp add: short_def)

lemma encode_str_cancel:
  assumes "encode_str s @ r = encode_str t @ q" "short (encode_str s @ r)"
  shows "s = t \<and> r = q"
proof -
  have split: "u64_to_be_bytes (of_nat (length s)) = u64_to_be_bytes (of_nat (length t))"
    "as_bytes s @ r = as_bytes t @ q"
    using assms(1) by (simp_all add: encode_str_def)
  have "int (length s) < 2 ^ 64" "int (length t) < 2 ^ 64"
    using assms(2) arg_cong [OF split(2), of length] by (simp_all add: short_def encode_str_def)
  with split(1) have "length s = length t" by (intro of_nat_short_inject) simp_all
  with split(2) show ?thesis by simp
qed

lemma u64_to_be_bytes_not_Nil [simp]: "u64_to_be_bytes w \<noteq> []"
  by (metis length_u64_to_be_bytes list.size(3) zero_neq_numeral)

lemma u64_cancel: "u64_to_be_bytes a @ r = u64_to_be_bytes b @ q \<longleftrightarrow> a = b \<and> r = q"
  by simp

lemma opt_hash_cancel:
  assumes "encode_opt_hash a @ r = encode_opt_hash b @ q"
    and "case a of None \<Rightarrow> True | Some h \<Rightarrow> length h = 32" "case b of None \<Rightarrow> True | Some h \<Rightarrow> length h = 32"
  shows "a = b \<and> r = q"
  using assms by (cases a; cases b) auto

lemma opt_str_cancel:
  assumes "encode_opt_str a @ r = encode_opt_str b @ q" "short (encode_opt_str a @ r)"
  shows "a = b \<and> r = q"
proof (cases a; cases b)
  fix s t
  assume st: "a = Some s" "b = Some t"
  then have "encode_str s @ r = encode_str t @ q" "short (encode_str s @ r)"
    using assms by (auto dest: short_ConsD)
  from encode_str_cancel [OF this] show ?thesis by (simp add: st)
qed (use assms in auto)

lemma opt_u32_cancel: "encode_opt_u32 a @ r = encode_opt_u32 b @ q \<longleftrightarrow> a = b \<and> r = q"
  by (cases a; cases b) auto

lemma kind_as_str_inject: "kind_as_str a = kind_as_str b \<Longrightarrow> a = b"
  by (cases a; cases b) auto

lemma entry_preimage_inject:
  assumes "entry_preimage e = entry_preimage f" "short (entry_preimage e)" "typed_entry e" "typed_entry f"
  shows "e = f"
proof -
  note s = short_append
  from encode_str_cancel [OF assms(1,2) [unfolded entry_preimage_def]] s [OF assms(2) [unfolded entry_preimage_def]]
  have a1: "encode_str (e_path e) @ encode_str (kind_as_str (e_kind e)) @
     encode_opt_hash (e_content_hash e) @ encode_opt_str (e_symlink_target e) @
     u64_to_be_bytes (e_size e) @ encode_opt_u32 (e_mode e) @
     u64_to_be_bytes (v_lamport (e_version e)) @ encode_str (v_origin (e_version e)) =
     encode_str (e_path f) @ encode_str (kind_as_str (e_kind f)) @
     encode_opt_hash (e_content_hash f) @ encode_opt_str (e_symlink_target f) @
     u64_to_be_bytes (e_size f) @ encode_opt_u32 (e_mode f) @
     u64_to_be_bytes (v_lamport (e_version f)) @ encode_str (v_origin (e_version f))"
    and b1: "short (encode_str (e_path e) @ encode_str (kind_as_str (e_kind e)) @
     encode_opt_hash (e_content_hash e) @ encode_opt_str (e_symlink_target e) @
     u64_to_be_bytes (e_size e) @ encode_opt_u32 (e_mode e) @
     u64_to_be_bytes (v_lamport (e_version e)) @ encode_str (v_origin (e_version e)))" by blast+
  from encode_str_cancel [OF a1 b1] s [OF b1] have p: "e_path e = e_path f" by blast
  note a2 = conjunct2 [OF encode_str_cancel [OF a1 b1]] and b2 = conjunct2 [OF s [OF b1]]
  from encode_str_cancel [OF a2 b2] have k: "e_kind e = e_kind f" using kind_as_str_inject by blast
  note a3 = conjunct2 [OF encode_str_cancel [OF a2 b2]] and b3 = conjunct2 [OF s [OF b2]]
  have c: "e_content_hash e = e_content_hash f" and
    a4: "encode_opt_str (e_symlink_target e) @ u64_to_be_bytes (e_size e) @ encode_opt_u32 (e_mode e) @
     u64_to_be_bytes (v_lamport (e_version e)) @ encode_str (v_origin (e_version e)) =
     encode_opt_str (e_symlink_target f) @ u64_to_be_bytes (e_size f) @ encode_opt_u32 (e_mode f) @
     u64_to_be_bytes (v_lamport (e_version f)) @ encode_str (v_origin (e_version f))"
    using opt_hash_cancel [OF a3 assms(3,4) [unfolded typed_entry_def]] by simp_all
  note b4 = conjunct2 [OF s [OF b3]]
  note t = opt_str_cancel [OF a4 b4]
  then have a5: "e_size e = e_size f" "e_mode e = e_mode f" "v_lamport (e_version e) = v_lamport (e_version f)"
    "encode_str (v_origin (e_version e)) @ [] = encode_str (v_origin (e_version f)) @ []"
    by (simp_all add: opt_u32_cancel)
  have "short (encode_str (v_origin (e_version e)) @ [])" using b4 by (simp add: short_def)
  with a5(4) have o: "v_origin (e_version e) = v_origin (e_version f)" using encode_str_cancel by blast
  from o a5(3) have "e_version e = e_version f"
    by (cases "e_version e"; cases "e_version f") simp
  with p k c t a5 show ?thesis by (simp add: entry.equality)
qed

section \<open>Nodes\<close>

definition encode_item :: "string \<times> string \<times> hash32 \<Rightarrow> bytes" where
  "encode_item x = (case x of (tag, name, h) \<Rightarrow> encode_str tag @ encode_str name @ h)"

lemma encode_named_items: "encode_named tag xs = concat (map encode_item (map (Pair tag) xs))"
  by (induction xs) (auto simp: encode_named_def encode_item_def)

lemma encode_item_not_Nil: "encode_item x \<noteq> []"
proof -
  obtain a n h where "x = (a, n, h)" by (metis prod_cases3)
  then show ?thesis by (simp add: encode_item_def encode_str_def)
qed

lemma encode_item_cancel:
  assumes "encode_item x @ r = encode_item y @ q" "short (encode_item x @ r)"
    and "length (snd (snd x)) = 32" "length (snd (snd y)) = 32"
  shows "x = y \<and> r = q"
proof -
  obtain a n h b m g where xy: "x = (a, n, h)" "y = (b, m, g)" by (metis prod_cases3)
  have 1: "encode_str a @ encode_str n @ h @ r = encode_str b @ encode_str m @ g @ q"
    "short (encode_str a @ encode_str n @ h @ r)"
    using assms(1,2) by (simp_all add: encode_item_def xy)
  note 2 = conjunct2 [OF encode_str_cancel [OF 1]] conjunct2 [OF short_append [OF 1(2)]]
  from encode_str_cancel [OF 1] encode_str_cancel [OF 2] assms(3,4) show ?thesis by (simp add: xy)
qed

lemma encode_items_inject:
  assumes "concat (map encode_item xs) = concat (map encode_item ys)" "short (concat (map encode_item xs))"
    and "\<forall>x \<in> set xs. length (snd (snd x)) = 32" "\<forall>y \<in> set ys. length (snd (snd y)) = 32"
  shows "xs = ys"
  using assms
proof (induction xs arbitrary: ys)
  case Nil
  then show ?case by (cases ys) (simp_all add: encode_item_not_Nil)
next
  case (Cons x xs)
  then obtain y zs where ys: "ys = y # zs" by (cases ys) (simp_all add: encode_item_not_Nil)
  have "x = y \<and> concat (map encode_item xs) = concat (map encode_item zs)"
    using Cons.prems ys by (intro encode_item_cancel) simp_all
  with Cons.IH [of zs] Cons.prems ys show ?case by (auto dest: short_append)
qed

definition typed_map :: "(string, hash32) fmap \<Rightarrow> bool" where
  "typed_map m \<longleftrightarrow> fmpred (\<lambda>_ h. length h = 32) m"

lemma display_prefix_inject: "display_prefix p = display_prefix q \<Longrightarrow> p = q"
  by (auto simp: display_prefix_def split: if_splits)

lemma node_preimage_inject:
  assumes "node_preimage p es cs = node_preimage p' es' cs'" "short (node_preimage p es cs)"
    and "typed_map es" "typed_map cs" "typed_map es'" "typed_map cs'"
  shows "p = p' \<and> es = es' \<and> cs = cs'"
proof -
  let ?items = "\<lambda>es cs. map (Pair ''entry'') (fm_iter es) @ map (Pair ''child'') (fm_iter cs)"
  have pre: "node_preimage p es cs = as_bytes ''lil-node-v1'' @ encode_str p @ concat (map encode_item (?items es cs))"
    for p es cs by (simp add: node_preimage_def encode_named_items)
  have typed: "\<forall>x \<in> set (?items es cs). length (snd (snd x)) = 32" if "typed_map es" "typed_map cs" for es cs
    using that by (auto simp: fm_simps typed_map_def dest!: fmpredD)
  have 1: "encode_str p @ concat (map encode_item (?items es cs)) = encode_str p' @ concat (map encode_item (?items es' cs'))"
    "short (encode_str p @ concat (map encode_item (?items es cs)))"
    using assms(1,2) unfolding pre by (simp_all add: short_def)
  note 2 = encode_str_cancel [OF 1] conjunct2 [OF short_append [OF 1(2)]]
  have eq: "?items es cs = ?items es' cs'"
    by (rule encode_items_inject) (use 2 typed assms in auto)
  have flt: "filter (\<lambda>x. fst x = ''entry'') (?items es cs) = map (Pair ''entry'') (fm_iter es)"
    "filter (\<lambda>x. fst x = ''child'') (?items es cs) = map (Pair ''child'') (fm_iter cs)" for es cs
    by (simp_all add: filter_map comp_def)
  have "map (Pair ''entry'') (fm_iter es) = map (Pair ''entry'') (fm_iter es')"
    "map (Pair ''child'') (fm_iter cs) = map (Pair ''child'') (fm_iter cs')"
    using arg_cong [OF eq, of "filter (\<lambda>x. fst x = ''entry'')"] arg_cong [OF eq, of "filter (\<lambda>x. fst x = ''child'')"]
    unfolding flt .
  then have "fm_iter es = fm_iter es'" "fm_iter cs = fm_iter cs'"
    by (auto dest!: map_injective intro: injI)
  with 2 show ?thesis by simp
qed

section \<open>Equal hashes mean equal entries\<close>

definition rel_path :: "string \<Rightarrow> bool" where
  "rel_path p \<longleftrightarrow> \<not> starts_with p ''/''"

lemma rel_path_parent: "rel_path p \<Longrightarrow> rel_path (parent_path p)"
proof (cases p rule: parent_basename_cases)
  case nested
  assume "rel_path p"
  then show ?thesis
    using nested by (metis rel_path_def starts_with_iff append_assoc)
next
  case top
  then show ?thesis by (simp add: rel_path_def starts_with_iff)
qed

lemma rel_path_ancestors_from: "rel_path p \<Longrightarrow> q \<in> set (ancestors_from p) \<Longrightarrow> rel_path q"
proof (induction p rule: ancestors_from.induct)
  case (1 p)
  then show ?case
    by (cases "q = p") (auto simp: in_ancestors_from [of q p] rel_path_parent)
qed

lemma rel_path_ancestors: "rel_path p \<Longrightarrow> q \<in> set (ancestors p) \<Longrightarrow> rel_path q"
  unfolding ancestors_def by (meson rel_path_parent rel_path_ancestors_from)

lemma rel_path_inject:
  "rel_path p \<Longrightarrow> rel_path q \<Longrightarrow> parent_path p = parent_path q \<Longrightarrow> basename p = basename q \<Longrightarrow> p = q"
  unfolding rel_path_def by (rule parent_basename_inject)

definition rel_keys :: "(string, 'v) fmap \<Rightarrow> bool" where
  "rel_keys m \<longleftrightarrow> fmpred (\<lambda>k _. rel_path k) m"

lemma rel_keysD: "rel_keys m \<Longrightarrow> fmlookup m k = Some v \<Longrightarrow> rel_path k"
  by (auto simp: rel_keys_def dest: fmpredD)

lemma direct_entries_lookup:
  assumes "wf_index E" "rel_keys E" "fmlookup E k = Some e" "incl e"
  shows "fmlookup (direct_entries H E incl (parent_path k)) (basename k) = Some (hash_entry H e)"
  unfolding direct_entries_def
proof (subst fm_collect_functional)
  let ?L = "map (\<lambda>e. (basename (e_path e), hash_entry H e))
    (filter (\<lambda>e. incl e \<and> parent_path (e_path e) = parent_path k) (fm_values E))"
  have k: "e_path e = k" using assms(1,3) by (rule wf_indexD)
  show "v = hash_entry H e" if v: "(basename k, v) \<in> set ?L" for v
  proof -
    from v obtain f q where f: "fmlookup E q = Some f" "basename (e_path f) = basename k"
      "parent_path (e_path f) = parent_path k" "v = hash_entry H f" by (auto simp: fm_simps)
    have q: "e_path f = q" using assms(1) f(1) by (rule wf_indexD)
    have "q = k"
      using rel_path_inject [OF rel_keysD [OF assms(2) f(1)] rel_keysD [OF assms(2,3)]] f(2,3) unfolding q by simp
    with f assms(3) show ?thesis by simp
  qed
  show "(basename k, hash_entry H e) \<in> set ?L"
    using assms(3,4) k by (force simp: fm_simps)
qed

lemma direct_entries_in:
  assumes "fmlookup (direct_entries H E incl p) n = Some h"
  shows "\<exists>k e. fmlookup E k = Some e \<and> incl e \<and> h = hash_entry H e \<and>
    parent_path (e_path e) = p \<and> basename (e_path e) = n"
  using fm_collect_in [OF assms [unfolded direct_entries_def]] by (auto simp: fm_simps)

lemma in_child_paths:
  "c \<in> set (child_paths m p) \<longleftrightarrow> c \<in> fmdom' m \<and> c \<noteq> [] \<and> parent_path c = p"
  by (auto simp: child_paths_def fmdom'_alt_def)

lemma direct_children_lookup:
  assumes "rel_keys m" "fmlookup m c = Some n" "c \<noteq> []"
  shows "fmlookup (direct_children m (parent_path c)) (basename c) = Some (tn_hash n)"
  unfolding direct_children_def
proof (subst fm_collect_functional)
  let ?L = "map (\<lambda>c. (basename c, tn_hash (the (fmlookup m c)))) (child_paths m (parent_path c))"
  show "v = tn_hash n" if v: "(basename c, v) \<in> set ?L" for v
  proof -
    from v obtain d where d: "d \<in> fmdom' m" "parent_path d = parent_path c" "basename d = basename c"
      "v = tn_hash (the (fmlookup m d))" by (auto simp: in_child_paths)
    then obtain x where "fmlookup m d = Some x" by (auto simp: fmlookup_dom'_iff)
    from rel_path_inject [OF rel_keysD [OF assms(1) this] rel_keysD [OF assms(1,2)] d(2,3)] have "d = c" .
    with d assms(2) show ?thesis by simp
  qed
  have "c \<in> set (child_paths m (parent_path c))" using assms by (simp add: in_child_paths fmlookup_dom'_iff)
  then show "(basename c, tn_hash n) \<in> set ?L" using assms(2) by force
qed

lemma direct_children_in:
  assumes "fmlookup (direct_children m p) x = Some h"
  shows "\<exists>c n. fmlookup m c = Some n \<and> h = tn_hash n \<and> c \<noteq> [] \<and> parent_path c = p \<and> basename c = x"
proof -
  obtain c where "c \<in> fmdom' m" "h = tn_hash (the (fmlookup m c))" "c \<noteq> []" "parent_path c = p" "basename c = x"
    using fm_collect_in [OF assms [unfolded direct_children_def]] by (auto simp: in_child_paths)
  then show ?thesis by (auto simp: fmlookup_dom'_iff intro: exI [of _ c])
qed

lemma merkle_nodeD:
  assumes "merkle H E incl m" "fmlookup m p = Some n"
  shows "tn_prefix n = display_prefix p" "tn_entries n = direct_entries H E incl p"
    "tn_children n = direct_children m p" "tn_hash n = hash_node H (tn_prefix n) (tn_entries n) (tn_children n)"
proof -
  have "n = node_for H E incl p m" using assms by (simp add: merkle_def)
  then show "tn_prefix n = display_prefix p" "tn_entries n = direct_entries H E incl p"
    "tn_children n = direct_children m p" "tn_hash n = hash_node H (tn_prefix n) (tn_entries n) (tn_children n)"
    by (simp_all add: node_for_def mk_node_def)
qed

definition node_image :: "tree_node \<Rightarrow> bytes" where
  "node_image n = node_preimage (tn_prefix n) (tn_entries n) (tn_children n)"

text \<open>No other input has the digest of an input of this tree.\<close>

definition committed :: "hasher \<Rightarrow> index \<Rightarrow> (string, tree_node) fmap \<Rightarrow> bool" where
  "committed H E m \<longleftrightarrow>
     digest_length H \<and>
     (\<forall>x \<in> entry_preimage ` set (fm_values E) \<union> node_image ` set (fm_values m).
        short x \<and> (\<forall>y. H y = H x \<longrightarrow> y = x))"

lemma committedD:
  assumes "committed H E m"
  shows "fmlookup E k = Some e \<Longrightarrow> short (entry_preimage e) \<and> (\<forall>y. H y = H (entry_preimage e) \<longrightarrow> y = entry_preimage e)"
    and "fmlookup m p = Some n \<Longrightarrow> short (node_image n) \<and> (\<forall>y. H y = H (node_image n) \<longrightarrow> y = node_image n)"
  using assms unfolding committed_def by (metis UnI1 UnI2 imageI in_fm_values)+

definition covers :: "(entry \<Rightarrow> bool) \<Rightarrow> index \<Rightarrow> (string, 'n) fmap \<Rightarrow> bool" where
  "covers incl E m \<longleftrightarrow> (\<forall>k e. fmlookup E k = Some e \<longrightarrow> incl e \<longrightarrow> set (ancestors k) \<subseteq> fmdom' m)"

definition typed_index :: "index \<Rightarrow> bool" where
  "typed_index E \<longleftrightarrow> fmpred (\<lambda>_. typed_entry) E"

lemma typed_maps:
  assumes "merkle H E incl m" "digest_length H" "fmlookup m p = Some n"
  shows "typed_map (tn_entries n)" "typed_map (tn_children n)"
proof -
  show "typed_map (tn_entries n)"
    using merkle_nodeD(2) [OF assms(1,3)] direct_entries_in assms(2)
    by (fastforce simp: typed_map_def digest_length_def hash_entry_def intro!: fmpredI)
  have "length (tn_hash c) = 32" if "fmlookup m q = Some c" for q c
    using merkle_nodeD(4) [OF assms(1) that] assms(2) by (simp add: digest_length_def hash_node_def)
  then show "typed_map (tn_children n)"
    using merkle_nodeD(3) [OF assms(1,3)] direct_children_in
    by (fastforce simp: typed_map_def intro!: fmpredI)
qed

lemma equal_hash_same_node:
  assumes "merkle H E incl m" "committed H E m" "merkle H F incl l"
    and "fmlookup m p = Some a" "fmlookup l q = Some b" "tn_hash a = tn_hash b"
  shows "p = q" "tn_entries a = tn_entries b" "tn_children a = tn_children b"
proof -
  have dl: "digest_length H" using assms(2) by (simp add: committed_def)
  have c: "short (node_image a)" "\<And>y. H y = H (node_image a) \<Longrightarrow> y = node_image a"
    using committedD(2) [OF assms(2,4)] by blast+
  have "H (node_image b) = H (node_image a)"
    using assms(6) merkle_nodeD(4) [OF assms(1,4)] merkle_nodeD(4) [OF assms(3,5)]
    by (simp add: hash_node_def node_image_def)
  then have "node_image a = node_image b" using c(2) by metis
  from node_preimage_inject [OF this [unfolded node_image_def] c(1) [unfolded node_image_def]
      typed_maps [OF assms(1) dl assms(4)] typed_maps [OF assms(3) dl assms(5)]]
  have "tn_prefix a = tn_prefix b" and eq: "tn_entries a = tn_entries b" "tn_children a = tn_children b" by blast+
  then show "p = q"
    using merkle_nodeD(1) [OF assms(1,4)] merkle_nodeD(1) [OF assms(3,5)] display_prefix_inject by metis
  from eq show "tn_entries a = tn_entries b" "tn_children a = tn_children b" .
qed

lemma equal_hash_same_entry:
  assumes "committed H E m" "fmlookup E k = Some e" "typed_index E"
    and "wf_index F" "fmlookup F j = Some f" "typed_index F" "hash_entry H f = hash_entry H e"
    and "wf_index E"
  shows "fmlookup F k = Some e"
proof -
  have c: "short (entry_preimage e)" "\<And>y. H y = H (entry_preimage e) \<Longrightarrow> y = entry_preimage e"
    using committedD(1) [OF assms(1,2)] by blast+
  have "entry_preimage e = entry_preimage f" using c(2) assms(7) by (metis hash_entry_def)
  moreover have "typed_entry e" "typed_entry f"
    using assms(2,3,5,6) by (auto simp: typed_index_def dest: fmpredD)
  ultimately have "e = f" using c(1) by (intro entry_preimage_inject)
  moreover have "e_path e = k" "e_path f = j" using assms wf_indexD by blast+
  ultimately show ?thesis using assms(5) by simp
qed

text \<open>The tree \<open>m\<close> of \<open>E\<close> and any tree \<open>l\<close> of \<open>F\<close> with the same hash at \<open>p\<close>: everything of \<open>E\<close>
  below \<open>p\<close> is in \<open>F\<close>.\<close>

lemma equal_hash_same_entries:
  assumes E: "merkle H E incl m" "wf_index E" "rel_keys E" "rel_keys m" "typed_index E" "covers incl E m"
    and F: "merkle H F incl l" "wf_index F" "typed_index F"
    and c: "committed H E m"
  shows "fmlookup m p = Some a \<Longrightarrow> fmlookup l p = Some b \<Longrightarrow> tn_hash a = tn_hash b \<Longrightarrow>
    fmlookup E k = Some e \<Longrightarrow> incl e \<Longrightarrow> p \<in> set (ancestors k) \<Longrightarrow> fmlookup F k = Some e"
proof (induction "length k - length p" arbitrary: p a b rule: less_induct)
  case less
  note same = equal_hash_same_node [OF E(1) c F(1) less.prems(1,2,3)]
  from less.prems(6) show ?case
  proof (cases rule: ancestors_step)
    case 1
    then have "fmlookup (tn_entries b) (basename k) = Some (hash_entry H e)"
      using direct_entries_lookup [OF E(2,3) less.prems(4), of incl H] less.prems(5) merkle_nodeD(2) [OF E(1) less.prems(1)] same(2) by simp
    then have "fmlookup (direct_entries H F incl p) (basename k) = Some (hash_entry H e)"
      using merkle_nodeD(2) [OF F(1) less.prems(2)] by simp
    from direct_entries_in [OF this] obtain j f where
      "fmlookup F j = Some f" "hash_entry H e = hash_entry H f" by blast
    then show ?thesis
      using equal_hash_same_entry [OF c less.prems(4) E(5) F(2) _ F(3) _ E(2)] by metis
  next
    case (2 q)
    then obtain n where n: "fmlookup m q = Some n"
      using E(6) less.prems(4,5) by (fastforce simp: covers_def fmlookup_dom'_iff)
    then have "fmlookup (direct_children l p) (basename q) = Some (tn_hash n)"
      using direct_children_lookup [OF E(4) n 2(2)] 2(3) merkle_nodeD(3) [OF E(1) less.prems(1)]
        merkle_nodeD(3) [OF F(1) less.prems(2)] same(3) by simp
    from direct_children_in [OF this] obtain q' n' where q': "fmlookup l q' = Some n'" "tn_hash n = tn_hash n'"
      by blast
    with equal_hash_same_node(1) [OF E(1) c F(1) n] have "fmlookup l q = Some n'" by metis
    moreover have "length k - length q < length k - length p"
      using 2 parent_path_shorter [of q] ancestors_shorter [of k q] less.prems(6)
      by (cases "k = []") (auto simp: ancestors_def ancestors_from.simps [of "[]"])
    ultimately show ?thesis using less.hyps [OF _ n _ q'(2) less.prems(4,5) 2(1)] by blast
  qed
qed

section \<open>Root hashes\<close>

lemma derive_tree_rel_keys:
  assumes "wf_index E" "rel_keys E"
  shows "rel_keys (ts_nodes (derive_tree_with H E incl))"
  unfolding rel_keys_def
proof (rule fmpredI)
  fix p n
  assume "fmlookup (ts_nodes (derive_tree_with H E incl)) p = Some n"
  then have "p \<in> node_set E incl"
    by (metis fmdom'I derive_tree_with_spec(2))
  then consider "p = []" | k e where "fmlookup E k = Some e" "p \<in> set (ancestors (e_path e)) \<or> p = e_path e"
    by (auto simp: node_set_def)
  then show "rel_path p"
  proof cases
    case 1
    then show ?thesis by (simp add: rel_path_def starts_with_iff)
  next
    case 2
    then show ?thesis
      using wf_indexD [OF assms(1)] rel_keysD [OF assms(2)] rel_path_ancestors by blast
  qed
qed

lemma derive_tree_covers: "wf_index E \<Longrightarrow> covers incl E (ts_nodes (derive_tree_with H E incl))"
  unfolding covers_def derive_tree_with_spec(2) by (auto simp: node_set_def dest: wf_indexD)

lemma derive_tree_root:
  obtains n where "fmlookup (ts_nodes (derive_tree_with H E incl)) [] = Some n"
    "ts_root_hash (derive_tree_with H E incl) = tn_hash n"
proof -
  have "[] \<in> fmdom' (ts_nodes (derive_tree_with H E incl))"
    by (simp add: derive_tree_with_spec(2) node_set_def)
  then obtain n where "fmlookup (ts_nodes (derive_tree_with H E incl)) [] = Some n"
    by (auto simp: fmlookup_dom'_iff)
  with derive_tree_with_spec(3) that show ?thesis by blast
qed

definition index_ok :: "index \<Rightarrow> bool" where
  "index_ok E \<longleftrightarrow> wf_index E \<and> rel_keys E \<and> typed_index E"

lemma equal_roots_subset:
  assumes "index_ok E" "index_ok F" "committed H E (ts_nodes (derive_tree H E))"
    and "ts_root_hash (derive_tree H E) = ts_root_hash (derive_tree H F)" "fmlookup E k = Some e"
  shows "fmlookup F k = Some e"
proof -
  have E: "wf_index E" "rel_keys E" "typed_index E" and F: "wf_index F" "rel_keys F" "typed_index F"
    using assms(1,2) by (simp_all add: index_ok_def)
  obtain a where a: "fmlookup (ts_nodes (derive_tree_with H E incl_all)) [] = Some a"
    "ts_root_hash (derive_tree_with H E incl_all) = tn_hash a" by (rule derive_tree_root)
  obtain b where b: "fmlookup (ts_nodes (derive_tree_with H F incl_all)) [] = Some b"
    "ts_root_hash (derive_tree_with H F incl_all) = tn_hash b" by (rule derive_tree_root)
  show ?thesis
    by (rule equal_hash_same_entries [OF derive_tree_with_spec(1) E(1,2) derive_tree_rel_keys [OF E(1,2)] E(3)
          derive_tree_covers [OF E(1)] derive_tree_with_spec(1) F(1,3) _ a(1) b(1)])
      (use assms a(2) b(2) in \<open>simp_all add: derive_tree_def incl_all_def\<close>)
qed

text \<open>
  C5. The root hash determines the index: two folders with the same root hash hold exactly the
  same entries (paths, kinds, contents, modes and versions, tombstones included), unless BLAKE3
  has a collision on one of their trees. The encodings themselves introduce no ambiguity.
\<close>

theorem equal_roots_equal_indexes:
  assumes "index_ok E" "index_ok F"
    and "committed H E (ts_nodes (derive_tree H E))" "committed H F (ts_nodes (derive_tree H F))"
    and "ts_root_hash (derive_tree H E) = ts_root_hash (derive_tree H F)"
  shows "E = F"
proof (rule fmap_ext)
  fix k
  show "fmlookup E k = fmlookup F k"
    using equal_roots_subset [OF assms(1,2,3,5), of k] equal_roots_subset [OF assms(2,1,4) assms(5) [symmetric], of k]
    by (cases "fmlookup E k"; cases "fmlookup F k") auto
qed

text \<open>An index with one file, and a hash with no second preimage for its tree.\<close>

definition one_entry :: entry where
  "one_entry = ex_entry ''a'' File 9"

definition one_index :: index where
  "one_index = fmupd ''a'' one_entry fmempty"

definition one_root :: bytes where
  "one_root = node_preimage ''/'' (fmupd ''a'' (replicate 32 1) fmempty) fmempty"

definition empty_root :: bytes where
  "empty_root = node_preimage ''/'' fmempty fmempty"

definition table_hash :: hasher where
  "table_hash b = (if b = entry_preimage one_entry then replicate 32 1
     else if b = one_root then replicate 32 2
     else if b = empty_root then replicate 32 3
     else if b = [1, 2, 3] then replicate 32 7 else replicate 32 0)"

lemma table_hash_second_preimage:
  assumes "x \<in> {entry_preimage one_entry, one_root, empty_root}" "table_hash y = table_hash x"
  shows "y = x"
proof -
  have "distinct [entry_preimage one_entry, one_root, empty_root] \<and>
      distinct [replicate 32 0 :: bytes, replicate 32 1, replicate 32 2, replicate 32 3, replicate 32 7]"
    by code_simp
  with assms show ?thesis by (auto simp: table_hash_def split: if_splits)
qed

lemma table_committed:
  assumes "set (map entry_preimage (fm_values E) @ map node_image (fm_values m)) \<subseteq>
    {entry_preimage one_entry, one_root, empty_root}"
  shows "committed table_hash E m"
proof -
  have "short (entry_preimage one_entry) \<and> short one_root \<and> short empty_root" by code_simp
  then have "short x" if "x \<in> {entry_preimage one_entry, one_root, empty_root}" for x using that by blast
  moreover have "digest_length table_hash" by (simp add: digest_length_def table_hash_def)
  moreover have "entry_preimage ` set (fm_values E) \<union> node_image ` set (fm_values m) \<subseteq>
      {entry_preimage one_entry, one_root, empty_root}" using assms by (simp only: set_append set_map)
  ultimately show ?thesis
    unfolding committed_def using table_hash_second_preimage by blast
qed

lemma table_indexes:
  "index_ok one_index" "committed table_hash one_index (ts_nodes (derive_tree table_hash one_index))"
  "index_ok fmempty" "committed table_hash fmempty (ts_nodes (derive_tree table_hash fmempty))"
proof -
  show "index_ok one_index" "index_ok fmempty" by code_simp+
  have "map entry_preimage (fm_values one_index) @ map node_image (fm_values (ts_nodes (derive_tree table_hash one_index))) =
      [entry_preimage one_entry, one_root]" by code_simp
  then show "committed table_hash one_index (ts_nodes (derive_tree table_hash one_index))"
    by (intro table_committed) simp
  have "map entry_preimage (fm_values (fmempty :: index)) @ map node_image (fm_values (ts_nodes (derive_tree table_hash fmempty))) =
      [empty_root]" by code_simp
  then show "committed table_hash fmempty (ts_nodes (derive_tree table_hash fmempty))"
    by (intro table_committed) simp
qed

theorem equal_roots_equal_indexes_witness:
  "ts_root_hash (derive_tree table_hash one_index) \<noteq> ts_root_hash (derive_tree table_hash fmempty)"
proof
  assume "ts_root_hash (derive_tree table_hash one_index) = ts_root_hash (derive_tree table_hash fmempty)"
  from equal_roots_equal_indexes [OF table_indexes(1,3,2,4) this] have "fmlookup one_index ''a'' = None" by simp
  then show False by (simp add: one_index_def)
qed

end
