(* ===== verification/Lil_Sync.thy ===== *)
theory Lil_Sync
  imports Lil_Rpc Lil_Soundness
begin

text \<open>
  Reconciliation, \<open>src/sync.rs\<close>: the walk over the remote Merkle tree, the selection and check of
  the entries of a node, the downloads and the installation of what was accepted. The remote side
  is given by the answers to the three RPC calls. The downloads of one node, which the program
  runs in parallel, are done one after the other here; what happens between parallel downloads of
  the same object is the subject of \<open>Lil_Downloads\<close>.

  The walk follows what the peer answers and need not end, so it is a partial function; a run
  that does not end is \<open>None\<close>.
\<close>

section \<open>State and parameters\<close>

record remote_root =
  rr_state_root :: hash32
  rr_live_root :: hash32
  rr_lamport :: u64
  rr_hint :: "tree_hint option"

record peer_rpc =
  rp_root :: "(hash32 \<times> hash32 \<times> u64) io_result"
  rp_node :: "string \<Rightarrow> tree_node option io_result"
  rp_entries :: "string \<Rightarrow> entry list io_result"
  rp_object :: "u64 \<Rightarrow> hash32 \<Rightarrow> (response_message \<times> bytes \<times> io_error) io_result"

text \<open>The folder state under its lock, the file system, and the two process-wide counters.\<close>

record sync_state =
  sy_state :: folder_state
  sy_fs :: fs
  sy_recv :: nat
  sy_request :: u64

section \<open>Hints\<close>

type_synonym hinted_nodes = "(string, tree_node) fmap"

definition hinted_from :: "hasher \<Rightarrow> tree_hint \<Rightarrow> hinted_nodes" where
  "hinted_from H hint =
     fm_collect (map (\<lambda>n. (normalize_prefix (tn_prefix n), n))
       (filter (\<lambda>n. tree_node_hash H n = tn_hash n) (th_nodes hint)))"

definition hinted_get :: "hinted_nodes \<Rightarrow> string \<Rightarrow> hash32 \<Rightarrow> tree_node option" where
  "hinted_get hints prefix expected =
     (case fmlookup hints (normalize_prefix prefix) of
        Some n \<Rightarrow> if tn_hash n = expected then Some n else None
      | None \<Rightarrow> None)"

section \<open>Fetching an object\<close>

definition hard_link :: "fs \<Rightarrow> abspath \<Rightarrow> abspath \<Rightarrow> unit io_result \<times> fs" where
  "hard_link fs src dst =
     with_fs fs (and_then (lstat_node fs src) (\<lambda>(_, nd). and_then (free_slot fs dst) (\<lambda>q. Inr (nd, q))))
       (\<lambda>(nd, q). if is_dir_node (Some nd) then (Inl PermissionDenied, fs) else (Inr (), put_node q nd fs))"

definition copy_file :: "fs \<Rightarrow> abspath \<Rightarrow> abspath \<Rightarrow> unit io_result \<times> fs" where
  "copy_file fs src dst =
     (case and_then (stat_node fs src) (\<lambda>(_, nd). and_then (read_file fs src) (\<lambda>c. Inr (nd, c))) of
        Inl e \<Rightarrow> (Inl e, fs)
      | Inr (nd, c) \<Rightarrow>
          io_seq (write_file fs dst c) (\<lambda>fs1. set_permissions fs1 dst (md_mode (metadata_of nd))))"

definition materialize_shared_object :: "fs \<Rightarrow> abspath \<Rightarrow> abspath \<Rightarrow> unit io_result \<times> fs" where
  "materialize_shared_object fs shared own =
     (case hard_link fs shared own of
        (Inr _, fs1) \<Rightarrow> (Inr (), fs1)
      | (Inl _, fs1) \<Rightarrow> copy_file fs1 shared own)"

text \<open>\<open>fetch_object_once\<close> of a task that finds no download of its object under way.\<close>

definition fetch_object_once ::
    "lib \<Rightarrow> nat \<Rightarrow> peer_rpc \<Rightarrow> hash32 \<Rightarrow> u64 \<Rightarrow> entry \<Rightarrow> sync_state \<Rightarrow> abspath io_result \<times> sync_state" where
  "fetch_object_once X pid P content_hash expected_size e S =
     (let shared = tmp_recv_path X pid (sy_recv S) (sy_state S) e;
          own = tmp_recv_path X pid (sy_recv S + 1) (sy_state S) e;
          rid = sy_request S;
          S1 = S\<lparr>sy_recv := sy_recv S + 1, sy_request := sy_request S + 1\<rparr>
      in case get_object_to_file X (rp_object P rid content_hash) rid content_hash expected_size shared (sy_fs S) of
           (Inl _, fs1) \<Rightarrow> (Inl Other, S1\<lparr>sy_fs := fs1\<rparr>)
         | (Inr _, fs1) \<Rightarrow>
             let S2 = S1\<lparr>sy_recv := sy_recv S + 2\<rparr> in
             (case materialize_shared_object fs1 shared own of
                (r, fs2) \<Rightarrow>
                  let fs3 = snd (remove_file fs2 shared) in
                  (case r of
                     Inl e \<Rightarrow> (Inl e, S2\<lparr>sy_fs := snd (remove_file fs3 own)\<rparr>)
                   | Inr _ \<Rightarrow> (Inr own, S2\<lparr>sy_fs := fs3\<rparr>))))"

primrec fetch_all ::
    "lib \<Rightarrow> nat \<Rightarrow> peer_rpc \<Rightarrow> (entry \<times> hash32) list \<Rightarrow> sync_state \<Rightarrow>
     (entry \<times> abspath option) list io_result \<times> sync_state" where
  "fetch_all X pid P [] S = (Inr [], S)"
| "fetch_all X pid P (x # xs) S =
     (case fetch_object_once X pid P (snd x) (e_size (fst x)) (fst x) S of
        (Inl e, S1) \<Rightarrow> (Inl e, S1)
      | (Inr tmp, S1) \<Rightarrow>
          (case fetch_all X pid P xs S1 of
             (Inl e, S2) \<Rightarrow> (Inl e, S2)
           | (Inr rest, S2) \<Rightarrow> (Inr ((fst x, Some tmp) # rest), S2)))"

section \<open>The entries of a node\<close>

text \<open>Phase 1: of the names of the remote node, the entries that differ and are acceptable.\<close>

primrec select_entries ::
    "hasher \<Rightarrow> folder_state \<Rightarrow> string \<Rightarrow> tree_node option \<Rightarrow> (string, entry) fmap \<Rightarrow>
     (string \<times> hash32) list \<Rightarrow> entry list io_result" where
  "select_entries H s prefix local_node all_remote [] = Inr []"
| "select_entries H s prefix local_node all_remote (x # xs) =
     (if (case local_node of None \<Rightarrow> False
          | Some node \<Rightarrow> fmlookup (tn_entries node) (fst x) = Some (snd x))
      then select_entries H s prefix local_node all_remote xs
      else case fmlookup all_remote (join_path prefix (fst x)) of
             None \<Rightarrow> Inl Other
           | Some remote \<Rightarrow>
               if hash_entry H remote \<noteq> snd x then Inl Other
               else if \<not> should_accept_remote s remote
               then select_entries H s prefix local_node all_remote xs
               else and_then (select_entries H s prefix local_node all_remote xs) (\<lambda>r. Inr (remote # r)))"

text \<open>Phase 2: the entries that need no content, and the files with their content hashes.\<close>

primrec split_batch :: "entry list \<Rightarrow> ((entry \<times> abspath option) list \<times> (entry \<times> hash32) list) io_result" where
  "split_batch [] = Inr ([], [])"
| "split_batch (e # es) =
     (if e_kind e = File
      then (case e_content_hash e of
              None \<Rightarrow> Inl Other
            | Some h \<Rightarrow> and_then (split_batch es) (\<lambda>(ns, fs). Inr (ns, (e, h) # fs)))
      else and_then (split_batch es) (\<lambda>(ns, fs). Inr ((e, None) # ns, fs)))"

definition apply_batch ::
    "lib \<Rightarrow> (entry \<times> abspath option) list \<Rightarrow> sync_state \<Rightarrow> change list io_result \<times> sync_state" where
  "apply_batch X batch S =
     (if batch = [] then (Inr [], S)
      else case apply_remote_entries X batch (sy_state S) (sy_fs S) of
             (r, s1, fs1) \<Rightarrow> (r, S\<lparr>sy_state := s1, sy_fs := fs1\<rparr>))"

definition reconcile_entries ::
    "lib \<Rightarrow> nat \<Rightarrow> peer_rpc \<Rightarrow> string \<Rightarrow> tree_node option \<Rightarrow> tree_node \<Rightarrow> sync_state \<Rightarrow>
     change list io_result \<times> sync_state" where
  "reconcile_entries X pid P prefix local_node remote_node S =
     (case rp_entries P prefix of
        Inl e \<Rightarrow> (Inl e, S)
      | Inr received \<Rightarrow>
          let all_remote = fm_collect (map (\<lambda>e. (e_path e, e)) received) in
          (case and_then (select_entries (blake3 X) (sy_state S) prefix local_node all_remote
                            (fm_iter (tn_entries remote_node))) split_batch of
             Inl e \<Rightarrow> (Inl e, S)
           | Inr (non_files, files) \<Rightarrow>
               (case apply_batch X non_files S of
                  (Inl e, S1) \<Rightarrow> (Inl e, S1)
                | (Inr ch1, S1) \<Rightarrow>
                    (case fetch_all X pid P files S1 of
                       (Inl e, S2) \<Rightarrow> (Inl e, S2)
                     | (Inr file_batch, S2) \<Rightarrow>
                         (case apply_batch X file_batch S2 of
                            (Inl e, S3) \<Rightarrow> (Inl e, S3)
                          | (Inr ch2, S3) \<Rightarrow> (Inr (ch1 @ ch2), S3))))))"

section \<open>The walk\<close>

definition queue_changed_children ::
    "string \<Rightarrow> tree_node option \<Rightarrow> tree_node \<Rightarrow> (string \<times> hash32) list" where
  "queue_changed_children prefix local_node remote_node =
     map (\<lambda>(name, h). (join_path prefix name, h))
       (filter (\<lambda>(name, h). \<not> (case local_node of None \<Rightarrow> False
                               | Some node \<Rightarrow> fmlookup (tn_children node) name = Some h))
         (fm_iter (tn_children remote_node)))"

text \<open>The changes of a node and the children to push on the stack.\<close>

definition reconcile_node ::
    "lib \<Rightarrow> nat \<Rightarrow> peer_rpc \<Rightarrow> hinted_nodes \<Rightarrow> string \<Rightarrow> hash32 \<Rightarrow> sync_state \<Rightarrow>
     (change list \<times> (string \<times> hash32) list) io_result \<times> sync_state" where
  "reconcile_node X pid P hints prefix expected S =
     (let local_node = state_node (sy_state S) prefix in
      if (case local_node of None \<Rightarrow> False | Some node \<Rightarrow> tn_hash node = expected) then (Inr ([], []), S)
      else
        let fetched = (case hinted_get hints prefix expected of
                         Some node \<Rightarrow> Inr node
                       | None \<Rightarrow> and_then (rp_node P prefix)
                           (\<lambda>n. case n of None \<Rightarrow> Inl Other | Some node \<Rightarrow> Inr node))
        in case fetched of
             Inl e \<Rightarrow> (Inl e, S)
           | Inr remote_node \<Rightarrow>
               if tn_hash remote_node \<noteq> expected then (Inl Other, S)
               else (case reconcile_entries X pid P prefix local_node remote_node S of
                       (Inl e, S1) \<Rightarrow> (Inl e, S1)
                     | (Inr changes, S1) \<Rightarrow>
                         (Inr (changes, queue_changed_children prefix local_node remote_node), S1)))"

text \<open>The stack has its top at the head of the list.\<close>

partial_function (option) reconcile_loop ::
    "lib \<Rightarrow> nat \<Rightarrow> peer_rpc \<Rightarrow> hinted_nodes \<Rightarrow> (string \<times> hash32) list \<Rightarrow> change list \<Rightarrow> sync_state \<Rightarrow>
     (change list io_result \<times> sync_state) option" where
  "reconcile_loop X pid P hints stack changes S =
     (case stack of
        [] \<Rightarrow> Some (Inr changes, S)
      | x # rest \<Rightarrow>
          (case reconcile_node X pid P hints (fst x) (snd x) S of
             (Inl e, S1) \<Rightarrow> Some (Inl e, S1)
           | (Inr (ch, pushed), S1) \<Rightarrow>
               reconcile_loop X pid P hints (rev pushed @ rest) (changes @ ch) S1))"

declare reconcile_loop.simps [code]

definition reconcile_walk ::
    "lib \<Rightarrow> nat \<Rightarrow> peer_rpc \<Rightarrow> remote_root \<Rightarrow> sync_state \<Rightarrow> (change list io_result \<times> sync_state) option" where
  "reconcile_walk X pid P remote S =
     (if root_hash (sy_state S) = rr_state_root remote then Some (Inr [], S)
      else reconcile_loop X pid P
             (case rr_hint remote of None \<Rightarrow> fmempty | Some hint \<Rightarrow> hinted_from (blake3 X) hint)
             [([], rr_state_root remote)] [] S)"

text \<open>The sweep over accepted tombstones, whose errors are ignored, and the final save.\<close>

definition finish_reconcile :: "lib \<Rightarrow> change list \<Rightarrow> sync_state \<Rightarrow> sync_state" where
  "finish_reconcile X changes S =
     (let tombstoned = map (\<lambda>c. path_join (fo_root (sy_state S)) (c_path c))
                         (filter (\<lambda>c. e_kind (c_new c) = Tombstone) changes);
          S1 = (if tombstoned = [] then S
                else case apply_paths X tombstoned (sy_state S) (sy_fs S) of
                       (_, s1, fs1) \<Rightarrow> S\<lparr>sy_state := s1, sy_fs := fs1\<rparr>)
      in if changes = [] then S1 else S1\<lparr>sy_fs := save_entries X (sy_state S1) (sy_fs S1)\<rparr>)"

definition reconcile_with_advertised_root ::
    "lib \<Rightarrow> nat \<Rightarrow> peer_rpc \<Rightarrow> remote_root \<Rightarrow> sync_state \<Rightarrow> (change list io_result \<times> sync_state) option" where
  "reconcile_with_advertised_root X pid P remote S =
     (case reconcile_walk X pid P remote S of
        None \<Rightarrow> None
      | Some (Inl e, S1) \<Rightarrow> Some (Inl e, S1)
      | Some (Inr changes, S1) \<Rightarrow> Some (Inr changes, finish_reconcile X changes S1))"

definition reconcile_with_peer ::
    "lib \<Rightarrow> nat \<Rightarrow> peer_rpc \<Rightarrow> sync_state \<Rightarrow> (change list io_result \<times> sync_state) option" where
  "reconcile_with_peer X pid P S =
     (case rp_root P of
        Inl e \<Rightarrow> Some (Inl e, S)
      | Inr (state_root, live_root, lamport) \<Rightarrow>
          reconcile_with_advertised_root X pid P
            \<lparr>rr_state_root = state_root, rr_live_root = live_root, rr_lamport = lamport, rr_hint = None\<rparr> S)"

end
