(* ===== verification/Lil_Reconcile.thy ===== *)
theory Lil_Reconcile
  imports Lil_Sync
begin

text \<open>
  What a reconciliation achieves. Against a peer that answers truthfully and does not change in
  the meantime, the walk over the remote tree ends, and when it ends without an error every entry
  of the peer is covered locally: the local index has it or something newer at its path. The
  pieces are the invariant of the local state under batches, the Merkle argument for everything
  that is skipped, and the accounting of the part of the remote tree still to be visited.
\<close>

section \<open>Clean paths\<close>

definition clean_path :: "string \<Rightarrow> bool" where
  "clean_path p \<longleftrightarrow> [] \<notin> set (split_char CHR ''/'' p)"

lemma split_char_sep: "split_char c (x @ c # y) = split_char c x @ split_char c y"
  by (induction x) (auto split: list.splits)

lemma clean_path_not_Nil: "clean_path p \<Longrightarrow> p \<noteq> []"
  by (auto simp: clean_path_def)

lemma clean_path_sep: "clean_path (x @ CHR ''/'' # y) \<longleftrightarrow> clean_path x \<and> clean_path y"
  by (simp add: clean_path_def split_char_sep)

lemma clean_path_rel: "clean_path p \<Longrightarrow> rel_path p"
proof (rule ccontr)
  assume "clean_path p" "\<not> rel_path p"
  then obtain r where "p = [] @ CHR ''/'' # r" by (auto simp: rel_path_def starts_with_iff)
  with \<open>clean_path p\<close> clean_path_sep [of "[]" r] clean_path_not_Nil [of "[]"] show False by simp
qed

lemma clean_path_trim: "clean_path p \<Longrightarrow> trim_matches CHR ''/'' p = p"
proof (rule trim_matches_id)
  assume p: "clean_path p"
  then show "\<not> (\<exists>r. p = CHR ''/'' # r)"
    using clean_path_rel [OF p] by (auto simp: rel_path_def starts_with_iff)
  show "\<not> (\<exists>r. p = r @ [CHR ''/''])"
    using p clean_path_sep [of _ "[]"] clean_path_not_Nil [of "[]"] by auto
qed

definition clean_prefix :: "string \<Rightarrow> bool" where
  "clean_prefix p \<longleftrightarrow> p = [] \<or> clean_path p"

lemma clean_prefix_normal: "clean_prefix p \<Longrightarrow> normalize_prefix p = p"
  by (auto simp: clean_prefix_def normalize_prefix_def clean_path_trim)
     (simp add: trim_matches_def trim_start_matches_def trim_end_matches_def)

lemma clean_path_parent:
  assumes "clean_path k"
  shows "clean_prefix (parent_path k)" "join_path (parent_path k) (basename k) = k"
proof -
  show c: "clean_prefix (parent_path k)"
    using assms by (cases k rule: parent_basename_cases) (auto simp: clean_prefix_def, metis clean_path_sep)
  have trim: "trim_matches CHR ''/'' (parent_path k) = parent_path k"
    using clean_prefix_normal [OF c] by (simp add: normalize_prefix_def)
  show "join_path (parent_path k) (basename k) = k"
  proof (cases k rule: parent_basename_cases)
    case nested
    then have "clean_path (parent_path k)" using assms clean_path_sep by metis
    then have "parent_path k \<noteq> []" by (rule clean_path_not_Nil)
    then show ?thesis using nested(1) [symmetric] trim by (simp add: join_path_def Let_def)
  next
    case top
    then show ?thesis using trim by (simp add: join_path_def Let_def)
  qed
qed

lemma clean_ancestors: "clean_path k \<Longrightarrow> q \<in> set (ancestors_from k) \<Longrightarrow> clean_prefix q"
proof (induction k rule: ancestors_from.induct)
  case (1 k)
  show ?case
  proof (cases "q = k")
    case False
    with "1.prems" have q: "k \<noteq> []" "q \<in> set (ancestors_from (parent_path k))"
      using in_ancestors_from [of q k] by auto
    show ?thesis
    proof (cases "parent_path k = []")
      case True
      with q show ?thesis by (simp add: ancestors_from.simps [of "[]"] clean_prefix_def)
    next
      case False
      with clean_path_parent(1) [OF "1.prems"(1)] have "clean_path (parent_path k)" by (simp add: clean_prefix_def)
      with "1.IH" [OF q(1)] q(2) show ?thesis by blast
    qed
  qed (use "1.prems" in \<open>simp add: clean_prefix_def\<close>)
qed

lemma valid_path_clean: "validate_remote_path p = Inr () \<Longrightarrow> clean_path p"
  by (auto simp: validate_remote_path_def clean_path_def bad_remote_component_def list_ex_iff split: if_splits)

section \<open>Room on the clock for a run\<close>

definition probe :: "u64 \<Rightarrow> entry \<times> abspath option" where
  "probe l = (\<lparr>e_path = [], e_kind = Tombstone, e_content_hash = None, e_symlink_target = None, e_size = 0,
                e_mode = None, e_version = Version l []\<rparr>, None)"

text \<open>At most \<open>n\<close> more entries, with Lamport values up to \<open>L\<close>, can be applied before the clock is
  exhausted.\<close>

definition sync_room :: "folder_state \<Rightarrow> u64 \<Rightarrow> nat \<Rightarrow> bool" where
  "sync_room s L n \<longleftrightarrow> batch_room s (replicate n (probe L))"

lemma word_room_mono: "word_room l n \<Longrightarrow> l' \<le> l \<Longrightarrow> n' \<le> n \<Longrightarrow> word_room l' n'"
  by (auto simp: word_room_nat word_le_nat_alt)

definition within :: "u64 \<Rightarrow> (entry \<times> abspath option) list \<Rightarrow> bool" where
  "within L batch \<longleftrightarrow> list_all (\<lambda>(e, _). v_lamport (e_version e) \<le> L) batch"

lemma sync_room_batch:
  assumes "sync_room s L n" "within L batch" "length batch \<le> n"
  shows "batch_room s batch"
proof -
  let ?k = "live_count (fo_entries s)"
  have r: "word_room (fo_lamport s) (?k + n)" "0 < n \<Longrightarrow> word_room L (?k + n)"
    using assms(1) by (simp_all add: sync_room_def batch_room_def probe_def list_all_iff)
  have "word_room l (?k + length batch)" if "l \<in> set (fo_lamport s # map (\<lambda>(e, _). v_lamport (e_version e)) batch)" for l
  proof (cases "l = fo_lamport s")
    case True
    with r(1) assms(3) show ?thesis by (auto elim: word_room_mono)
  next
    case False
    with that assms(2) have "l \<le> L" "batch \<noteq> []" by (auto simp: within_def list_all_iff)
    with r(2) assms(3) show ?thesis by (cases n) (auto elim: word_room_mono)
  qed
  then show ?thesis by (simp only: batch_room_def list_all_iff) blast
qed

lemma sync_room_weaken: "sync_room s L n \<Longrightarrow> m \<le> n \<Longrightarrow> sync_room s L m"
  unfolding sync_room_def [of s L m]
  by (erule sync_room_batch) (auto simp: within_def list_all_iff probe_def)

section \<open>The local state under batches\<close>

definition local_ok :: "lib \<Rightarrow> folder_state \<Rightarrow> bool" where
  "local_ok X s \<longleftrightarrow> replica_ok s \<and> typed_index (fo_entries s) \<and>
     merkle (blake3 X) (fo_entries s) incl_all (ts_nodes (fo_tree s))"

definition covered :: "folder_state \<Rightarrow> entry \<Rightarrow> bool" where
  "covered s e \<longleftrightarrow>
     (case fmlookup (fo_entries s) (e_path e) of None \<Rightarrow> False | Some f \<Rightarrow> e_version e \<le> e_version f) \<or>
     e_kind e = Tombstone \<and> is_version_gced s (e_version e)"

definition advances :: "folder_state \<Rightarrow> folder_state \<Rightarrow> bool" where
  "advances s s' \<longleftrightarrow> version_mono s s' \<and> fo_gc_watermark s' = fo_gc_watermark s"

lemma advances_refl [simp]: "advances s s"
  by (simp add: advances_def)

lemma advances_trans: "advances a b \<Longrightarrow> advances b c \<Longrightarrow> advances a c"
  by (auto simp: advances_def intro: version_mono_trans)

lemma covered_advances: "advances s s' \<Longrightarrow> covered s e \<Longrightarrow> covered s' e"
  unfolding advances_def covered_def is_version_gced_def
  by (auto split: option.splits) (metis version_monoD order_trans option.inject option.distinct(1))+

lemma covered_if_refused:
  "validate_remote_path (e_path e) = Inr () \<Longrightarrow> \<not> should_accept_remote s e \<Longrightarrow> covered s e"
  by (auto simp: should_accept_remote_def covered_def not_less split: if_splits option.splits)

lemma typed_index_upd: "typed_index E \<Longrightarrow> typed_entry e \<Longrightarrow> typed_index (fmupd p e E)"
  by (auto simp: typed_index_def)

lemma typed_tombstones:
  "typed_index (fo_entries (fst st)) \<Longrightarrow> typed_index (fo_entries (fst (fold tombstone_path ps st)))"
proof (induction ps arbitrary: st)
  case (Cons p ps)
  have "typed_index (fo_entries (fst (tombstone_path p st)))"
    using Cons.prems
    by (auto simp: tombstone_path_def next_version_def Let_def typed_entry_def tombstone_entry_def
        split: prod.splits option.splits intro!: typed_index_upd)
  with Cons.IH show ?case by simp
qed simp

lemma record_remote_typed:
  assumes "record_remote remote s = (ch, s')" "typed_index (fo_entries s)" "typed_entry remote"
  shows "typed_index (fo_entries s')"
  using assms typed_tombstones [of "(insert_remote remote s, [])"] typed_index_upd [OF assms(2,3)]
  by (auto simp: record_remote_def Let_def tombstone_child_descendants_def insert_remote_def
      split: if_splits prod.splits)
    (metis fst_conv)+

lemma record_remote_watermark: "record_remote remote s = (ch, s') \<Longrightarrow> fo_gc_watermark s' = fo_gc_watermark s"
  by (elim record_remote_cases local_run_summary) (simp add: insert_remote_def)

lemma apply_core_covers:
  assumes "replica_ok s" "batch_room s ((remote, tmp) # rest)" "typed_index (fo_entries s)" "typed_entry remote"
    and "apply_remote_entry_core remote tmp s fs cp = (Inr ch, s', fs', cp')"
  shows "replica_ok s'" "advances s s'" "batch_room s' rest" "typed_index (fo_entries s')" "covered s' remote"
proof -
  have v: "validate_remote_path (e_path remote) = Inr ()"
    using assms(5) by (auto simp: apply_remote_entry_core_def split: sum.splits)
  consider (refused) "\<not> should_accept_remote s remote" "s' = s"
    | (recorded) "should_accept_remote s remote" "record_remote remote s = (ch, s')"
    using assms(5) v by (auto simp: apply_remote_entry_core_def split: if_splits sum.splits prod.splits)
  then have "replica_ok s' \<and> advances s s' \<and> batch_room s' rest \<and> typed_index (fo_entries s') \<and> covered s' remote"
  proof cases
    case refused
    moreover have "batch_room s rest" using assms(2) by (auto simp: batch_room_def list_all_iff word_room_nat)
    ultimately show ?thesis using assms(1,3) covered_if_refused [OF v] by simp
  next
    case recorded
    note ok = record_remote_ok [OF assms(1) recorded(1) assms(2) recorded(2)]
    have "fmlookup (fo_entries (insert_remote remote s)) (e_path remote) = Some remote"
      by (simp add: insert_remote_def)
    from version_monoD [OF ok(4) this] have "covered s' remote" by (auto simp: covered_def)
    moreover have "advances s s'" using ok(2) record_remote_watermark [OF recorded(2)] by (simp add: advances_def)
    ultimately show ?thesis using ok record_remote_typed [OF recorded(2) assms(3,4)] by simp
  qed
  then show "replica_ok s'" "advances s s'" "batch_room s' rest" "typed_index (fo_entries s')" "covered s' remote"
    by simp_all
qed

lemma apply_loop_covers:
  assumes "apply_remote_loop batch all s fs cp = (Inr all', s', fs', cp')"
    and "replica_ok s" "batch_room s (batch @ rest)" "typed_index (fo_entries s)" "\<forall>(e, _) \<in> set batch. typed_entry e"
  shows "replica_ok s' \<and> advances s s' \<and> batch_room s' rest \<and> typed_index (fo_entries s') \<and>
    (\<forall>(e, _) \<in> set batch. covered s' e)"
  using assms
proof (induction batch arbitrary: all s fs cp)
  case (Cons x batch)
  obtain r1 s1 fs1 cp1 where core: "apply_remote_entry_core (fst x) (snd x) s fs cp = (r1, s1, fs1, cp1)"
    by (metis prod_cases4)
  with Cons.prems(1) obtain ch where r1: "r1 = Inr ch" by (cases r1) auto
  have x: "batch_room s ((fst x, snd x) # batch @ rest)" "typed_entry (fst x)" using Cons.prems(3,5) by auto
  note c = apply_core_covers [OF Cons.prems(2) x(1) Cons.prems(4) x(2) core [unfolded r1]]
  from Cons.prems(1) core r1 have "apply_remote_loop batch (all @ ch) s1 fs1 cp1 = (Inr all', s', fs', cp')" by simp
  from Cons.IH [OF this c(1,3,4)] Cons.prems(5) c(2,5) show ?case
    by (auto dest: covered_advances intro: advances_trans)
qed simp

lemma apply_remote_merkle:
  assumes "apply_remote_entries X batch s fs = (Inr ch, s', fs')" "wf_index (fo_entries s)"
    and "merkle (blake3 X) (fo_entries s) incl_all (ts_nodes (fo_tree s))"
  shows "merkle (blake3 X) (fo_entries s') incl_all (ts_nodes (fo_tree s'))"
proof -
  obtain r1 s1 fs1 cp where loop: "apply_remote_loop batch [] s fs [] = (r1, s1, fs1, cp)"
    by (metis prod_cases4)
  with assms(1) have r1: "r1 = Inr ch"
    by (auto simp: apply_remote_entries_def Let_def split: sum.splits if_splits)
  from apply_loop_replay [OF loop [unfolded r1]] have new: "cp = map c_path ch"
    "fo_entries s1 = replay ch (fo_entries s)" "\<forall>c \<in> set ch. e_path (c_new c) = c_path c" "fo_tree s1 = fo_tree s"
    by auto
  have s': "s' = (if ch = [] then s1 else update_trees X (map c_path ch) s1)"
    using assms(1) loop r1 new(1) by (auto simp: apply_remote_entries_def Let_def split: if_splits)
  have "merkle (blake3 X) (replay ch (fo_entries s)) incl_all
      (update_nodes (blake3 X) (ts_nodes (fo_tree s)) (replay ch (fo_entries s)) (map c_path ch) incl_all)"
    by (rule update_nodes_merkle [OF assms(2) replay_wf [OF assms(2) new(3)] assms(3)]) (simp add: replay_frame)
  then show ?thesis
    using s' new assms(3)
    by (auto simp: update_trees_def update_tree_snapshot_def update_nodes_def Let_def replay_def)
qed

lemma apply_batch_ok:
  assumes "apply_batch X batch S = (Inr ch, S')" "local_ok X (sy_state S)" "sync_room (sy_state S) L n"
    and "within L batch" "length batch \<le> n" "\<forall>(e, _) \<in> set batch. typed_entry e"
  shows "local_ok X (sy_state S')" "advances (sy_state S) (sy_state S')" "sync_room (sy_state S') L (n - length batch)"
    "\<forall>(e, _) \<in> set batch. covered (sy_state S') e"
proof -
  have "local_ok X (sy_state S') \<and> advances (sy_state S) (sy_state S') \<and>
      sync_room (sy_state S') L (n - length batch) \<and> (\<forall>(e, _) \<in> set batch. covered (sy_state S') e)"
  proof (cases "batch = []")
    case True
    then show ?thesis using assms(1-3) by (auto simp: apply_batch_def)
  next
    case False
    let ?s = "sy_state S" and ?s' = "sy_state S'" and ?rest = "replicate (n - length batch) (probe L)"
    obtain fs' where ap: "apply_remote_entries X batch ?s (sy_fs S) = (Inr ch, ?s', fs')"
      using assms(1) False by (auto simp: apply_batch_def split: prod.splits)
    obtain r1 s1 fs1 cp where loop: "apply_remote_loop batch [] ?s (sy_fs S) [] = (r1, s1, fs1, cp)"
      by (metis prod_cases4)
    with ap have r1: "r1 = Inr ch" and "?s' = s1 \<or> ?s' = update_trees X cp s1"
      by (auto simp: apply_remote_entries_def Let_def split: sum.splits if_splits)
    then have s1: "fo_entries ?s' = fo_entries s1" "fo_lamport ?s' = fo_lamport s1"
        "fo_gc_watermark ?s' = fo_gc_watermark s1"
      by (auto simp: update_trees_def)
    have room: "batch_room ?s (batch @ ?rest)"
      using assms(3-5) by (intro sync_room_batch) (auto simp: within_def list_all_iff probe_def)
    have l: "replica_ok ?s" "typed_index (fo_entries ?s)" "merkle (blake3 X) (fo_entries ?s) incl_all (ts_nodes (fo_tree ?s))"
      using assms(2) by (simp_all add: local_ok_def)
    note c = apply_loop_covers [OF loop [unfolded r1] l(1) room l(2) assms(6)]
    have "wf_index (fo_entries ?s)" using l(1) by (simp add: replica_ok_def)
    from apply_remote_merkle [OF ap this l(3)] c s1 show ?thesis
      by (auto simp: local_ok_def replica_ok_def clock_bounds_def advances_def version_mono_def covered_def
          is_version_gced_def sync_room_def batch_room_def)
  qed
  then show "local_ok X (sy_state S')" "advances (sy_state S) (sy_state S')"
    "sync_room (sy_state S') L (n - length batch)" "\<forall>(e, _) \<in> set batch. covered (sy_state S') e"
    by simp_all
qed

lemma fetch_all_batch:
  "fetch_all X pid P xs S = (Inr batch, S') \<Longrightarrow>
     map fst batch = map fst xs \<and> sy_state S' = sy_state S"
proof (induction xs arbitrary: S batch)
  case (Cons x xs)
  have st: "sy_state (snd (fetch_object_once X pid P h z e S)) = sy_state S" for h z e S
    by (auto simp: fetch_object_once_def Let_def split: prod.splits sum.splits)
  from Cons show ?case
    using st [of "snd x" "e_size (fst x)" "fst x" S]
    by (fastforce split: prod.splits sum.splits)
qed simp

section \<open>The part of the tree below a prefix\<close>

definition subtree :: "('a \<Rightarrow> string) \<Rightarrow> 'a set \<Rightarrow> string \<Rightarrow> 'a set" where
  "subtree f D p = {x \<in> D. p \<in> set (ancestors_from (f x))}"

lemma sibling_ancestors:
  assumes "c \<in> set (ancestors_from q)" "d \<in> set (ancestors_from q)" "parent_path c = parent_path d"
    and "c \<noteq> []" "d \<noteq> []"
  shows "c = d"
  using assms
proof (induction q rule: ancestors_from.induct)
  case (1 q)
  have short: "x \<notin> set (ancestors_from (parent_path q))" if "parent_path x = parent_path q" "x \<noteq> []" for x
    using ancestors_from_length [of x "parent_path q"] parent_path_shorter [OF that(2)] that(1) by auto
  show ?case
  proof (cases "c = q \<or> d = q")
    case True
    then show ?thesis
      using "1.prems" short [of c] short [of d] in_ancestors_from [of c q] in_ancestors_from [of d q] by auto
  next
    case False
    then have "q \<noteq> []" "c \<in> set (ancestors_from (parent_path q))" "d \<in> set (ancestors_from (parent_path q))"
      using "1.prems"(1,2) in_ancestors_from [of c q] in_ancestors_from [of d q] by auto
    with "1.IH" "1.prems"(3-5) show ?thesis by blast
  qed
qed

lemma card_subtree_children:
  assumes "finite D" "distinct cs" "\<forall>c \<in> set cs. c \<noteq> [] \<and> parent_path c = p"
  shows "sum_list (map (\<lambda>c. card (subtree f D c)) cs) + card {x \<in> D. f x = p} \<le> card (subtree f D p)"
proof -
  have fin: "finite (subtree f D q)" for q using assms(1) by (simp add: subtree_def)
  have disj: "subtree f D c \<inter> subtree f D d = {}" if "c \<in> set cs" "d \<in> set cs" "c \<noteq> d" for c d
    using that sibling_ancestors assms(3) by (fastforce simp: subtree_def)
  have "sum_list (map (\<lambda>c. card (subtree f D c)) cs) = card (\<Union>c \<in> set cs. subtree f D c)"
    using assms(2) fin disj by (simp add: sum_list_distinct_conv_sum_set card_UN_disjoint)
  also have "\<dots> + card {x \<in> D. f x = p} = card ((\<Union>c \<in> set cs. subtree f D c) \<union> {x \<in> D. f x = p})"
  proof (rule card_Un_disjoint [symmetric])
    have "c \<notin> set (ancestors_from p)" if "c \<in> set cs" for c
      using that assms(3) ancestors_from_length [of c p] parent_path_shorter [of c] by fastforce
    then show "(\<Union>c \<in> set cs. subtree f D c) \<inter> {x \<in> D. f x = p} = {}" by (auto simp: subtree_def)
  qed (use fin assms(1) in auto)
  also have "\<dots> \<le> card (subtree f D p)"
    by (rule card_mono [OF fin]) (use assms(3) ancestors_from_closed in \<open>fastforce simp: subtree_def\<close>)
  finally show ?thesis .
qed

definition weight :: "('a \<Rightarrow> string) \<Rightarrow> 'a set \<Rightarrow> (string \<times> hash32) list \<Rightarrow> nat" where
  "weight f D stack = sum_list (map (\<lambda>x. card (subtree f D (fst x))) stack)"

lemma weight_simps [simp]:
  "weight f D [] = 0" "weight f D (x # xs) = card (subtree f D (fst x)) + weight f D xs"
  "weight f D (xs @ ys) = weight f D xs + weight f D ys" "weight f D (rev xs) = weight f D xs"
  by (simp_all add: weight_def sum_list_rev rev_map [symmetric])

lemma weight_pushed:
  assumes "finite D" "distinct (map fst pushed)" "\<forall>x \<in> set pushed. fst x \<noteq> [] \<and> parent_path (fst x) = p"
  shows "weight f D pushed + card {x \<in> D. f x = p} \<le> card (subtree f D p)"
  using card_subtree_children [OF assms(1,2), of p f] assms(3) by (simp add: weight_def comp_def)

section \<open>The remote side\<close>

definition remote_ok :: "lib \<Rightarrow> folder_state \<Rightarrow> bool" where
  "remote_ok X R \<longleftrightarrow>
     wf_index (fo_entries R) \<and> typed_index (fo_entries R) \<and>
     fmpred (\<lambda>k _. validate_remote_path k = Inr ()) (fo_entries R) \<and>
     merkle (blake3 X) (fo_entries R) incl_all (ts_nodes (fo_tree R)) \<and>
     covers incl_all (fo_entries R) (ts_nodes (fo_tree R)) \<and>
     fmpred (\<lambda>p _. clean_prefix p) (ts_nodes (fo_tree R)) \<and>
     committed (blake3 X) (fo_entries R) (ts_nodes (fo_tree R)) \<and>
     (\<exists>n. fmlookup (ts_nodes (fo_tree R)) [] = Some n \<and> root_hash R = tn_hash n)"

text \<open>A peer that answers from the state \<open>R\<close>; its objects may be missing or wrong.\<close>

definition honest :: "peer_rpc \<Rightarrow> folder_state \<Rightarrow> bool" where
  "honest P R \<longleftrightarrow> (\<forall>p. rp_node P p = Inr (state_node R p) \<and> rp_entries P p = Inr (entries_at R p))"

text \<open>Hints come from anywhere; they are only used when they hash to the wanted value.\<close>

definition checked_hints :: "lib \<Rightarrow> hinted_nodes \<Rightarrow> bool" where
  "checked_hints X hints \<longleftrightarrow>
     fmpred (\<lambda>_ n. tree_node_hash (blake3 X) n = tn_hash n \<and> typed_map (tn_entries n) \<and> typed_map (tn_children n)) hints"

lemma hinted_from_checked:
  assumes "\<forall>n \<in> set (th_nodes hint). typed_map (tn_entries n) \<and> typed_map (tn_children n)"
  shows "checked_hints X (hinted_from (blake3 X) hint)"
  unfolding checked_hints_def hinted_from_def
  by (rule fmpredI) (use assms fm_collect_in in fastforce)

lemma remote_okD:
  assumes "remote_ok X R"
  shows "wf_index (fo_entries R)" "typed_index (fo_entries R)"
    "merkle (blake3 X) (fo_entries R) incl_all (ts_nodes (fo_tree R))"
    "covers incl_all (fo_entries R) (ts_nodes (fo_tree R))"
    "committed (blake3 X) (fo_entries R) (ts_nodes (fo_tree R))"
    "fmlookup (fo_entries R) k = Some e \<Longrightarrow> validate_remote_path k = Inr ()"
    "fmlookup (ts_nodes (fo_tree R)) p = Some n \<Longrightarrow> clean_prefix p"
    "rel_keys (fo_entries R)" "rel_keys (ts_nodes (fo_tree R))"
proof -
  show v: "validate_remote_path k = Inr ()" if "fmlookup (fo_entries R) k = Some e" for k e
    using assms that by (auto simp: remote_ok_def dest: fmpredD)
  show c: "clean_prefix p" if "fmlookup (ts_nodes (fo_tree R)) p = Some n" for p n
    using assms that by (auto simp: remote_ok_def dest: fmpredD)
  show "rel_keys (fo_entries R)"
    unfolding rel_keys_def by (rule fmpredI) (use v valid_path_clean clean_path_rel in blast)
  show "rel_keys (ts_nodes (fo_tree R))"
    unfolding rel_keys_def
  proof (rule fmpredI)
    fix p n
    assume "fmlookup (ts_nodes (fo_tree R)) p = Some n"
    from c [OF this] show "rel_path p"
      using clean_path_rel [of p] by (auto simp: clean_prefix_def rel_path_def [of "[]"] starts_with_iff)
  qed
qed (use assms in \<open>simp_all add: remote_ok_def\<close>)

lemma hint_is_remote_node:
  assumes "remote_ok X R" "checked_hints X hints" "fmlookup (ts_nodes (fo_tree R)) p = Some n"
    and "hinted_get hints q (tn_hash n) = Some n'"
  shows "n' = n"
proof -
  let ?H = "blake3 X"
  have n': "tree_node_hash ?H n' = tn_hash n'" "typed_map (tn_entries n')" "typed_map (tn_children n')"
    "tn_hash n' = tn_hash n"
    using assms(2,4) by (auto simp: checked_hints_def hinted_get_def split: option.splits if_splits dest: fmpredD)
  note r = remote_okD [OF assms(1)]
  have "?H (node_image n') = ?H (node_image n)"
    using n'(1,4) merkle_nodeD(4) [OF r(3) assms(3)] by (simp add: tree_node_hash_def hash_node_def node_image_def)
  with committedD(2) [OF r(5) assms(3)] have c: "node_image n = node_image n'" "short (node_image n)" by metis+
  have "digest_length ?H" using r(5) by (simp add: committed_def)
  from node_preimage_inject [OF c [unfolded node_image_def] typed_maps [OF r(3) this assms(3)] n'(2,3)] n'(4)
  show ?thesis by (simp add: tree_node.equality)
qed

lemma honest_entries:
  assumes R: "remote_ok X R" and e: "fmlookup (fo_entries R) k = Some e" and p: "parent_path k = p"
    and n: "fmlookup (ts_nodes (fo_tree R)) p = Some n"
  shows "fmlookup (fm_collect (map (\<lambda>e. (e_path e, e)) (entries_at R p))) k = Some e"
proof -
  note r = remote_okD [OF R]
  have nn: "normalize_prefix p = p" using clean_prefix_normal [OF r(7) [OF n]] .
  then have at: "entries_at R p = List.map_filter (\<lambda>name. state_entry R (join_path p name)) (fm_keys (tn_entries n))"
    using n by (simp add: entries_at_def state_node_def join_path_def normalize_prefix_def Let_def)
  have ran: "fmlookup (fo_entries R) (e_path v) = Some v" if "v \<in> set (entries_at R p)" for v
    using that wf_indexD [OF r(1)] unfolding at by (auto simp: in_map_filter state_entry_def)
  have k: "clean_path k" using r(6) [OF e] valid_path_clean by blast
  have "fmlookup (tn_entries n) (basename k) \<noteq> None"
    using direct_entries_lookup [OF r(1,8) e, of incl_all "blake3 X"] merkle_nodeD(2) [OF r(3) n] p
    by (simp add: incl_all_def)
  then have "basename k \<in> set (fm_keys (tn_entries n))" by (simp add: fmlookup_dom'_iff)
  moreover have "state_entry R (join_path p (basename k)) = Some e"
    using clean_path_parent(2) [OF k] clean_path_trim [OF k] e p by (simp add: state_entry_def)
  ultimately have "e \<in> set (entries_at R p)" unfolding at by (auto simp: in_map_filter)
  moreover have "e_path e = k" using wf_indexD [OF r(1) e] .
  ultimately have "(k, e) \<in> set (map (\<lambda>e. (e_path e, e)) (entries_at R p))" by force
  moreover have "v = e" if "(k, v) \<in> set (map (\<lambda>e. (e_path e, e)) (entries_at R p))" for v
  proof -
    from that have "v \<in> set (entries_at R p)" "e_path v = k" by auto
    with ran [of v] e show ?thesis by simp
  qed
  ultimately show ?thesis by (intro fm_collect_functional [THEN iffD2])
qed

text \<open>The names of a remote node, with the entries they stand for.\<close>

definition direct_of :: "index \<Rightarrow> string \<Rightarrow> string set" where
  "direct_of E p = {k \<in> fmdom' E. parent_path k = p}"

lemma node_names:
  assumes R: "remote_ok X R" and n: "fmlookup (ts_nodes (fo_tree R)) p = Some n"
  shows "(name, h) \<in> set (fm_iter (tn_entries n)) \<Longrightarrow>
      \<exists>k e. fmlookup (fo_entries R) k = Some e \<and> parent_path k = p \<and> join_path p name = k \<and> h = hash_entry (blake3 X) e"
    and "fmlookup (fo_entries R) k = Some e \<Longrightarrow> parent_path k = p \<Longrightarrow>
      (basename k, hash_entry (blake3 X) e) \<in> set (fm_iter (tn_entries n)) \<and> join_path p (basename k) = k"
    and "length (fm_iter (tn_entries n)) \<le> card (direct_of (fo_entries R) p)"
proof -
  note r = remote_okD [OF R]
  have es: "tn_entries n = direct_entries (blake3 X) (fo_entries R) incl_all p" by (rule merkle_nodeD(2) [OF r(3) n])
  have clean: "clean_path k" if "fmlookup (fo_entries R) k = Some e" for k e
    using r(6) [OF that] by (rule valid_path_clean)
  show names: "\<exists>k e. fmlookup (fo_entries R) k = Some e \<and> parent_path k = p \<and> join_path p name = k \<and> h = hash_entry (blake3 X) e"
    if nh: "(name, h) \<in> set (fm_iter (tn_entries n))" for name h
  proof -
    from nh have "fmlookup (direct_entries (blake3 X) (fo_entries R) incl_all p) name = Some h"
      by (simp add: fm_simps es)
    from direct_entries_in [OF this] obtain k e where ke: "fmlookup (fo_entries R) k = Some e"
      "h = hash_entry (blake3 X) e" "parent_path (e_path e) = p" "basename (e_path e) = name" by blast
    with wf_indexD [OF r(1) ke(1)] clean_path_parent(2) [OF clean [OF ke(1)]] show ?thesis by metis
  qed
  show "(basename k, hash_entry (blake3 X) e) \<in> set (fm_iter (tn_entries n)) \<and> join_path p (basename k) = k"
    if "fmlookup (fo_entries R) k = Some e" "parent_path k = p" for k e
    using direct_entries_lookup [OF r(1,8) that(1), of incl_all "blake3 X"] clean_path_parent(2) [OF clean [OF that(1)]] that(2)
    by (simp add: fm_simps es incl_all_def)
  have sub: "set (fm_keys (tn_entries n)) \<subseteq> basename ` direct_of (fo_entries R) p"
  proof
    fix name
    assume "name \<in> set (fm_keys (tn_entries n))"
    then obtain h where "fmlookup (tn_entries n) name = Some h" by (auto simp: fmlookup_dom'_iff)
    then have "fmlookup (direct_entries (blake3 X) (fo_entries R) incl_all p) name = Some h" by (simp add: es)
    from direct_entries_in [OF this] wf_indexD [OF r(1)] show "name \<in> basename ` direct_of (fo_entries R) p"
      by (fastforce simp: direct_of_def fmlookup_dom'_iff)
  qed
  have "length (fm_iter (tn_entries n)) = card (set (fm_keys (tn_entries n)))"
    using distinct_card [OF fm_keys_distinct, of "tn_entries n"] map_fst_fm_iter [of "tn_entries n"] by (metis length_map)
  also have "\<dots> \<le> card (basename ` direct_of (fo_entries R) p)"
    by (rule card_mono [OF _ sub]) (simp add: direct_of_def)
  also have "\<dots> \<le> card (direct_of (fo_entries R) p)" by (rule card_image_le) (simp add: direct_of_def)
  finally show "length (fm_iter (tn_entries n)) \<le> card (direct_of (fo_entries R) p)" .
qed

definition same_local :: "tree_node option \<Rightarrow> string \<times> hash32 \<Rightarrow> bool" where
  "same_local local_node x \<longleftrightarrow>
     (case local_node of None \<Rightarrow> False | Some node \<Rightarrow> fmlookup (tn_entries node) (fst x) = Some (snd x))"

lemma select_entries_honest:
  assumes "\<And>x. x \<in> set xs \<Longrightarrow> \<exists>e. fmlookup all_remote (join_path p (fst x)) = Some e \<and> hash_entry H e = snd x \<and>
      Q e \<and> validate_remote_path (e_path e) = Inr ()"
  shows "\<exists>sel. select_entries H s p local_node all_remote xs = Inr sel \<and> length sel \<le> length xs \<and> (\<forall>e \<in> set sel. Q e) \<and>
    (\<forall>x \<in> set xs. \<forall>e. fmlookup all_remote (join_path p (fst x)) = Some e \<longrightarrow>
       same_local local_node x \<or> covered s e \<or> e \<in> set sel)"
  using assms
proof (induction xs)
  case (Cons x xs)
  obtain sel where sel: "select_entries H s p local_node all_remote xs = Inr sel" "length sel \<le> length xs"
    "\<forall>e \<in> set sel. Q e" "\<forall>x \<in> set xs. \<forall>e. fmlookup all_remote (join_path p (fst x)) = Some e \<longrightarrow>
       same_local local_node x \<or> covered s e \<or> e \<in> set sel"
    using Cons.IH Cons.prems by fastforce
  obtain e where e: "fmlookup all_remote (join_path p (fst x)) = Some e" "hash_entry H e = snd x" "Q e"
    "validate_remote_path (e_path e) = Inr ()"
    using Cons.prems [of x] by auto
  have step: "select_entries H s p local_node all_remote (x # xs) =
      (if same_local local_node x \<or> \<not> should_accept_remote s e then Inr sel else Inr (e # sel))"
    using sel(1) e(1,2) by (simp add: same_local_def and_then_def)
  show ?case
    using sel e covered_if_refused [OF e(4), of s] unfolding step
    by (cases "same_local local_node x \<or> \<not> should_accept_remote s e") auto
qed simp

lemma split_batch_result:
  "split_batch es = Inr (ns, fl) \<Longrightarrow>
     set (map fst ns @ map fst fl) = set es \<and> length ns + length fl = length es"
proof (induction es arbitrary: ns fl)
  case (Cons e es)
  then obtain ns0 fl0 where b: "split_batch es = Inr (ns0, fl0)"
    and r: "ns = ns0 \<and> map fst fl = e # map fst fl0 \<or> map fst ns = e # map fst ns0 \<and> fl = fl0"
      "length ns + length fl = Suc (length ns0 + length fl0)"
    by (auto simp: and_then_def split: if_splits option.splits sum.splits)
  note ih = Cons.IH [OF b, unfolded set_append]
  have "set (map fst ns) \<union> set (map fst fl) = insert e (set (map fst ns0) \<union> set (map fst fl0))"
    using r(1) by (elim disjE conjE; simp only: list.set; blast)
  with ih r(2) show ?case unfolding set_append list.set by (simp only: length_Cons)
qed simp

section \<open>One node\<close>

definition lamports_within :: "u64 \<Rightarrow> index \<Rightarrow> bool" where
  "lamports_within L E \<longleftrightarrow> fmpred (\<lambda>_ e. v_lamport (e_version e) \<le> L) E"

lemma covered_if_present: "fmlookup (fo_entries s) k = Some e \<Longrightarrow> e_path e = k \<Longrightarrow> covered s e"
  by (simp add: covered_def)

lemma same_local_covered:
  assumes R: "remote_ok X R" and s: "local_ok X s" and e: "fmlookup (fo_entries R) k = Some e"
    and p: "clean_prefix p" and same: "same_local (state_node s p) (name, hash_entry (blake3 X) e)"
  shows "covered s e"
proof -
  note r = remote_okD [OF R]
  from same obtain n where n: "fmlookup (ts_nodes (fo_tree s)) p = Some n"
    "fmlookup (tn_entries n) name = Some (hash_entry (blake3 X) e)"
    using clean_prefix_normal [OF p] by (auto simp: same_local_def state_node_def split: option.splits)
  have l: "merkle (blake3 X) (fo_entries s) incl_all (ts_nodes (fo_tree s))" "typed_index (fo_entries s)"
    "wf_index (fo_entries s)"
    using s by (simp_all add: local_ok_def replica_ok_def)
  have "fmlookup (direct_entries (blake3 X) (fo_entries s) incl_all p) name = Some (hash_entry (blake3 X) e)"
    using merkle_nodeD(2) [OF l(1) n(1)] n(2) by simp
  from direct_entries_in [OF this] obtain j f where
    "fmlookup (fo_entries s) j = Some f" "hash_entry (blake3 X) f = hash_entry (blake3 X) e" by metis
  from equal_hash_same_entry [OF r(5) e r(2) l(3) this(1) l(2) this(2) r(1)] wf_indexD [OF r(1) e]
  show ?thesis by (simp add: covered_if_present)
qed

lemma reconcile_entries_honest:
  assumes R: "remote_ok X R" and P: "honest P R" and s: "local_ok X (sy_state S)"
    and room: "sync_room (sy_state S) L N" "card (direct_of (fo_entries R) p) \<le> N" "lamports_within L (fo_entries R)"
    and n: "fmlookup (ts_nodes (fo_tree R)) p = Some n"
    and run: "reconcile_entries X pid P p (state_node (sy_state S) p) n S = (Inr ch, S')"
  shows "local_ok X (sy_state S') \<and> advances (sy_state S) (sy_state S') \<and>
    sync_room (sy_state S') L (N - card (direct_of (fo_entries R) p)) \<and>
    (\<forall>k e. fmlookup (fo_entries R) k = Some e \<longrightarrow> parent_path k = p \<longrightarrow> covered (sy_state S') e)"
proof -
  note r = remote_okD [OF R] and names = node_names [OF R n]
  let ?E = "fo_entries R" and ?xs = "fm_iter (tn_entries n)" and ?ln = "state_node (sy_state S) p"
  define all where "all = fm_collect (map (\<lambda>e. (e_path e, e)) (entries_at R p))"
  have all: "fmlookup all k = Some e" if "fmlookup ?E k = Some e" "parent_path k = p" for k e
    unfolding all_def by (rule honest_entries [OF R that n])
  have "\<exists>e. fmlookup all (join_path p (fst x)) = Some e \<and> hash_entry (blake3 X) e = snd x \<and>
      (\<exists>k. fmlookup ?E k = Some e) \<and> validate_remote_path (e_path e) = Inr ()" if "x \<in> set ?xs" for x
    using that names(1) [of "fst x" "snd x"] all r(6) wf_indexD [OF r(1)] by (metis prod.collapse)
  from select_entries_honest [of ?xs, OF this] obtain sel where sel:
    "select_entries (blake3 X) (sy_state S) p ?ln all ?xs = Inr sel" "length sel \<le> length ?xs"
    "\<forall>e \<in> set sel. \<exists>k. fmlookup ?E k = Some e"
    "\<forall>x \<in> set ?xs. \<forall>e. fmlookup all (join_path p (fst x)) = Some e \<longrightarrow>
       same_local ?ln x \<or> covered (sy_state S) e \<or> e \<in> set sel" by blast
  obtain ns fl S1 S2 fb ch1 ch2 where b: "split_batch sel = Inr (ns, fl)" and a1: "apply_batch X ns S = (Inr ch1, S1)"
    and f: "fetch_all X pid P fl S1 = (Inr fb, S2)" and a2: "apply_batch X fb S2 = (Inr ch2, S')"
    using run sel(1) P
    by (auto simp: reconcile_entries_def honest_def Let_def all_def and_then_def split: sum.splits prod.splits)
  note sb = split_batch_result [OF b] and fa = fetch_all_batch [OF f]
  have len: "length fb = length fl" using fa by (metis length_map)
  have ok: "typed_entry e" "v_lamport (e_version e) \<le> L" if "e \<in> set (map fst ns @ map fst fb)" for e
  proof -
    from that sb fa sel(3) obtain k where "fmlookup ?E k = Some e" by (metis set_append)
    then show "typed_entry e" "v_lamport (e_version e) \<le> L"
      using r(2) room(3) by (auto simp: typed_index_def lamports_within_def dest: fmpredD)
  qed
  have w: "within L ns" "within L fb" "\<forall>(e, _) \<in> set ns. typed_entry e" "\<forall>(e, _) \<in> set fb. typed_entry e"
    using ok by (force simp: within_def list_all_iff)+
  have small: "length ns + length fl \<le> card (direct_of ?E p)" using sb sel(2) names(3) by linarith
  then have "length ns \<le> N" using room(2) by linarith
  note st1 = apply_batch_ok [OF a1 s room(1) w(1) this w(3)]
  have s2: "sy_state S2 = sy_state S1" using fa by simp
  have "length fb \<le> N - length ns" using small room(2) len by linarith
  note st2 = apply_batch_ok [OF a2 st1(1) [folded s2] st1(3) [folded s2] w(2) this w(4)]
  have adv: "advances (sy_state S) (sy_state S')" using st1(2) st2(2) advances_trans unfolding s2 by blast
  have "N - card (direct_of ?E p) \<le> N - length ns - length fb" using small len by linarith
  with st2(3) have "sync_room (sy_state S') L (N - card (direct_of ?E p))" by (rule sync_room_weaken)
  moreover have "covered (sy_state S') e" if "fmlookup ?E k = Some e" "parent_path k = p" for k e
  proof -
    note nm = names(2) [OF that]
    have "same_local ?ln (basename k, hash_entry (blake3 X) e) \<or> covered (sy_state S) e \<or> e \<in> set sel"
      using sel(4) nm all [OF that] by fastforce
    moreover have "covered (sy_state S') e" if "e \<in> set sel"
    proof -
      from that sb fa have "e \<in> set (map fst ns) \<or> e \<in> set (map fst fb)" by (metis UnE set_append)
      then show ?thesis
        using st1(4) st2(2,4) covered_advances unfolding s2 by (fastforce)
    qed
    ultimately show ?thesis
      using same_local_covered [OF R s that(1) r(7) [OF n]] covered_advances [OF adv] by blast
  qed
  ultimately show ?thesis using st2(1) adv by blast
qed

end
