(* ===== verification/Lil_Walk.thy ===== *)
theory Lil_Walk
  imports Lil_Reconcile
begin

text \<open>
  The walk of a reconciliation, \<open>reconcile_loop\<close> and what is built from it: one step of the loop
  against a truthful peer, the invariant of the stack, and the two facts that follow for the whole
  run, that it ends and that it leaves no entry of the peer uncovered.
\<close>

section \<open>The children of a remote node\<close>

lemma node_children:
  assumes R: "remote_ok X R" and n: "fmlookup (ts_nodes (fo_tree R)) p = Some n"
  shows "(name, h) \<in> set (fm_iter (tn_children n)) \<Longrightarrow>
      \<exists>c nc. fmlookup (ts_nodes (fo_tree R)) c = Some nc \<and> c \<noteq> [] \<and> parent_path c = p \<and> h = tn_hash nc \<and>
        join_path p name = c \<and> basename c = name"
    and "fmlookup (ts_nodes (fo_tree R)) c = Some nc \<Longrightarrow> c \<noteq> [] \<Longrightarrow> parent_path c = p \<Longrightarrow>
      (basename c, tn_hash nc) \<in> set (fm_iter (tn_children n)) \<and> join_path p (basename c) = c"
proof -
  note r = remote_okD [OF R]
  have ch: "tn_children n = direct_children (ts_nodes (fo_tree R)) p" by (rule merkle_nodeD(3) [OF r(3) n])
  have join: "join_path (parent_path c) (basename c) = c"
    if "fmlookup (ts_nodes (fo_tree R)) c = Some nc" "c \<noteq> []" for c nc
    using r(7) [OF that(1)] that(2) by (intro clean_path_parent(2)) (simp add: clean_prefix_def)
  show "\<exists>c nc. fmlookup (ts_nodes (fo_tree R)) c = Some nc \<and> c \<noteq> [] \<and> parent_path c = p \<and> h = tn_hash nc \<and>
      join_path p name = c \<and> basename c = name" if "(name, h) \<in> set (fm_iter (tn_children n))" for name h
  proof -
    from that have "fmlookup (direct_children (ts_nodes (fo_tree R)) p) name = Some h" by (simp add: fm_simps ch)
    from direct_children_in [OF this] join show ?thesis by metis
  qed
  show "(basename c, tn_hash nc) \<in> set (fm_iter (tn_children n)) \<and> join_path p (basename c) = c"
    if "fmlookup (ts_nodes (fo_tree R)) c = Some nc" "c \<noteq> []" "parent_path c = p" for c nc
    using direct_children_lookup [OF r(9) that(1,2)] join [OF that(1,2)] that(3) by (simp add: fm_simps ch)
qed

lemma queued_children:
  assumes R: "remote_ok X R" and n: "fmlookup (ts_nodes (fo_tree R)) p = Some n"
    and pushed_def: "pushed = queue_changed_children p local_node n"
  shows "distinct (map fst pushed)"
    and "x \<in> set pushed \<Longrightarrow> fst x \<noteq> [] \<and> parent_path (fst x) = p \<and>
      (\<exists>c. fmlookup (ts_nodes (fo_tree R)) (fst x) = Some c \<and> tn_hash c = snd x)"
    and "fmlookup (ts_nodes (fo_tree R)) c = Some nc \<Longrightarrow> c \<noteq> [] \<Longrightarrow> parent_path c = p \<Longrightarrow>
      (c, tn_hash nc) \<in> set pushed \<or>
      (\<exists>node. local_node = Some node \<and> fmlookup (tn_children node) (basename c) = Some (tn_hash nc))"
proof -
  note kids = node_children [OF R n]
  let ?P = "\<lambda>(name, h). \<not> (case local_node of None \<Rightarrow> False
                               | Some node \<Rightarrow> fmlookup (tn_children node) name = Some h)"
  let ?ns = "map fst (filter ?P (fm_iter (tn_children n)))"
  have "map fst pushed = map (join_path p) ?ns"
    by (simp add: pushed_def queue_changed_children_def case_prod_beta comp_def)
  moreover have "distinct ?ns"
    using fm_keys_distinct [of "tn_children n"] by (intro distinct_map_filter) simp
  moreover have "inj_on (join_path p) (set ?ns)"
  proof (rule inj_on_inverseI)
    fix name assume "name \<in> set ?ns"
    then obtain h where "(name, h) \<in> set (fm_iter (tn_children n))" by auto
    from kids(1) [OF this] show "basename (join_path p name) = name" by metis
  qed
  ultimately show "distinct (map fst pushed)" by (simp only: distinct_map)
  show "fst x \<noteq> [] \<and> parent_path (fst x) = p \<and>
      (\<exists>c. fmlookup (ts_nodes (fo_tree R)) (fst x) = Some c \<and> tn_hash c = snd x)" if "x \<in> set pushed" for x
  proof -
    from that obtain name h where "(name, h) \<in> set (fm_iter (tn_children n))" "x = (join_path p name, h)"
      by (auto simp: pushed_def queue_changed_children_def)
    with kids(1) [of name h] show ?thesis by (metis fst_conv snd_conv)
  qed
  show "(c, tn_hash nc) \<in> set pushed \<or>
      (\<exists>node. local_node = Some node \<and> fmlookup (tn_children node) (basename c) = Some (tn_hash nc))"
    if "fmlookup (ts_nodes (fo_tree R)) c = Some nc" "c \<noteq> []" "parent_path c = p" for c nc
  proof -
    note k = kids(2) [OF that]
    show ?thesis
    proof (cases "?P (basename c, tn_hash nc)")
      case True
      then have "(join_path p (basename c), tn_hash nc) \<in> set pushed"
        using k unfolding pushed_def queue_changed_children_def set_map set_filter by force
      with k show ?thesis by simp
    qed (auto split: option.splits)
  qed
qed

section \<open>One step\<close>

lemma equal_subtree_covered:
  assumes R: "remote_ok X R" and s: "local_ok X s"
    and c: "fmlookup (ts_nodes (fo_tree R)) c = Some nc"
    and l: "fmlookup (ts_nodes (fo_tree s)) d = Some nd" "tn_hash nc = tn_hash nd"
    and e: "fmlookup (fo_entries R) k = Some e" "c \<in> set (ancestors k)"
  shows "covered s e"
proof -
  note r = remote_okD [OF R]
  have ok: "merkle (blake3 X) (fo_entries s) incl_all (ts_nodes (fo_tree s))" "wf_index (fo_entries s)"
    "typed_index (fo_entries s)"
    using s by (simp_all add: local_ok_def replica_ok_def)
  have "c = d" by (rule equal_hash_same_node(1) [OF r(3,5) ok(1) c l])
  with l have "fmlookup (ts_nodes (fo_tree s)) c = Some nd" by simp
  from equal_hash_same_entries [OF r(3,1,8,9,2,4) ok r(5) c this l(2) e(1) _ e(2)]
  have "fmlookup (fo_entries s) k = Some e" by (simp add: incl_all_def)
  with wf_indexD [OF r(1) e(1)] show ?thesis by (simp add: covered_if_present)
qed

lemma reconcile_node_honest:
  assumes R: "remote_ok X R" and P: "honest P R" and hints: "checked_hints X hints" and s: "local_ok X (sy_state S)"
    and room: "sync_room (sy_state S) L N" "card (direct_of (fo_entries R) p) \<le> N" "lamports_within L (fo_entries R)"
    and n: "fmlookup (ts_nodes (fo_tree R)) p = Some n"
    and run: "reconcile_node X pid P hints p (tn_hash n) S = (Inr (ch, pushed), S')"
  shows "local_ok X (sy_state S')" "advances (sy_state S) (sy_state S')"
    "sync_room (sy_state S') L (N - card (direct_of (fo_entries R) p))"
    "distinct (map fst pushed)"
    "\<forall>x \<in> set pushed. fst x \<noteq> [] \<and> parent_path (fst x) = p \<and>
      (\<exists>c. fmlookup (ts_nodes (fo_tree R)) (fst x) = Some c \<and> tn_hash c = snd x)"
    "\<And>k e. fmlookup (fo_entries R) k = Some e \<Longrightarrow> p \<in> set (ancestors k) \<Longrightarrow>
      covered (sy_state S') e \<or> (\<exists>x \<in> set pushed. fst x \<in> set (ancestors k))"
proof -
  note r = remote_okD [OF R]
  let ?E = "fo_entries R" and ?m = "ts_nodes (fo_tree R)" and ?ln = "state_node (sy_state S) p"
  have local_node: "?ln = fmlookup (ts_nodes (fo_tree (sy_state S))) p" "state_node R p = Some n"
    using n clean_prefix_normal [OF r(7) [OF n]] by (simp_all add: state_node_def)
  have "local_ok X (sy_state S') \<and> advances (sy_state S) (sy_state S') \<and>
    sync_room (sy_state S') L (N - card (direct_of ?E p)) \<and> distinct (map fst pushed) \<and>
    (\<forall>x \<in> set pushed. fst x \<noteq> [] \<and> parent_path (fst x) = p \<and>
      (\<exists>c. fmlookup ?m (fst x) = Some c \<and> tn_hash c = snd x)) \<and>
    (\<forall>k e. fmlookup ?E k = Some e \<longrightarrow> p \<in> set (ancestors k) \<longrightarrow>
      covered (sy_state S') e \<or> (\<exists>x \<in> set pushed. fst x \<in> set (ancestors k)))"
  proof (cases "\<exists>nd. ?ln = Some nd \<and> tn_hash nd = tn_hash n")
    case True
    then obtain nd where nd: "?ln = Some nd" "tn_hash n = tn_hash nd" by metis
    then have "S' = S" "pushed = []" using run by (simp_all add: reconcile_node_def)
    with s room(1) equal_subtree_covered [OF R s n nd(1) [unfolded local_node] nd(2)] show ?thesis
      by (auto intro: sync_room_weaken)
  next
    case False
    have fetched: "(case hinted_get hints p (tn_hash n) of Some node \<Rightarrow> Inr node
        | None \<Rightarrow> and_then (rp_node P p) (\<lambda>n. case n of None \<Rightarrow> Inl Other | Some node \<Rightarrow> Inr node)) = Inr n"
      using hint_is_remote_node [OF R hints n, of p] P local_node(2)
      by (auto simp: honest_def and_then_def split: option.splits)
    from run False have ent: "reconcile_entries X pid P p ?ln n S = (Inr ch, S')"
      and pushed: "pushed = queue_changed_children p ?ln n"
      by (auto simp: reconcile_node_def fetched Let_def split: option.splits sum.splits prod.splits)
    note one = reconcile_entries_honest [OF R P s room n ent]
    note kids = queued_children [OF R n pushed]
    have "covered (sy_state S') e \<or> (\<exists>x \<in> set pushed. fst x \<in> set (ancestors k))"
      if k: "fmlookup ?E k = Some e" "p \<in> set (ancestors k)" for k e
      using k(2)
    proof (cases rule: ancestors_step)
      case 1
      with one k(1) show ?thesis by metis
    next
      case (2 c)
      then obtain nc where c: "fmlookup ?m c = Some nc"
        using r(4) k(1) by (fastforce simp: covers_def fmlookup_dom'_iff incl_all_def)
      from kids(3) [OF this 2(2,3)] show ?thesis
      proof (elim disjE exE conjE)
        fix node
        assume node: "?ln = Some node" "fmlookup (tn_children node) (basename c) = Some (tn_hash nc)"
        have "merkle (blake3 X) (fo_entries (sy_state S)) incl_all (ts_nodes (fo_tree (sy_state S)))"
          using s by (simp add: local_ok_def)
        from merkle_nodeD(3) [OF this node(1) [unfolded local_node]] node(2)
        have "fmlookup (direct_children (ts_nodes (fo_tree (sy_state S))) p) (basename c) = Some (tn_hash nc)" by simp
        from direct_children_in [OF this] obtain d nd where
          "fmlookup (ts_nodes (fo_tree (sy_state S))) d = Some nd" "tn_hash nc = tn_hash nd" by metis
        from equal_subtree_covered [OF R s c this k(1) 2(1)] one show ?thesis by (metis covered_advances)
      qed (use 2(1) in force)
    qed
    with one kids(1,2) show ?thesis by blast
  qed
  then show "local_ok X (sy_state S')" "advances (sy_state S) (sy_state S')"
    "sync_room (sy_state S') L (N - card (direct_of ?E p))" "distinct (map fst pushed)"
    "\<forall>x \<in> set pushed. fst x \<noteq> [] \<and> parent_path (fst x) = p \<and>
      (\<exists>c. fmlookup ?m (fst x) = Some c \<and> tn_hash c = snd x)"
    "\<And>k e. fmlookup ?E k = Some e \<Longrightarrow> p \<in> set (ancestors k) \<Longrightarrow>
      covered (sy_state S') e \<or> (\<exists>x \<in> set pushed. fst x \<in> set (ancestors k))"
    by blast+
qed

section \<open>The loop\<close>

text \<open>The invariant of the stack: what is on it is a node of the remote tree with its hash, there
  is room on the clock for everything below it, and every remote entry is covered or below it.\<close>

definition walk_inv :: "lib \<Rightarrow> folder_state \<Rightarrow> u64 \<Rightarrow> (string \<times> hash32) list \<Rightarrow> folder_state \<Rightarrow> bool" where
  "walk_inv X R L stack s \<longleftrightarrow>
     local_ok X s \<and>
     (\<forall>x \<in> set stack. \<exists>n. fmlookup (ts_nodes (fo_tree R)) (fst x) = Some n \<and> tn_hash n = snd x) \<and>
     sync_room s L (weight parent_path (fmdom' (fo_entries R)) stack) \<and>
     (\<forall>k e. fmlookup (fo_entries R) k = Some e \<longrightarrow> covered s e \<or> (\<exists>x \<in> set stack. fst x \<in> set (ancestors k)))"

lemma walk_inv_step:
  assumes R: "remote_ok X R" and P: "honest P R" and hints: "checked_hints X hints" and L: "lamports_within L (fo_entries R)"
    and inv: "walk_inv X R L (x # rest) (sy_state S)"
    and run: "reconcile_node X pid P hints (fst x) (snd x) S = (Inr (ch, pushed), S')"
  shows "walk_inv X R L (rev pushed @ rest) (sy_state S')"
    and "advances (sy_state S) (sy_state S')"
    and "weight id (fmdom' (ts_nodes (fo_tree R))) (rev pushed @ rest) <
      weight id (fmdom' (ts_nodes (fo_tree R))) (x # rest)"
proof -
  let ?D = "fmdom' (fo_entries R)" and ?M = "fmdom' (ts_nodes (fo_tree R))" and ?p = "fst x"
  obtain n where n: "fmlookup (ts_nodes (fo_tree R)) ?p = Some n" "tn_hash n = snd x"
    using inv by (auto simp: walk_inv_def)
  have s: "local_ok X (sy_state S)" and room: "sync_room (sy_state S) L (weight parent_path ?D (x # rest))"
    using inv by (simp_all add: walk_inv_def)
  have direct: "direct_of (fo_entries R) ?p = {k \<in> ?D. parent_path k = ?p}" by (simp add: direct_of_def)
  have "card (direct_of (fo_entries R) ?p) \<le> card (subtree parent_path ?D ?p)"
    unfolding direct by (rule card_mono) (auto simp: subtree_def in_ancestors_from [of ?p ?p])
  then have N: "card (direct_of (fo_entries R) ?p) \<le> weight parent_path ?D (x # rest)" by simp
  note st = reconcile_node_honest [OF R P hints s room N L n(1) run [folded n(2)]]
  have ps: "\<forall>x \<in> set pushed. fst x \<noteq> [] \<and> parent_path (fst x) = ?p" using st(5) by blast
  have w: "weight f D pushed + card {y \<in> D. f y = ?p} \<le> card (subtree f D ?p)" if "finite D" for f and D :: "string set"
    by (rule weight_pushed [OF that st(4) ps])
  have "weight parent_path ?D (rev pushed @ rest) \<le>
      weight parent_path ?D (x # rest) - card (direct_of (fo_entries R) ?p)"
    using w [of ?D parent_path] unfolding direct by simp
  with st(3) have "sync_room (sy_state S') L (weight parent_path ?D (rev pushed @ rest))" by (rule sync_room_weaken)
  moreover have "covered (sy_state S') e \<or> (\<exists>x \<in> set (rev pushed @ rest). fst x \<in> set (ancestors k))"
    if k: "fmlookup (fo_entries R) k = Some e" for k e
  proof -
    have "covered (sy_state S) e \<or> (\<exists>y \<in> set (x # rest). fst y \<in> set (ancestors k))"
      using inv k unfolding walk_inv_def by blast
    then show ?thesis using covered_advances [OF st(2)] st(6) [OF k] by auto
  qed
  ultimately show "walk_inv X R L (rev pushed @ rest) (sy_state S')"
    using st(1,5) inv by (auto simp: walk_inv_def)
  show "advances (sy_state S) (sy_state S')" by (rule st(2))
  have "?p \<in> {y \<in> ?M. id y = ?p}" using n(1) by (simp add: fmlookup_dom'_iff)
  then have "0 < card {y \<in> ?M. id y = ?p}" by (auto simp: card_gt_0_iff)
  with w [of ?M id] show "weight id ?M (rev pushed @ rest) < weight id ?M (x # rest)" by simp
qed

lemma reconcile_loop_honest:
  assumes R: "remote_ok X R" and P: "honest P R" and hints: "checked_hints X hints" and L: "lamports_within L (fo_entries R)"
    and "walk_inv X R L stack (sy_state S)"
  shows "\<exists>r S'. reconcile_loop X pid P hints stack changes S = Some (r, S') \<and>
    (\<forall>ch. r = Inr ch \<longrightarrow> walk_inv X R L [] (sy_state S') \<and> advances (sy_state S) (sy_state S'))"
  using assms(5)
proof (induction "weight id (fmdom' (ts_nodes (fo_tree R))) stack" arbitrary: stack changes S rule: less_induct)
  case less
  show ?case
  proof (cases stack)
    case Nil
    with less.prems show ?thesis by (simp add: reconcile_loop.simps)
  next
    case (Cons x rest)
    obtain r1 S1 where node: "reconcile_node X pid P hints (fst x) (snd x) S = (r1, S1)" by fastforce
    show ?thesis
    proof (cases r1)
      case (Inl e)
      with node Cons show ?thesis by (simp add: reconcile_loop.simps [of _ _ _ _ "x # rest"])
    next
      case (Inr cp)
      obtain ch pushed where cp: "cp = (ch, pushed)" by fastforce
      note step = walk_inv_step [OF R P hints L less.prems [unfolded Cons] node [unfolded Inr cp]]
      obtain r S' where "reconcile_loop X pid P hints (rev pushed @ rest) (changes @ ch) S1 = Some (r, S')"
        "\<forall>ch. r = Inr ch \<longrightarrow> walk_inv X R L [] (sy_state S') \<and> advances (sy_state S1) (sy_state S')"
        using less.hyps [OF step(3) [folded Cons] step(1)] by blast
      with node Inr cp Cons advances_trans [OF step(2)] show ?thesis
        by (auto simp: reconcile_loop.simps [of _ _ _ _ "x # rest"])
    qed
  qed
qed

section \<open>Termination\<close>

text \<open>The children a step pushes do not depend on the local state: they are children of the
  remote node.\<close>

lemma reconcile_node_pushed:
  assumes R: "remote_ok X R" and P: "honest P R" and hints: "checked_hints X hints"
    and n: "fmlookup (ts_nodes (fo_tree R)) p = Some n"
    and run: "reconcile_node X pid P hints p (tn_hash n) S = (Inr (ch, pushed), S')"
  shows "pushed = [] \<or> pushed = queue_changed_children p (state_node (sy_state S) p) n"
proof -
  note r = remote_okD [OF R]
  have "state_node R p = Some n"
    using n clean_prefix_normal [OF r(7) [OF n]] by (simp add: state_node_def)
  then have fetched: "(case hinted_get hints p (tn_hash n) of Some node \<Rightarrow> Inr node
      | None \<Rightarrow> and_then (rp_node P p) (\<lambda>n. case n of None \<Rightarrow> Inl Other | Some node \<Rightarrow> Inr node)) = Inr n"
    using hint_is_remote_node [OF R hints n, of p] P
    by (auto simp: honest_def and_then_def split: option.splits)
  show ?thesis
    using run by (auto simp: reconcile_node_def fetched Let_def split: if_splits sum.splits prod.splits)
qed

definition on_tree :: "folder_state \<Rightarrow> (string \<times> hash32) list \<Rightarrow> bool" where
  "on_tree R stack \<longleftrightarrow>
     (\<forall>x \<in> set stack. \<exists>n. fmlookup (ts_nodes (fo_tree R)) (fst x) = Some n \<and> tn_hash n = snd x)"

lemma reconcile_loop_ends:
  assumes R: "remote_ok X R" and P: "honest P R" and hints: "checked_hints X hints" and "on_tree R stack"
  shows "\<exists>r S'. reconcile_loop X pid P hints stack changes S = Some (r, S')"
  using assms(4)
proof (induction "weight id (fmdom' (ts_nodes (fo_tree R))) stack" arbitrary: stack changes S rule: less_induct)
  case less
  let ?M = "fmdom' (ts_nodes (fo_tree R))"
  show ?case
  proof (cases stack)
    case (Cons x rest)
    obtain r1 S1 where node: "reconcile_node X pid P hints (fst x) (snd x) S = (r1, S1)" by fastforce
    show ?thesis
    proof (cases r1)
      case (Inr cp)
      obtain ch pushed where cp: "cp = (ch, pushed)" by fastforce
      obtain n where n: "fmlookup (ts_nodes (fo_tree R)) (fst x) = Some n" "tn_hash n = snd x"
        using less.prems by (auto simp: on_tree_def Cons)
      from reconcile_node_pushed [OF R P hints n(1), of pid S ch pushed S1] node Inr cp n(2)
      have "pushed = [] \<or> pushed = queue_changed_children (fst x) (state_node (sy_state S) (fst x)) n" by simp
      then have kids: "distinct (map fst pushed)" "\<forall>y \<in> set pushed. fst y \<noteq> [] \<and> parent_path (fst y) = fst x"
        "on_tree R pushed"
        using queued_children(1,2) [OF R n(1)] by (auto simp: on_tree_def)
      have "0 < card {y \<in> ?M. id y = fst x}" using n(1) by (auto simp: card_gt_0_iff fmlookup_dom'_iff)
      with weight_pushed [OF _ kids(1,2), of ?M id]
      have "weight id ?M (rev pushed @ rest) < weight id ?M stack" by (simp add: Cons)
      moreover have "on_tree R (rev pushed @ rest)" using kids(3) less.prems by (auto simp: on_tree_def Cons)
      ultimately show ?thesis
        using less.hyps [of "rev pushed @ rest" "changes @ ch" S1] node Inr cp
        by (simp add: Cons reconcile_loop.simps [of _ _ _ _ "x # rest"])
    qed (simp add: node Cons reconcile_loop.simps [of _ _ _ _ "x # rest"])
  qed (simp add: reconcile_loop.simps)
qed

section \<open>Whole runs\<close>

definition typed_hint :: "remote_root \<Rightarrow> bool" where
  "typed_hint remote \<longleftrightarrow>
     (case rr_hint remote of None \<Rightarrow> True
      | Some hint \<Rightarrow> list_all (\<lambda>n. typed_map (tn_entries n) \<and> typed_map (tn_children n)) (th_nodes hint))"

definition tree_rooted :: "folder_state \<Rightarrow> bool" where
  "tree_rooted s \<longleftrightarrow>
     (case fmlookup (ts_nodes (fo_tree s)) [] of None \<Rightarrow> False | Some n \<Rightarrow> root_hash s = tn_hash n)"

definition hints_of :: "lib \<Rightarrow> remote_root \<Rightarrow> hinted_nodes" where
  "hints_of X remote = (case rr_hint remote of None \<Rightarrow> fmempty | Some hint \<Rightarrow> hinted_from (blake3 X) hint)"

lemma typed_hint_checked: "typed_hint remote \<Longrightarrow> checked_hints X (hints_of X remote)"
  by (auto simp: typed_hint_def hints_of_def list_all_iff checked_hints_def [of X fmempty]
      split: option.splits intro!: hinted_from_checked)

lemma remote_root_node:
  assumes "remote_ok X R"
  obtains n where "fmlookup (ts_nodes (fo_tree R)) [] = Some n" "tn_hash n = root_hash R"
  using assms by (auto simp: remote_ok_def)

lemma reconcile_ends:
  assumes "remote_ok X R" "honest P R" "rr_state_root remote = root_hash R" "typed_hint remote"
  shows "\<exists>r S'. reconcile_with_advertised_root X pid P remote S = Some (r, S')"
proof -
  obtain n where "fmlookup (ts_nodes (fo_tree R)) [] = Some n" "tn_hash n = root_hash R"
    using assms(1) by (rule remote_root_node)
  then have "on_tree R [([], rr_state_root remote)]" by (simp add: on_tree_def assms(3))
  from reconcile_loop_ends [OF assms(1,2) typed_hint_checked [OF assms(4)] this, of pid "[]" S]
  obtain r S' where "reconcile_walk X pid P remote S = Some (r, S')"
    by (cases "root_hash (sy_state S) = rr_state_root remote") (auto simp: reconcile_walk_def hints_of_def)
  then show ?thesis
    by (cases r) (simp_all add: reconcile_with_advertised_root_def)
qed


lemma walk_covers:
  assumes "remote_ok X R" "honest P R" "rr_state_root remote = root_hash R" "typed_hint remote"
    and "local_ok X (sy_state S)" "tree_rooted (sy_state S)"
    and "lamports_within L (fo_entries R)" "sync_room (sy_state S) L (card (fmdom' (fo_entries R)))"
    and "reconcile_walk X pid P remote S = Some (Inr ch, S')"
  shows "fmpred (\<lambda>_. covered (sy_state S')) (fo_entries R) \<and> advances (sy_state S) (sy_state S') \<and>
    local_ok X (sy_state S')"
proof -
  let ?E = "fo_entries R"
  obtain n where n: "fmlookup (ts_nodes (fo_tree R)) [] = Some n" "tn_hash n = root_hash R"
    using assms(1) by (rule remote_root_node)
  have all: "[] \<in> set (ancestors k)" for k by (simp add: ancestors_def)
  show ?thesis
  proof (cases "root_hash (sy_state S) = root_hash R")
    case True
    then obtain b where "fmlookup (ts_nodes (fo_tree (sy_state S))) [] = Some b" "tn_hash n = tn_hash b"
      using assms(6) n(2) by (auto simp: tree_rooted_def split: option.splits)
    from equal_subtree_covered [OF assms(1,5) n(1) this _ all]
    have "covered (sy_state S) e" if "fmlookup ?E k = Some e" for k e using that by blast
    moreover have "S' = S" using assms(9,3) True by (simp add: reconcile_walk_def)
    ultimately show ?thesis using assms(5) by (auto intro!: fmpredI)
  next
    case False
    then have loop: "reconcile_loop X pid P (hints_of X remote) [([], rr_state_root remote)] [] S = Some (Inr ch, S')"
      using assms(9,3) by (simp add: reconcile_walk_def hints_of_def)
    have "subtree parent_path (fmdom' ?E) [] \<subseteq> fmdom' ?E" by (auto simp: subtree_def)
    from card_mono [OF _ this] have "sync_room (sy_state S) L (card (subtree parent_path (fmdom' ?E) []))"
      using assms(8) by (auto elim: sync_room_weaken)
    then have "walk_inv X R L [([], rr_state_root remote)] (sy_state S)"
      using assms(3,5) n all by (simp add: walk_inv_def)
    from reconcile_loop_honest [OF assms(1,2) typed_hint_checked [OF assms(4)] assms(7) this, of pid "[]"]
    have "walk_inv X R L [] (sy_state S')" "advances (sy_state S) (sy_state S')" using loop by simp_all
    then show ?thesis by (auto simp: walk_inv_def intro!: fmpredI)
  qed
qed

text \<open>
  C7. A walk that ends without an error leaves nothing of the peer behind: for every entry of the
  peer the local index then has an entry at that path with the same or a newer version (or the
  entry is a tombstone that was already garbage collected here), no local version went back, and
  the local tree is still the Merkle tree of the local index. Subtrees skipped because their
  hashes agree are covered too.
\<close>

theorem reconcile_covers_peer:
  assumes "remote_ok X R" "honest P R" "rr_state_root remote = root_hash R" "typed_hint remote"
    and "local_ok X (sy_state S)" "tree_rooted (sy_state S)"
    and "lamports_within L (fo_entries R)" "sync_room (sy_state S) L (card (fmdom' (fo_entries R)))"
    and "reconcile_walk X pid P remote S = Some (Inr ch, S')"
  shows "fmpred (\<lambda>_. covered (sy_state S')) (fo_entries R) \<and> advances (sy_state S) (sy_state S') \<and>
    local_ok X (sy_state S')"
  using assms by (rule walk_covers)

section \<open>A peer behind its RPC server\<close>

text \<open>What a client sees of a server: each call goes through \<open>serve\<close> and the client's own check of
  the response.\<close>

definition ask ::
    "json \<Rightarrow> lib \<Rightarrow> u64 \<Rightarrow> abspath \<Rightarrow> node_id \<Rightarrow> ip_addr \<Rightarrow> server \<Rightarrow> request_message \<Rightarrow> response_message io_result" where
  "ask J X now invites_path me ip sv req =
     (case fst (serve J X now invites_path me ip req sv) of
        None \<Rightarrow> Inl Other
      | Some (Inl e) \<Rightarrow> Inl e
      | Some (Inr (r, _)) \<Rightarrow> Inr r)"

definition served_peer ::
    "json \<Rightarrow> lib \<Rightarrow> u64 \<Rightarrow> abspath \<Rightarrow> node_id \<Rightarrow> ip_addr \<Rightarrow> server \<Rightarrow> peer_rpc" where
  "served_peer J X now invites_path me ip sv =
     (let rt = ask J X now invites_path me ip sv in
      \<lparr>rp_root = get_root rt 1, rp_node = get_node rt 1, rp_entries = get_entries rt 1,
       rp_object = (\<lambda>rid h. and_then (handle_get_object rid h me sv) (\<lambda>(r, b). Inr (r, b, UnexpectedEof)))\<rparr>)"

lemma served_peer_honest:
  "is_active_member (sv_group sv) me \<Longrightarrow> honest (served_peer J X now invites_path me ip sv) (sv_state sv)"
  by (simp add: honest_def served_peer_def ask_def serve_def get_node_def get_entries_def check_member_def
      and_then_def Let_def)

definition sync_lib :: lib where
  "sync_lib = ex_lib\<lparr>blake3 := table_hash\<rparr>"

definition at_index :: "index \<Rightarrow> folder_state" where
  "at_index E = ex_state\<lparr>fo_lamport := 9, fo_entries := E, fo_tree := derive_tree table_hash E,
     fo_live_tree := derive_live_tree table_hash E\<rparr>"

definition sync_server :: server where
  "sync_server = ex_server\<lparr>sv_state := at_index one_index,
     sv_fs := put_node [''r'', ''a''] (FsFile [1, 2, 3] 0x81A4 5) ex_fs\<rparr>"

definition sync_start :: sync_state where
  "sync_start = \<lparr>sy_state = at_index fmempty, sy_fs = ex_fs, sy_recv = 4, sy_request = 1\<rparr>"

definition sync_peer :: peer_rpc where
  "sync_peer = served_peer ex_json sync_lib 50 [] (ex_node 2) (V4 [10, 0, 0, 1]) sync_server"

definition sync_root :: remote_root where
  "sync_root = \<lparr>rr_state_root = root_hash (sv_state sync_server), rr_live_root = zero_hash, rr_lamport = 9,
     rr_hint = Some \<lparr>th_truncated = False, th_nodes = [blank_node [], blank_node ''a'']\<rparr>\<rparr>"

lemma derived_merkle: "merkle H E incl_all (ts_nodes (derive_tree H E))"
  unfolding derive_tree_def by (rule derive_tree_with_spec(1))

lemma sync_server_remote_ok: "remote_ok sync_lib (sv_state sync_server)"
proof -
  have "let s = at_index one_index in
      wf_index (fo_entries s) \<and> typed_index (fo_entries s) \<and>
      fmpred (\<lambda>k _. validate_remote_path k = Inr ()) (fo_entries s) \<and>
      fmpred (\<lambda>p _. clean_prefix p) (ts_nodes (fo_tree s)) \<and> tree_rooted s" by code_simp
  moreover have "covers incl_all one_index (ts_nodes (derive_tree table_hash one_index))"
    unfolding derive_tree_def by (rule derive_tree_covers) code_simp
  ultimately show ?thesis
    using table_indexes(2) derived_merkle [of table_hash one_index]
    by (auto simp: remote_ok_def sync_server_def sync_lib_def at_index_def tree_rooted_def Let_def split: option.splits)
qed

lemma sync_start_local_ok: "local_ok sync_lib (sy_state sync_start)"
proof -
  have "replica_ok (at_index fmempty) \<and> typed_index (fo_entries (at_index fmempty))" by code_simp
  then show ?thesis
    using derived_merkle [of table_hash "fmempty :: index"]
    by (simp add: local_ok_def sync_start_def sync_lib_def at_index_def)
qed

lemma sync_peer_honest: "honest sync_peer (sv_state sync_server)"
  unfolding sync_peer_def by (rule served_peer_honest) code_simp

lemma sync_walk_runs:
  "case reconcile_walk sync_lib 7 sync_peer sync_root sync_start of
     Some (Inr ch, S') \<Rightarrow> map c_path ch = [''a''] \<and> map e_kind (fm_values (fo_entries (sy_state S'))) = [File] | _ \<Rightarrow> False"
  by code_simp

lemma sync_ready:
  "typed_hint sync_root" "tree_rooted (sy_state sync_start)" "lamports_within 9 (fo_entries (sv_state sync_server))"
  "sync_room (sy_state sync_start) 9 (card (fmdom' (fo_entries (sv_state sync_server))))"
  "rr_state_root sync_root = root_hash (sv_state sync_server)"
proof -
  have "typed_hint sync_root \<and> tree_rooted (sy_state sync_start) \<and> sync_room (sy_state sync_start) 9 1" by code_simp
  moreover have "card (fmdom' (fo_entries (sv_state sync_server))) = 1"
    by (simp add: sync_server_def at_index_def one_index_def)
  ultimately show "typed_hint sync_root" "tree_rooted (sy_state sync_start)"
    "sync_room (sy_state sync_start) 9 (card (fmdom' (fo_entries (sv_state sync_server))))" by simp_all
  have "lamports_within 9 one_index" by code_simp
  then show "lamports_within 9 (fo_entries (sv_state sync_server))" by (simp add: sync_server_def at_index_def)
  show "rr_state_root sync_root = root_hash (sv_state sync_server)" by (simp add: sync_root_def)
qed


theorem reconcile_covers_peer_witness:
  "(case reconcile_walk sync_lib 7 sync_peer sync_root sync_start of
      Some (Inr ch, S') \<Rightarrow> map c_path ch = [''a''] \<and> fmpred (\<lambda>_. covered (sy_state S')) one_index
    | _ \<Rightarrow> False)"
proof -
  have "fo_entries (sv_state sync_server) = one_index" by (simp add: sync_server_def at_index_def)
  then show ?thesis
    using sync_walk_runs
      reconcile_covers_peer [OF sync_server_remote_ok sync_peer_honest sync_ready(5,1) sync_start_local_ok sync_ready(2-4), of 7]
    by (auto split: option.splits prod.splits sum.splits)
qed

section \<open>A peer that lies\<close>

text \<open>A node a peer serves is compared with the wanted hash by the hash it claims, not by the hash
  of its content (hints are). A peer that serves, at every prefix, a node with that claimed hash and
  one child with the same hash keeps the walk running.\<close>

definition forged_node :: "hash32 \<Rightarrow> tree_node" where
  "forged_node h = (blank_node [])\<lparr>tn_hash := h, tn_children := fmupd ''x'' h fmempty\<rparr>"

definition forging_peer :: "hash32 \<Rightarrow> peer_rpc" where
  "forging_peer h = \<lparr>rp_root = Inr (h, h, 0), rp_node = (\<lambda>_. Inr (Some (forged_node h))),
     rp_entries = (\<lambda>_. Inr []), rp_object = (\<lambda>_ _. Inl Other)\<rparr>"

definition knows_hash :: "hash32 \<Rightarrow> folder_state \<Rightarrow> bool" where
  "knows_hash h s \<longleftrightarrow> \<not> fmpred (\<lambda>_ n. tn_hash n \<noteq> h \<and> fmpred (\<lambda>_ c. c \<noteq> h) (tn_children n)) (ts_nodes (fo_tree s))"

lemma forged_step:
  assumes "\<not> knows_hash h (sy_state S)"
  shows "reconcile_node X pid (forging_peer h) fmempty p h S = (Inr ([], [(join_path p ''x'', h)]), S)"
proof -
  have "tn_hash n \<noteq> h \<and> fmlookup (tn_children n) q \<noteq> Some h" if "state_node (sy_state S) p = Some n" for n q
    using assms that by (auto simp: knows_hash_def state_node_def dest: fmpredD)
  moreover have "fm_iter (fmupd ''x'' h fmempty) = [(''x'', h)]"
    by (simp add: fm_iter_def sorted_list_of_fset.rep_eq)
  ultimately show ?thesis
    by (auto simp: reconcile_node_def hinted_get_def and_then_def forging_peer_def forged_node_def blank_node_def
        reconcile_entries_def apply_batch_def queue_changed_children_def Let_def split: option.splits)
qed

lemma forged_walk_diverges:
  assumes "reconcile_loop X pid P hints stack changes S = Some r"
  shows "\<not> (\<exists>h p. P = forging_peer h \<and> hints = fmempty \<and> stack = [(p, h)] \<and> \<not> knows_hash h (sy_state S))"
  using reconcile_loop.raw_induct [where Pa = "\<lambda>((((((X, pid), P), hints), stack), changes), S) r.
      \<not> (\<exists>h p. P = forging_peer h \<and> hints = fmempty \<and> stack = [(p, h)] \<and> \<not> knows_hash h (sy_state S))", OF _ assms]
  by (fastforce simp: forged_step split: list.splits)

text \<open>A walk against a forging peer never ends.\<close>

theorem forged_nodes_keep_walk_running:
  assumes "\<not> knows_hash h (sy_state S)" "root_hash (sy_state S) \<noteq> h"
  shows "reconcile_with_peer X pid (forging_peer h) S = None"
proof -
  have "reconcile_loop X pid (forging_peer h) fmempty [([], h)] [] S = None"
    using forged_walk_diverges [of X pid "forging_peer h" fmempty "[([], h)]" "[]" S] assms(1)
    by (cases "reconcile_loop X pid (forging_peer h) fmempty [([], h)] [] S") auto
  then show ?thesis
    using assms(2)
    by (simp add: reconcile_with_peer_def reconcile_with_advertised_root_def reconcile_walk_def forging_peer_def)
qed

theorem forged_nodes_keep_walk_running_witness:
  "reconcile_with_peer sync_lib 7 (forging_peer (replicate 32 9)) sync_start = None"
proof -
  have "\<not> knows_hash (replicate 32 9) (sy_state sync_start) \<and> root_hash (sy_state sync_start) \<noteq> replicate 32 9" by code_simp
  then show ?thesis by (intro forged_nodes_keep_walk_running) simp_all
qed

end
