(* ===== verification/Lil_Converge.thy ===== *)
theory Lil_Converge
  imports Lil_Walk
begin

text \<open>
  Two replicas that reconcile with each other. Where every entry of an index comes from is followed
  through a reconciliation (\<open>src/sync.rs\<close>, \<open>src/state.rs\<close>); with the coverage of \<open>Lil_Walk\<close> in both
  directions it follows that the two indexes agree.
\<close>

section \<open>Where entries come from\<close>

text \<open>An entry of \<open>s\<close> was in \<open>s0\<close> at the same path, is one of those offered, or is a tombstone of this
  node.\<close>

definition sourced :: "folder_state \<Rightarrow> entry set \<Rightarrow> folder_state \<Rightarrow> bool" where
  "sourced s0 offered s \<longleftrightarrow>
     fo_origin s = fo_origin s0 \<and>
     (\<forall>k e. fmlookup (fo_entries s) k = Some e \<longrightarrow>
        fmlookup (fo_entries s0) k = Some e \<or> e \<in> offered \<and> e_path e = k \<or>
        e_kind e = Tombstone \<and> v_origin (e_version e) = fo_origin s0)"

lemma sourced_refl: "sourced s offered s"
  by (simp add: sourced_def)

lemma sourced_tombstone_path: "sourced s0 Q (fst st) \<Longrightarrow> sourced s0 Q (fst (tombstone_path p st))"
  by (auto simp: sourced_def tombstone_path_def next_version_def tombstone_entry_def Let_def
      split: prod.splits option.splits if_splits)

lemma sourced_tombstones: "sourced s0 Q (fst st) \<Longrightarrow> sourced s0 Q (fst (fold tombstone_path ps st))"
proof (induction ps arbitrary: st)
  case (Cons p ps)
  from Cons.IH [OF sourced_tombstone_path [OF Cons.prems]] show ?case by simp
qed simp

lemma sourced_record:
  assumes "record_remote e s = (ch, s')" "sourced s0 Q s" "e \<in> Q"
  shows "sourced s0 Q s'"
proof -
  have "sourced s0 Q (insert_remote e s)" using assms(2,3) by (auto simp: sourced_def insert_remote_def)
  then have "sourced s0 Q (fst (fold tombstone_path ps (insert_remote e s, [])))" for ps
    using sourced_tombstones [of s0 Q "(insert_remote e s, [])"] by simp
  with \<open>sourced s0 Q (insert_remote e s)\<close> assms(1) show ?thesis
    by (auto simp: record_remote_def tombstone_child_descendants_def insert_remote_def Let_def split: if_splits prod.splits)
      (metis fst_conv)
qed

lemma sourced_loop:
  assumes "apply_remote_loop batch all s fs cp = (r, s', fs', cp')" "sourced s0 Q s" "fst ` set batch \<subseteq> Q"
  shows "sourced s0 Q s'"
  using assms
proof (induction batch arbitrary: all s fs cp)
  case (Cons x batch)
  obtain r1 s1 fs1 cp1 where core: "apply_remote_entry_core (fst x) (snd x) s fs cp = (r1, s1, fs1, cp1)"
    by (metis prod_cases4)
  from core have "sourced s0 Q s1"
    by (cases rule: apply_core_cases) (use Cons.prems sourced_record in auto)
  with Cons core show ?case by (cases r1) auto
qed simp

lemma sourced_batch:
  assumes "apply_batch X batch S = (r, S')" "sourced s0 Q (sy_state S)" "fst ` set batch \<subseteq> Q"
  shows "sourced s0 Q (sy_state S')"
proof (cases "batch = []")
  case False
  obtain r1 s1 fs1 cp where loop: "apply_remote_loop batch [] (sy_state S) (sy_fs S) [] = (r1, s1, fs1, cp)"
    by (metis prod_cases4)
  from sourced_loop [OF this assms(2,3)] have "sourced s0 Q s1" .
  moreover have "sy_state S' = s1 \<or> (\<exists>cp. sy_state S' = update_trees X cp s1)"
    using assms(1) False loop
    by (auto simp: apply_batch_def apply_remote_entries_def Let_def split: sum.splits if_splits prod.splits)
  moreover have "sourced s0 Q (update_trees X cp s1) = sourced s0 Q s1" for cp by (simp add: sourced_def)
  ultimately show ?thesis by metis
qed (use assms in \<open>simp add: apply_batch_def\<close>)

lemma fetch_all_keeps: "fetch_all X pid P xs S = (r, S') \<Longrightarrow> sy_state S' = sy_state S"
proof (induction xs arbitrary: S r)
  case (Cons x xs)
  have "sy_state (snd (fetch_object_once X pid P h z e S)) = sy_state S" for h z e
    by (auto simp: fetch_object_once_def Let_def split: prod.splits sum.splits)
  from this [of "snd x" "e_size (fst x)" "fst x"] Cons show ?case by (auto split: prod.splits sum.splits)
qed simp

lemma select_entries_offered:
  "select_entries H s p ln all xs = Inr sel \<Longrightarrow> e \<in> set sel \<Longrightarrow> \<exists>k. fmlookup all k = Some e"
  by (induction xs arbitrary: sel) (auto simp: and_then_def split: if_splits option.splits sum.splits)

lemma sourced_entries:
  assumes "reconcile_entries X pid P p ln n S = (r, S')" "sourced s0 Q (sy_state S)"
    and offers: "\<And>p es. rp_entries P p = Inr es \<Longrightarrow> set es \<subseteq> Q"
  shows "sourced s0 Q (sy_state S')"
proof (cases "rp_entries P p")
  case (Inr es)
  define all where "all = fm_collect (map (\<lambda>e. (e_path e, e)) es)"
  have all: "e \<in> Q" if "fmlookup all k = Some e" for k e
    using that fm_collect_in [of "map (\<lambda>e. (e_path e, e)) es" k e] offers [OF Inr] by (auto simp: all_def)
  show ?thesis
  proof (cases "and_then (select_entries (blake3 X) (sy_state S) p ln all (fm_iter (tn_entries n))) split_batch")
    case (Inl e)
    then show ?thesis using assms(1,2) Inr by (simp add: reconcile_entries_def all_def Let_def)
  next
    case split: (Inr b)
    obtain ns fl where b: "b = (ns, fl)" by fastforce
    obtain sel where sel: "select_entries (blake3 X) (sy_state S) p ln all (fm_iter (tn_entries n)) = Inr sel"
      "split_batch sel = Inr (ns, fl)"
      using split b by (auto simp: and_then_def split: sum.splits)
    have Q: "fst ` set ns \<subseteq> Q" "fst ` set fl \<subseteq> Q"
      using split_batch_result [OF sel(2)] select_entries_offered [OF sel(1)] all unfolding set_append set_map by blast+
    obtain r1 S1 where a1: "apply_batch X ns S = (r1, S1)" by fastforce
    note s1 = sourced_batch [OF a1 assms(2) Q(1)]
    obtain r2 S2 where f: "fetch_all X pid P fl S1 = (r2, S2)" by fastforce
    have s2: "sourced s0 Q (sy_state S2)" using fetch_all_keeps [OF f] s1 by simp
    have fb: "fst ` set fb \<subseteq> Q" if "r2 = Inr fb" for fb
      using fetch_all_batch [OF f [unfolded that]] Q(2) by (metis set_map)
    show ?thesis
      using assms(1) Inr split b a1 s1 f s2 fb sourced_batch [of X _ S2 _ _ s0 Q]
      by (auto simp: reconcile_entries_def all_def Let_def split: sum.splits prod.splits)
  qed
qed (use assms in \<open>simp add: reconcile_entries_def\<close>)

lemma sourced_node:
  assumes "reconcile_node X pid P hints p h S = (r, S')" "sourced s0 Q (sy_state S)"
    and "\<And>p es. rp_entries P p = Inr es \<Longrightarrow> set es \<subseteq> Q"
  shows "sourced s0 Q (sy_state S')"
  using assms(1,2) sourced_entries [OF _ assms(2,3)]
  by (auto simp: reconcile_node_def Let_def split: if_splits sum.splits prod.splits)

lemma sourced_reconcile_loop:
  assumes "reconcile_loop X pid P hints stack changes S = Some y" "sourced s0 Q (sy_state S)"
    and "\<And>p es. rp_entries P p = Inr es \<Longrightarrow> set es \<subseteq> Q"
  shows "sourced s0 Q (sy_state (snd y))"
proof -
  let ?I = "\<lambda>((((((X, pid), P), hints), stack), changes), S) y. (\<forall>p es. rp_entries P p = Inr es \<longrightarrow> set es \<subseteq> Q) \<longrightarrow>
      sourced s0 Q (sy_state S) \<longrightarrow> sourced s0 Q (sy_state (snd y))"
  have "?I ((((((X, pid), P), hints), stack), changes), S) y"
  proof (rule reconcile_loop.raw_induct [OF _ assms(1)])
    fix loop X pid P hints stack changes S y
    assume ih: "\<And>X pid P hints stack changes S y. loop X pid P hints stack changes S = Some y \<Longrightarrow>
        ?I ((((((X, pid), P), hints), stack), changes), S) y"
      and y: "(case stack of [] \<Rightarrow> Some (Inr changes, S)
        | x # rest \<Rightarrow> (case reconcile_node X pid P hints (fst x) (snd x) S of
             (Inl e, S1) \<Rightarrow> Some (Inl e, S1)
           | (Inr (ch, pushed), S1) \<Rightarrow> loop X pid P hints (rev pushed @ rest) (changes @ ch) S1)) = Some y"
    show "?I ((((((X, pid), P), hints), stack), changes), S) y"
      using y ih sourced_node [of X pid P hints _ _ S _ _ s0 Q]
      by (auto split: list.splits prod.splits sum.splits)
  qed
  with assms(2,3) show ?thesis by auto
qed

lemma sourced_walk:
  assumes "reconcile_walk X pid P remote S = Some (r, S')" "honest P R" "wf_index (fo_entries R)"
  shows "sourced (sy_state S) (set (fm_values (fo_entries R))) (sy_state S')"
proof -
  have "set es \<subseteq> set (fm_values (fo_entries R))" if "rp_entries P p = Inr es" for p es
    using that assms(2) by (auto simp: honest_def entries_at_def in_map_filter state_entry_def in_fm_values Let_def
        split: option.splits)
  with assms(1) sourced_reconcile_loop [OF _ sourced_refl] show ?thesis
    by (fastforce simp: reconcile_walk_def sourced_refl split: if_splits)
qed

section \<open>Both directions\<close>

text \<open>One node takes over what another has: a walk without an error against a peer that answers from
  its state \<open>R\<close> and does not change meanwhile.\<close>

definition pulls :: "lib \<Rightarrow> peer_rpc \<Rightarrow> folder_state \<Rightarrow> sync_state \<Rightarrow> sync_state \<Rightarrow> bool" where
  "pulls X P R S S' \<longleftrightarrow>
     remote_ok X R \<and> honest P R \<and> local_ok X (sy_state S) \<and> tree_rooted (sy_state S) \<and>
     (\<exists>pid remote L ch. rr_state_root remote = root_hash R \<and> typed_hint remote \<and> lamports_within L (fo_entries R) \<and>
        sync_room (sy_state S) L (card (fmdom' (fo_entries R))) \<and> reconcile_walk X pid P remote S = Some (Inr ch, S'))"

lemma pullsD:
  assumes "pulls X P R S S'"
  shows "fmlookup (fo_entries R) k = Some e \<Longrightarrow> covered (sy_state S') e"
    and "fo_gc_watermark (sy_state S') = fo_gc_watermark (sy_state S)"
    and "sourced (sy_state S) (set (fm_values (fo_entries R))) (sy_state S')"
    and "wf_index (fo_entries R)"
proof -
  obtain pid remote L ch where p: "remote_ok X R" "honest P R" "rr_state_root remote = root_hash R" "typed_hint remote"
      "local_ok X (sy_state S)" "tree_rooted (sy_state S)" "lamports_within L (fo_entries R)"
      "sync_room (sy_state S) L (card (fmdom' (fo_entries R)))" "reconcile_walk X pid P remote S = Some (Inr ch, S')"
    using assms unfolding pulls_def by blast
  note w = walk_covers [OF p]
  show wf: "wf_index (fo_entries R)" by (rule remote_okD(1) [OF p(1)])
  show "fmlookup (fo_entries R) k = Some e \<Longrightarrow> covered (sy_state S') e" using w by (auto dest: fmpredD)
  show "fo_gc_watermark (sy_state S') = fo_gc_watermark (sy_state S)" using w by (simp add: advances_def)
  show "sourced (sy_state S) (set (fm_values (fo_entries R))) (sy_state S')" by (rule sourced_walk [OF p(9,2) wf])
qed

text \<open>A tombstone under a watermark: deleted, and forgotten by the node with that watermark.\<close>

definition collected :: "folder_state \<Rightarrow> folder_state \<Rightarrow> entry \<Rightarrow> bool" where
  "collected a b e \<longleftrightarrow> e_kind e = Tombstone \<and> (is_version_gced a (e_version e) \<or> is_version_gced b (e_version e))"

text \<open>
  C6. Two nodes that pull from each other, one after the other, agree: afterwards they have the
  same entry at every path. The exceptions are deletions: a tombstone the second node wrote itself
  because an entry replaced a directory, and tombstones that one of them has already collected. Versions
  identify entries: this is the only thing asked of the two indexes together.
\<close>

theorem two_way_sync_agrees:
  assumes "pulls X PB (sy_state B) A A'" "pulls X PA (sy_state A') B B'"
    and "\<And>k a b. fmlookup (fo_entries (sy_state A')) k = Some a \<Longrightarrow> fmlookup (fo_entries (sy_state B)) k = Some b \<Longrightarrow>
      e_version a = e_version b \<Longrightarrow> a = b"
  shows "fmlookup (fo_entries (sy_state B')) k = fmlookup (fo_entries (sy_state A')) k \<or>
    (\<exists>e. fmlookup (fo_entries (sy_state B')) k = Some e \<and> fmlookup (fo_entries (sy_state B)) k \<noteq> Some e \<and>
       e_kind e = Tombstone \<and> v_origin (e_version e) = fo_origin (sy_state B)) \<or>
    (\<exists>e. (fmlookup (fo_entries (sy_state A')) k = Some e \<or> fmlookup (fo_entries (sy_state B')) k = Some e) \<and>
       collected (sy_state A) (sy_state B) e)"
proof -
  let ?a = "fmlookup (fo_entries (sy_state A')) k" and ?b = "fmlookup (fo_entries (sy_state B)) k"
    and ?b' = "fmlookup (fo_entries (sy_state B')) k"
  note one = pullsD [OF assms(1)] and two = pullsD [OF assms(2)]
  have up: "(\<exists>f. ?b' = Some f \<and> e_version e \<le> e_version f) \<or> collected (sy_state A) (sy_state B) e" if "?a = Some e" for e
    using two(1) [OF that] wf_indexD [OF two(4) that] two(2)
    by (auto simp: covered_def collected_def is_version_gced_def split: option.splits)
  have down: "(\<exists>f. ?a = Some f \<and> e_version e \<le> e_version f) \<or> collected (sy_state A) (sy_state B) e" if "?b = Some e" for e
    using one(1) [OF that] wf_indexD [OF one(4) that] one(2)
    by (auto simp: covered_def collected_def is_version_gced_def split: option.splits)
  have from_a: "?a = Some e" if "e \<in> set (fm_values (fo_entries (sy_state A')))" "e_path e = k" for e
    using that wf_indexD [OF two(4)] by (auto simp: in_fm_values)
  show ?thesis
  proof (cases ?b')
    case None
    with up show ?thesis by (cases ?a) auto
  next
    case (Some e)
    then consider "?b = Some e" | "?a = Some e" | "?b \<noteq> Some e" "e_kind e = Tombstone" "v_origin (e_version e) = fo_origin (sy_state B)"
      using two(3) from_a unfolding sourced_def by blast
    then show ?thesis
    proof cases
      case 1
      from down [OF 1] show ?thesis
      proof
        assume "\<exists>f. ?a = Some f \<and> e_version e \<le> e_version f"
        then obtain f where f: "?a = Some f" "e_version e \<le> e_version f" by blast
        from up [OF f(1)] f Some have "e_version f \<le> e_version e \<or> collected (sy_state A) (sy_state B) f" by auto
        then show ?thesis using f Some 1 assms(3) [OF f(1) 1] by (metis order_antisym)
      qed (use Some in blast)
    qed (use Some in auto)
  qed
qed

section \<open>An instance\<close>

text \<open>A node with one file and an empty one: the first finds nothing to take, the second gets the file.\<close>

definition one_start :: sync_state where
  "one_start = sync_start\<lparr>sy_state := sv_state sync_server, sy_fs := sv_fs sync_server\<rparr>"

definition empty_server :: server where
  "empty_server = sync_server\<lparr>sv_state := sy_state sync_start\<rparr>"

definition empty_peer :: peer_rpc where
  "empty_peer = served_peer ex_json sync_lib 50 [] (ex_node 2) (V4 [10, 0, 0, 1]) empty_server"

definition empty_root_of :: remote_root where
  "empty_root_of = sync_root\<lparr>rr_state_root := root_hash (sy_state sync_start), rr_hint := None\<rparr>"

lemma empty_remote_ok: "remote_ok sync_lib (sy_state sync_start)"
proof -
  have "let s = at_index fmempty in
      wf_index (fo_entries s) \<and> typed_index (fo_entries s) \<and>
      fmpred (\<lambda>k _. validate_remote_path k = Inr ()) (fo_entries s) \<and>
      fmpred (\<lambda>p _. clean_prefix p) (ts_nodes (fo_tree s)) \<and> tree_rooted s" by code_simp
  then show ?thesis
    using table_indexes(4) derived_merkle [of table_hash "fmempty :: index"]
    by (auto simp: remote_ok_def sync_start_def sync_lib_def at_index_def tree_rooted_def covers_def Let_def split: option.splits)
qed

lemma one_local_ok: "local_ok sync_lib (sy_state one_start)"
proof -
  have "replica_ok (at_index one_index) \<and> typed_index (fo_entries (at_index one_index))" by code_simp
  then show ?thesis
    using derived_merkle [of table_hash one_index]
    by (simp add: local_ok_def one_start_def sync_server_def sync_lib_def at_index_def)
qed

lemma one_pulls: "pulls sync_lib empty_peer (sy_state sync_start) one_start one_start"
proof -
  have "honest empty_peer (sv_state empty_server)" unfolding empty_peer_def by (rule served_peer_honest) code_simp
  then have h: "honest empty_peer (sy_state sync_start)" by (simp add: empty_server_def)
  have "case state_node (sy_state sync_start) [] of None \<Rightarrow> False
      | Some n \<Rightarrow> tn_hash n = root_hash (sy_state sync_start) \<and> tn_entries n = fmempty \<and> tn_children n = fmempty" by code_simp
  then obtain n where n: "state_node (sy_state sync_start) [] = Some n" "tn_hash n = root_hash (sy_state sync_start)"
    "tn_entries n = fmempty" "tn_children n = fmempty" by (auto split: option.splits)
  have "reconcile_node sync_lib 7 empty_peer fmempty [] (root_hash (sy_state sync_start)) one_start = (Inr ([], []), one_start)"
    using h n by (auto simp: reconcile_node_def reconcile_entries_def honest_def hinted_get_def and_then_def apply_batch_def
        queue_changed_children_def Let_def split: option.splits)
  then have same: "reconcile_walk sync_lib 7 empty_peer empty_root_of one_start = Some (Inr [], one_start)"
    by (simp add: reconcile_walk_def empty_root_of_def reconcile_loop.simps)
  have c: "tree_rooted (sy_state one_start)"
    using sync_server_remote_ok by (auto simp: remote_ok_def tree_rooted_def one_start_def)
  have "word_room 9 (live_count one_index)" by code_simp
  then have room: "sync_room (sy_state one_start) 9 0"
    by (simp add: sync_room_def batch_room_def one_start_def sync_server_def at_index_def)
  have l: "lamports_within 9 (fo_entries (sy_state sync_start))" "typed_hint empty_root_of"
    by (simp_all add: lamports_within_def sync_start_def at_index_def typed_hint_def empty_root_of_def)
  have "card (fmdom' (fo_entries (sy_state sync_start))) = 0" by (simp add: sync_start_def at_index_def)
  moreover have "rr_state_root empty_root_of = root_hash (sy_state sync_start)" by (simp add: empty_root_of_def)
  ultimately show ?thesis
    unfolding pulls_def using empty_remote_ok h one_local_ok c room l same by metis
qed

theorem two_way_sync_agrees_witness:
  "case reconcile_walk sync_lib 7 sync_peer sync_root sync_start of
     Some (Inr ch, S') \<Rightarrow> fmlookup (fo_entries (sy_state S')) ''a'' = fmlookup (fo_entries (sy_state one_start)) ''a'' \<and>
       fmlookup (fo_entries (sy_state one_start)) ''a'' \<noteq> None
   | _ \<Rightarrow> False"
proof -
  obtain ch S' where w: "reconcile_walk sync_lib 7 sync_peer sync_root sync_start = Some (Inr ch, S')"
    and live: "map e_kind (fm_values (fo_entries (sy_state S'))) = [File]"
    using sync_walk_runs by (auto split: option.splits prod.splits sum.splits)
  have "pulls sync_lib sync_peer (sv_state sync_server) sync_start S'"
    unfolding pulls_def using sync_server_remote_ok sync_peer_honest sync_start_local_ok sync_ready w by metis
  then have two: "pulls sync_lib sync_peer (sy_state one_start) sync_start S'" by (simp add: one_start_def)
  have "fo_entries (sy_state sync_start) = fmempty" by (simp add: sync_start_def at_index_def)
  moreover have a: "fmlookup (fo_entries (sy_state one_start)) ''a'' = Some one_entry" "e_kind one_entry = File"
    by (simp_all add: one_start_def sync_server_def at_index_def one_index_def one_entry_def ex_entry_def)
  moreover have "e_kind e = File" if "fmlookup (fo_entries (sy_state S')) ''a'' = Some e" for e
  proof -
    have "e_kind e \<in> set (map e_kind (fm_values (fo_entries (sy_state S'))))" using that in_fm_values by (metis image_eqI set_map)
    then show ?thesis unfolding live by simp
  qed
  ultimately have "fmlookup (fo_entries (sy_state S')) ''a'' = fmlookup (fo_entries (sy_state one_start)) ''a''"
    using two_way_sync_agrees [OF one_pulls two, of "''a''"] by (auto simp: collected_def)
  with w a show ?thesis by simp
qed

end
