(* ===== verification/Lil_Downloads.thy ===== *)
theory Lil_Downloads
  imports Lil_Entries "HOL-Library.Finite_Map"
begin

text \<open>
  \<open>DownloadCoordinator\<close> and the concurrent part of \<open>fetch_object_once\<close>, \<open>src/sync.rs\<close>. Tasks that
  want the same object share one download: the first to ask is the leader and receives the file,
  the others wait for it, every task that claims its target makes its own copy, and the last one
  to leave removes the shared file. Each critical section under the two mutexes is one atomic
  step, and the steps of the tasks interleave freely; between two steps a task is at one of the
  points of its program counter. A task may be aborted where the source awaits, which is what
  happens to the others when a \<open>JoinSet\<close> is dropped after a first error.

  A slot behind an \<open>Arc\<close> is a number, and pointer equality is equality of numbers. A received file
  is named by the value of the counter in its name (\<open>tmp_recv_path\<close>), drawn here when the file
  appears.
\<close>

section \<open>The coordinator\<close>

record download_target =
  dt_path :: string
  dt_lamport :: u64
  dt_origin :: string

definition target_from_entry :: "entry \<Rightarrow> download_target" where
  "target_from_entry e =
     \<lparr>dt_path = e_path e, dt_lamport = v_lamport (e_version e), dt_origin = v_origin (e_version e)\<rparr>"

record download_state =
  ds_waiters :: nat
  ds_claimed :: "download_target fset"
  ds_result :: "(string + nat) option"

record coordinator =
  co_active :: "(hash32, nat) fmap"
  co_slots :: "nat \<Rightarrow> download_state"
  co_next :: nat

definition set_slot :: "nat \<Rightarrow> download_state \<Rightarrow> coordinator \<Rightarrow> coordinator" where
  "set_slot i st C = C\<lparr>co_slots := (co_slots C)(i := st)\<rparr>"

definition acquire :: "hash32 \<Rightarrow> coordinator \<Rightarrow> nat \<times> bool \<times> coordinator" where
  "acquire h C =
     (case fmlookup (co_active C) h of
        Some i \<Rightarrow> (i, False, set_slot i ((co_slots C i)\<lparr>ds_waiters := ds_waiters (co_slots C i) + 1\<rparr>) C)
      | None \<Rightarrow>
          let i = co_next C;
              C1 = set_slot i \<lparr>ds_waiters = 1, ds_claimed = {||}, ds_result = None\<rparr> C
          in (i, True, C1\<lparr>co_active := fmupd h i (co_active C1), co_next := i + 1\<rparr>))"

definition claim_target :: "nat \<Rightarrow> entry \<Rightarrow> coordinator \<Rightarrow> bool \<times> coordinator" where
  "claim_target i e C =
     (let st = co_slots C i; t = target_from_entry e
      in (t |\<notin>| ds_claimed st, set_slot i (st\<lparr>ds_claimed := finsert t (ds_claimed st)\<rparr>) C))"

definition release :: "hash32 \<Rightarrow> nat \<Rightarrow> coordinator \<Rightarrow> nat option \<times> coordinator" where
  "release h i C =
     (let st = (co_slots C i)\<lparr>ds_waiters := ds_waiters (co_slots C i) - 1\<rparr>;
          C1 = set_slot i st C
      in if ds_waiters st \<noteq> 0 then (None, C1)
         else let shared_tmp = (case ds_result st of Some (Inr p) \<Rightarrow> Some p | _ \<Rightarrow> None)
              in if fmlookup (co_active C1) h = Some i
                 then (shared_tmp, C1\<lparr>co_active := fmdrop h (co_active C1)\<rparr>)
                 else (None, C1))"

section \<open>Tasks\<close>

datatype outcome = Failed string | Skipped | Fetched nat

datatype task_point =
    Ready
  | Fetching nat
  | Announcing nat
  | Checking nat
  | Unnotified nat
  | Waiting nat
  | Woken nat
  | Got nat nat
  | Copying nat nat
  | Leaving nat outcome
  | Removing nat outcome
  | Finished outcome
  | Aborted

record dl_task =
  dl_hash :: hash32
  dl_entry :: entry
  dl_point :: task_point

record dl_world =
  dw_coord :: coordinator
  dw_tasks :: "dl_task list"
  dw_files :: "nat fset"
  dw_recv :: nat

definition goto :: "nat \<Rightarrow> task_point \<Rightarrow> dl_world \<Rightarrow> dl_world" where
  "goto k pt W = W\<lparr>dw_tasks := (dw_tasks W)[k := (dw_tasks W ! k)\<lparr>dl_point := pt\<rparr>]\<rparr>"

definition wake :: "nat \<Rightarrow> dl_task \<Rightarrow> dl_task" where
  "wake i t = (if dl_point t = Waiting i then t\<lparr>dl_point := Woken i\<rparr> else t)"

definition set_result :: "nat \<Rightarrow> string + nat \<Rightarrow> coordinator \<Rightarrow> coordinator" where
  "set_result i r C = set_slot i ((co_slots C i)\<lparr>ds_result := Some r\<rparr>) C"

fun await_point :: "task_point \<Rightarrow> bool" where
  "await_point Ready \<longleftrightarrow> True"
| "await_point (Fetching _) \<longleftrightarrow> True"
| "await_point (Waiting _) \<longleftrightarrow> True"
| "await_point (Woken _) \<longleftrightarrow> True"
| "await_point (Copying _ _) \<longleftrightarrow> True"
| "await_point (Removing _ _) \<longleftrightarrow> True"
| "await_point _ \<longleftrightarrow> False"

abbreviation point :: "dl_world \<Rightarrow> nat \<Rightarrow> task_point" where
  "point W k \<equiv> dl_point (dw_tasks W ! k)"

text \<open>One step of one task; the flag says whether tasks may be aborted.\<close>

inductive dl_step :: "bool \<Rightarrow> dl_world \<Rightarrow> dl_world \<Rightarrow> bool" for ab where
  lead: "k < length (dw_tasks W) \<Longrightarrow> point W k = Ready \<Longrightarrow> acquire (dl_hash (dw_tasks W ! k)) (dw_coord W) = (i, True, C) \<Longrightarrow>
    dl_step ab W (goto k (Fetching i) (W\<lparr>dw_coord := C\<rparr>))"
| join: "k < length (dw_tasks W) \<Longrightarrow> point W k = Ready \<Longrightarrow> acquire (dl_hash (dw_tasks W ! k)) (dw_coord W) = (i, False, C) \<Longrightarrow>
    dl_step ab W (goto k (Checking i) (W\<lparr>dw_coord := C\<rparr>))"
| received: "k < length (dw_tasks W) \<Longrightarrow> point W k = Fetching i \<Longrightarrow>
    dl_step ab W (goto k (Announcing i) (W\<lparr>dw_coord := set_result i (Inr (dw_recv W)) (dw_coord W),
      dw_files := finsert (dw_recv W) (dw_files W), dw_recv := dw_recv W + 1\<rparr>))"
| failed: "k < length (dw_tasks W) \<Longrightarrow> point W k = Fetching i \<Longrightarrow>
    dl_step ab W (goto k (Announcing i) (W\<lparr>dw_coord := set_result i (Inl err) (dw_coord W)\<rparr>))"
| notify: "k < length (dw_tasks W) \<Longrightarrow> point W k = Announcing i \<Longrightarrow>
    dl_step ab W (goto k (Checking i) (W\<lparr>dw_tasks := map (wake i) (dw_tasks W)\<rparr>))"
| found: "k < length (dw_tasks W) \<Longrightarrow> point W k = Checking i \<Longrightarrow> ds_result (co_slots (dw_coord W) i) = Some (Inr p) \<Longrightarrow>
    dl_step ab W (goto k (Got i p) W)"
| refused: "k < length (dw_tasks W) \<Longrightarrow> point W k = Checking i \<Longrightarrow> ds_result (co_slots (dw_coord W) i) = Some (Inl err) \<Longrightarrow>
    dl_step ab W (goto k (Leaving i (Failed err)) W)"
| pending: "k < length (dw_tasks W) \<Longrightarrow> point W k = Checking i \<Longrightarrow> ds_result (co_slots (dw_coord W) i) = None \<Longrightarrow>
    dl_step ab W (goto k (Unnotified i) W)"
| sleep: "k < length (dw_tasks W) \<Longrightarrow> point W k = Unnotified i \<Longrightarrow> dl_step ab W (goto k (Waiting i) W)"
| resume: "k < length (dw_tasks W) \<Longrightarrow> point W k = Woken i \<Longrightarrow> dl_step ab W (goto k (Checking i) W)"
| claim: "k < length (dw_tasks W) \<Longrightarrow> point W k = Got i p \<Longrightarrow>
    claim_target i (dl_entry (dw_tasks W ! k)) (dw_coord W) = (b, C) \<Longrightarrow>
    dl_step ab W (goto k (if b then Copying i p else Leaving i Skipped) (W\<lparr>dw_coord := C\<rparr>))"
| copied: "k < length (dw_tasks W) \<Longrightarrow> point W k = Copying i p \<Longrightarrow> p |\<in>| dw_files W \<Longrightarrow>
    dl_step ab W (goto k (Leaving i (Fetched (dw_recv W)))
      (W\<lparr>dw_files := finsert (dw_recv W) (dw_files W), dw_recv := dw_recv W + 1\<rparr>))"
| uncopied: "k < length (dw_tasks W) \<Longrightarrow> point W k = Copying i p \<Longrightarrow>
    dl_step ab W (goto k (Leaving i (Failed err)) (W\<lparr>dw_recv := dw_recv W + 1\<rparr>))"
| leave: "k < length (dw_tasks W) \<Longrightarrow> point W k = Leaving i out \<Longrightarrow>
    release (dl_hash (dw_tasks W ! k)) i (dw_coord W) = (r, C) \<Longrightarrow>
    dl_step ab W (goto k (case r of Some p \<Rightarrow> Removing p out | None \<Rightarrow> Finished out) (W\<lparr>dw_coord := C\<rparr>))"
| remove: "k < length (dw_tasks W) \<Longrightarrow> point W k = Removing p out \<Longrightarrow>
    dl_step ab W (goto k (Finished out) (W\<lparr>dw_files := dw_files W |-| {|p|}\<rparr>))"
| abort: "ab \<Longrightarrow> k < length (dw_tasks W) \<Longrightarrow> await_point (point W k) \<Longrightarrow> dl_step ab W (goto k Aborted W)"

definition dl_start :: "(hash32 \<times> entry) list \<Rightarrow> dl_world" where
  "dl_start ts =
     \<lparr>dw_coord = \<lparr>co_active = fmempty, co_slots = (\<lambda>_. \<lparr>ds_waiters = 0, ds_claimed = {||}, ds_result = None\<rparr>), co_next = 0\<rparr>,
      dw_tasks = map (\<lambda>(h, e). \<lparr>dl_hash = h, dl_entry = e, dl_point = Ready\<rparr>) ts, dw_files = {||}, dw_recv = 0\<rparr>"

definition dl_reachable :: "bool \<Rightarrow> dl_world \<Rightarrow> bool" where
  "dl_reachable ab W \<longleftrightarrow> (\<exists>ts. (dl_step ab)\<^sup>*\<^sup>* (dl_start ts) W)"

section \<open>The invariant\<close>

fun holds :: "nat \<Rightarrow> task_point \<Rightarrow> bool" where
  "holds i (Fetching j) \<longleftrightarrow> i = j"
| "holds i (Announcing j) \<longleftrightarrow> i = j"
| "holds i (Checking j) \<longleftrightarrow> i = j"
| "holds i (Unnotified j) \<longleftrightarrow> i = j"
| "holds i (Waiting j) \<longleftrightarrow> i = j"
| "holds i (Woken j) \<longleftrightarrow> i = j"
| "holds i (Got j _) \<longleftrightarrow> i = j"
| "holds i (Copying j _) \<longleftrightarrow> i = j"
| "holds i (Leaving j _) \<longleftrightarrow> i = j"
| "holds i _ \<longleftrightarrow> False"

definition holders :: "dl_world \<Rightarrow> nat \<Rightarrow> nat set" where
  "holders W i = {k. k < length (dw_tasks W) \<and> holds i (point W k)}"

text \<open>What the point of a task says about the coordinator.\<close>

fun point_ok :: "coordinator \<Rightarrow> nat \<Rightarrow> entry \<Rightarrow> task_point \<Rightarrow> bool" where
  "point_ok C recv e (Fetching i) \<longleftrightarrow> ds_result (co_slots C i) = None"
| "point_ok C recv e (Got i p) \<longleftrightarrow> ds_result (co_slots C i) = Some (Inr p)"
| "point_ok C recv e (Copying i p) \<longleftrightarrow>
     ds_result (co_slots C i) = Some (Inr p) \<and> target_from_entry e |\<in>| ds_claimed (co_slots C i)"
| "point_ok C recv e (Removing p _) \<longleftrightarrow>
     p < recv \<and> (\<forall>h i. fmlookup (co_active C) h = Some i \<longrightarrow> ds_result (co_slots C i) \<noteq> Some (Inr p))"
| "point_ok C recv e _ \<longleftrightarrow> True"

definition coord_ok :: "bool \<Rightarrow> dl_world \<Rightarrow> bool" where
  "coord_ok ab W \<longleftrightarrow>
     (\<forall>h i. fmlookup (co_active (dw_coord W)) h = Some i \<longrightarrow>
        i < co_next (dw_coord W) \<and> 0 < ds_waiters (co_slots (dw_coord W) i) \<and>
        card (holders W i) \<le> ds_waiters (co_slots (dw_coord W) i) \<and>
        (\<not> ab \<longrightarrow> card (holders W i) = ds_waiters (co_slots (dw_coord W) i)) \<and>
        (\<forall>g. fmlookup (co_active (dw_coord W)) g = Some i \<longrightarrow> g = h) \<and>
        (\<forall>p. ds_result (co_slots (dw_coord W) i) = Some (Inr p) \<longrightarrow> p |\<in>| dw_files W \<and> p < dw_recv W) \<and>
        (\<forall>g j p. fmlookup (co_active (dw_coord W)) g = Some j \<longrightarrow> ds_result (co_slots (dw_coord W) i) = Some (Inr p) \<longrightarrow>
           ds_result (co_slots (dw_coord W) j) = Some (Inr p) \<longrightarrow> i = j))"

definition tasks_ok :: "dl_world \<Rightarrow> bool" where
  "tasks_ok W \<longleftrightarrow>
     (\<forall>k < length (dw_tasks W).
        (\<forall>i. holds i (point W k) \<longrightarrow> fmlookup (co_active (dw_coord W)) (dl_hash (dw_tasks W ! k)) = Some i) \<and>
        point_ok (dw_coord W) (dw_recv W) (dl_entry (dw_tasks W ! k)) (point W k) \<and>
        (\<forall>l < length (dw_tasks W). \<forall>i. point W k = Fetching i \<longrightarrow> point W l = Fetching i \<longrightarrow> k = l) \<and>
        (\<forall>l < length (dw_tasks W). \<forall>i p q. point W k = Copying i p \<longrightarrow> point W l = Copying i q \<longrightarrow>
           target_from_entry (dl_entry (dw_tasks W ! k)) = target_from_entry (dl_entry (dw_tasks W ! l)) \<longrightarrow> k = l))"

definition dl_inv :: "bool \<Rightarrow> dl_world \<Rightarrow> bool" where
  "dl_inv ab W \<longleftrightarrow> coord_ok ab W \<and> tasks_ok W"

lemma dl_invD:
  assumes "dl_inv ab W" "fmlookup (co_active (dw_coord W)) h = Some i"
  shows "i < co_next (dw_coord W)" "0 < ds_waiters (co_slots (dw_coord W) i)"
    "card (holders W i) \<le> ds_waiters (co_slots (dw_coord W) i)"
    "\<not> ab \<Longrightarrow> card (holders W i) = ds_waiters (co_slots (dw_coord W) i)"
    "fmlookup (co_active (dw_coord W)) g = Some i \<Longrightarrow> g = h"
    "ds_result (co_slots (dw_coord W) i) = Some (Inr p) \<Longrightarrow> p |\<in>| dw_files W"
    "ds_result (co_slots (dw_coord W) i) = Some (Inr p) \<Longrightarrow> p < dw_recv W"
    "fmlookup (co_active (dw_coord W)) g = Some j \<Longrightarrow> ds_result (co_slots (dw_coord W) i) = Some (Inr p) \<Longrightarrow>
      ds_result (co_slots (dw_coord W) j) = Some (Inr p) \<Longrightarrow> i = j"
  using assms unfolding dl_inv_def coord_ok_def by blast+

lemma dl_taskD:
  assumes "dl_inv ab W" "k < length (dw_tasks W)"
  shows "holds i (point W k) \<Longrightarrow> fmlookup (co_active (dw_coord W)) (dl_hash (dw_tasks W ! k)) = Some i"
    "point_ok (dw_coord W) (dw_recv W) (dl_entry (dw_tasks W ! k)) (point W k)"
    "point W k = Fetching i \<Longrightarrow> l < length (dw_tasks W) \<Longrightarrow> point W l = Fetching i \<Longrightarrow> k = l"
    "point W k = Copying i p \<Longrightarrow> l < length (dw_tasks W) \<Longrightarrow> point W l = Copying i q \<Longrightarrow>
      target_from_entry (dl_entry (dw_tasks W ! k)) = target_from_entry (dl_entry (dw_tasks W ! l)) \<Longrightarrow> k = l"
  using assms unfolding dl_inv_def tasks_ok_def by blast+

lemma goto_simps [simp]:
  "dw_coord (goto k pt W) = dw_coord W" "dw_files (goto k pt W) = dw_files W" "dw_recv (goto k pt W) = dw_recv W"
  "length (dw_tasks (goto k pt W)) = length (dw_tasks W)"
  by (simp_all add: goto_def)

lemma goto_task:
  "k < length (dw_tasks W) \<Longrightarrow>
     dw_tasks (goto k pt W) ! j = (if j = k then (dw_tasks W ! k)\<lparr>dl_point := pt\<rparr> else dw_tasks W ! j)"
  by (simp add: goto_def)

lemma goto_task_simps [simp]:
  assumes "k < length (dw_tasks W)"
  shows "dl_hash (dw_tasks (goto k pt W) ! j) = dl_hash (dw_tasks W ! j)"
  "dl_entry (dw_tasks (goto k pt W) ! j) = dl_entry (dw_tasks W ! j)"
  "point (goto k pt W) j = (if j = k then pt else point W j)"
  using assms by (simp_all add: goto_task)

lemma finite_holders [simp]: "finite (holders W i)"
  by (simp add: holders_def)

lemma holders_goto:
  "k < length (dw_tasks W) \<Longrightarrow>
     holders (goto k pt W) i = (if holds i pt then insert k (holders W i) else holders W i - {k})"
  by (auto simp: holders_def)

lemma holders_cong [simp]:
  "holders (W\<lparr>dw_coord := C\<rparr>) i = holders W i" "holders (W\<lparr>dw_files := F\<rparr>) i = holders W i"
  "holders (W\<lparr>dw_recv := n\<rparr>) i = holders W i"
  by (simp_all add: holders_def)

lemma point_ok_later:
  "point_ok C n e pt \<Longrightarrow> n \<le> m \<Longrightarrow> point_ok C m e pt"
  by (cases pt) auto

text \<open>Steps that leave the coordinator as it is.\<close>

lemma quiet_step:
  assumes inv: "dl_inv ab W" and C: "dw_coord W' = dw_coord W" and len: "length (dw_tasks W') = length (dw_tasks W)"
    and same: "\<And>j. j < length (dw_tasks W) \<Longrightarrow>
      dl_hash (dw_tasks W' ! j) = dl_hash (dw_tasks W ! j) \<and> dl_entry (dw_tasks W' ! j) = dl_entry (dw_tasks W ! j)"
    and files: "dw_files W |\<subseteq>| dw_files W'" "dw_recv W \<le> dw_recv W'"
    and hold: "\<And>i j. j < length (dw_tasks W) \<Longrightarrow> holds i (point W' j) \<Longrightarrow> holds i (point W j)"
      "\<And>i j. \<not> ab \<Longrightarrow> j < length (dw_tasks W) \<Longrightarrow> holds i (point W j) \<Longrightarrow> holds i (point W' j)"
    and ok: "\<And>j. j < length (dw_tasks W) \<Longrightarrow> point_ok (dw_coord W) (dw_recv W') (dl_entry (dw_tasks W ! j)) (point W' j)"
    and new: "\<And>j i. j < length (dw_tasks W) \<Longrightarrow> point W' j = Fetching i \<Longrightarrow> point W j = Fetching i"
      "\<And>j i p. j < length (dw_tasks W) \<Longrightarrow> point W' j = Copying i p \<Longrightarrow> point W j = Copying i p"
  shows "dl_inv ab W'"
proof -
  have sub: "holders W' i \<subseteq> holders W i" for i using hold(1) len by (auto simp: holders_def)
  have le: "card (holders W' i) \<le> card (holders W i)" for i by (rule card_mono) (simp_all add: sub)
  have eq: "holders W' i = holders W i" if "\<not> ab" for i using hold that len by (auto simp: holders_def)
  note D = dl_invD [OF inv] and T = dl_taskD [OF inv]
  have "coord_ok ab W'"
    unfolding coord_ok_def C
  proof (intro allI impI conjI)
    fix h i assume a: "fmlookup (co_active (dw_coord W)) h = Some i"
    show "card (holders W' i) \<le> ds_waiters (co_slots (dw_coord W) i)" using D(3) [OF a] le [of i] by linarith
    show "card (holders W' i) = ds_waiters (co_slots (dw_coord W) i)" if "\<not> ab" using D(4) [OF a that] eq [OF that] by simp
    show "p |\<in>| dw_files W'" if "ds_result (co_slots (dw_coord W) i) = Some (Inr p)" for p
      using D(6) [OF a that] files(1) by blast
    show "p < dw_recv W'" if "ds_result (co_slots (dw_coord W) i) = Some (Inr p)" for p
      using D(7) [OF a that] files(2) by linarith
    show "i < co_next (dw_coord W)" "0 < ds_waiters (co_slots (dw_coord W) i)" by (fact D(1) [OF a] D(2) [OF a])+
    show "g = h" if "fmlookup (co_active (dw_coord W)) g = Some i" for g by (rule D(5) [OF a that])
    show "i = j" if "fmlookup (co_active (dw_coord W)) g = Some j" "ds_result (co_slots (dw_coord W) i) = Some (Inr p)"
      "ds_result (co_slots (dw_coord W) j) = Some (Inr p)" for g j p by (rule D(8) [OF a that])
  qed
  moreover have "tasks_ok W'"
    unfolding tasks_ok_def C len
  proof (intro allI impI conjI)
    fix j assume j: "j < length (dw_tasks W)"
    show "fmlookup (co_active (dw_coord W)) (dl_hash (dw_tasks W' ! j)) = Some i" if "holds i (point W' j)" for i
      using T(1) [OF j hold(1) [OF j that]] same [OF j] by simp
    show "point_ok (dw_coord W) (dw_recv W') (dl_entry (dw_tasks W' ! j)) (point W' j)" using ok [OF j] same [OF j] by simp
    show "j = l" if "l < length (dw_tasks W)" "point W' j = Fetching i" "point W' l = Fetching i" for l i
      using T(3) [OF j new(1) [OF j that(2)] that(1) new(1) [OF that(1,3)]] .
    show "j = l" if "l < length (dw_tasks W)" "point W' j = Copying i p" "point W' l = Copying i q"
      "target_from_entry (dl_entry (dw_tasks W' ! j)) = target_from_entry (dl_entry (dw_tasks W' ! l))" for l i p q
      using T(4) [OF j new(2) [OF j that(2)] that(1) new(2) [OF that(1,3)]] that(4) same [OF j] same [OF that(1)] by simp
  qed
  ultimately show ?thesis by (simp add: dl_inv_def)
qed

lemma quiet_goto:
  assumes inv: "dl_inv ab W" and k: "k < length (dw_tasks W)"
    and C: "dw_coord W1 = dw_coord W" "dw_tasks W1 = dw_tasks W"
    and files: "dw_files W |\<subseteq>| dw_files W1" "dw_recv W \<le> dw_recv W1"
    and hold: "\<And>i. holds i pt \<Longrightarrow> holds i (point W k)" "\<And>i. \<not> ab \<Longrightarrow> holds i (point W k) \<Longrightarrow> holds i pt"
    and ok: "point_ok (dw_coord W) (dw_recv W1) (dl_entry (dw_tasks W ! k)) pt"
    and new: "\<And>i. pt \<noteq> Fetching i" "\<And>i p. pt \<noteq> Copying i p"
  shows "dl_inv ab (goto k pt W1)"
  by (rule quiet_step [OF inv])
     (use assms point_ok_later [OF dl_taskD(2) [OF inv] files(2)] in \<open>auto split: if_splits\<close>)

lemma set_slot_simps [simp]:
  "co_active (set_slot i st C) = co_active C" "co_next (set_slot i st C) = co_next C"
  "co_slots (set_slot i st C) j = (if j = i then st else co_slots C j)"
  by (simp_all add: set_slot_def)

text \<open>To establish the invariant after a step that moves task \<open>k\<close> and changes the coordinator.\<close>

lemma dl_invI:
  assumes k: "k < length (dw_tasks W)"
    and "\<And>h i. fmlookup (co_active C) h = Some i \<Longrightarrow>
        i < co_next C \<and> 0 < ds_waiters (co_slots C i) \<and>
        card (holders (goto k pt W) i) \<le> ds_waiters (co_slots C i) \<and>
        (\<not> ab \<longrightarrow> card (holders (goto k pt W) i) = ds_waiters (co_slots C i))"
    and "\<And>h g i. fmlookup (co_active C) h = Some i \<Longrightarrow> fmlookup (co_active C) g = Some i \<Longrightarrow> g = h"
    and "\<And>h i p. fmlookup (co_active C) h = Some i \<Longrightarrow> ds_result (co_slots C i) = Some (Inr p) \<Longrightarrow> p |\<in>| F \<and> p < n"
    and "\<And>h g i j p. fmlookup (co_active C) h = Some i \<Longrightarrow> fmlookup (co_active C) g = Some j \<Longrightarrow>
        ds_result (co_slots C i) = Some (Inr p) \<Longrightarrow> ds_result (co_slots C j) = Some (Inr p) \<Longrightarrow> i = j"
    and "\<And>i. holds i pt \<Longrightarrow> fmlookup (co_active C) (dl_hash (dw_tasks W ! k)) = Some i"
    and "\<And>l i. l < length (dw_tasks W) \<Longrightarrow> l \<noteq> k \<Longrightarrow> holds i (point W l) \<Longrightarrow>
        fmlookup (co_active C) (dl_hash (dw_tasks W ! l)) = Some i"
    and "point_ok C n (dl_entry (dw_tasks W ! k)) pt"
    and "\<And>l. l < length (dw_tasks W) \<Longrightarrow> l \<noteq> k \<Longrightarrow> point_ok C n (dl_entry (dw_tasks W ! l)) (point W l)"
    and "\<And>l i. pt = Fetching i \<Longrightarrow> l < length (dw_tasks W) \<Longrightarrow> l \<noteq> k \<Longrightarrow> point W l \<noteq> Fetching i"
    and "\<And>l i p q. pt = Copying i p \<Longrightarrow> l < length (dw_tasks W) \<Longrightarrow> l \<noteq> k \<Longrightarrow> point W l = Copying i q \<Longrightarrow>
        target_from_entry (dl_entry (dw_tasks W ! k)) \<noteq> target_from_entry (dl_entry (dw_tasks W ! l))"
    and inv: "dl_inv ab W"
  shows "dl_inv ab (goto k pt (W\<lparr>dw_coord := C, dw_files := F, dw_recv := n\<rparr>))"
proof -
  let ?W = "W\<lparr>dw_coord := C, dw_files := F, dw_recv := n\<rparr>"
  have k': "k < length (dw_tasks ?W)" using k by simp
  have h: "holders (goto k pt ?W) i = holders (goto k pt W) i" for i by (simp add: holders_goto [OF k] holders_goto [OF k'])
  have "coord_ok ab (goto k pt ?W)"
    unfolding coord_ok_def using assms(2-5) by (simp add: h)
  moreover have "tasks_ok (goto k pt ?W)"
    unfolding tasks_ok_def
  proof (intro allI impI conjI)
    fix l assume l: "l < length (dw_tasks (goto k pt ?W))"
    then have l': "l < length (dw_tasks W)" by simp
    show "fmlookup (co_active (dw_coord (goto k pt ?W))) (dl_hash (dw_tasks (goto k pt ?W) ! l)) = Some i"
      if "holds i (point (goto k pt ?W) l)" for i
      using that assms(6,7) l' k by (auto split: if_splits)
    show "point_ok (dw_coord (goto k pt ?W)) (dw_recv (goto k pt ?W)) (dl_entry (dw_tasks (goto k pt ?W) ! l)) (point (goto k pt ?W) l)"
      using assms(8,9) l' k by auto
    fix m assume "m < length (dw_tasks (goto k pt ?W))"
    then have m: "m < length (dw_tasks W)" by simp
    show "l = m" if "point (goto k pt ?W) l = Fetching i" "point (goto k pt ?W) m = Fetching i" for i
      using that l' m k assms(10) [of i l] assms(10) [of i m] dl_taskD(3) [OF inv l', of i m] by (auto split: if_splits)
    show "l = m" if "point (goto k pt ?W) l = Copying i p" "point (goto k pt ?W) m = Copying i q"
      "target_from_entry (dl_entry (dw_tasks (goto k pt ?W) ! l)) = target_from_entry (dl_entry (dw_tasks (goto k pt ?W) ! m))"
      for i p q
      using that l' m k assms(11) [of i p m q] assms(11) [of i q l p] dl_taskD(4) [OF inv l', of i p m q]
      by (auto split: if_splits)
  qed
  ultimately show ?thesis by (simp add: dl_inv_def)
qed

lemma holders_stay:
  "k < length (dw_tasks W) \<Longrightarrow> (\<And>i. holds i pt = holds i (point W k)) \<Longrightarrow> holders (goto k pt W) i = holders W i"
  by (auto simp: holders_def)

lemma result_step:
  assumes inv: "dl_inv ab W" and k: "k < length (dw_tasks W)" and pt: "point W k = Fetching i"
    and F: "dw_files W |\<subseteq>| F" "dw_recv W \<le> n" "\<And>p. r = Inr p \<Longrightarrow> p |\<in>| F \<and> p < n \<and> dw_recv W \<le> p"
  shows "dl_inv ab (goto k (Announcing i) (W\<lparr>dw_coord := set_result i r (dw_coord W), dw_files := F, dw_recv := n\<rparr>))"
proof (rule dl_invI [OF k])
  note D = dl_invD [OF inv] and T = dl_taskD [OF inv]
  have hs: "holders (goto k (Announcing i) W) j = holders W j" for j
    by (rule holders_stay [OF k]) (simp add: pt)
  have none: "ds_result (co_slots (dw_coord W) i) = None" using T(2) [OF k] pt by simp
  have act: "fmlookup (co_active (dw_coord W)) (dl_hash (dw_tasks W ! k)) = Some i" using T(1) [OF k] pt by simp
  let ?C = "set_result i r (dw_coord W)"
  show "j < co_next ?C \<and> 0 < ds_waiters (co_slots ?C j) \<and>
      card (holders (goto k (Announcing i) W) j) \<le> ds_waiters (co_slots ?C j) \<and>
      (\<not> ab \<longrightarrow> card (holders (goto k (Announcing i) W) j) = ds_waiters (co_slots ?C j))"
    if "fmlookup (co_active ?C) h = Some j" for h j
    using D(1-4) [of h j] that by (auto simp: set_result_def hs)
  show "g = h" if "fmlookup (co_active ?C) h = Some j" "fmlookup (co_active ?C) g = Some j" for h g j
    using D(5) [of h j g] that by (simp add: set_result_def)
  show "p |\<in>| F \<and> p < n" if "fmlookup (co_active ?C) h = Some j" "ds_result (co_slots ?C j) = Some (Inr p)" for h j p
    using D(6,7) [of h j p] that F by (fastforce simp: set_result_def split: if_splits)
  show "j = l" if "fmlookup (co_active ?C) h = Some j" "fmlookup (co_active ?C) g = Some l"
    "ds_result (co_slots ?C j) = Some (Inr p)" "ds_result (co_slots ?C l) = Some (Inr p)" for h g j l p
    using that D(8) [of h j g l p] D(7) [of h j p] D(7) [of g l p] F(3) [of p]
    by (auto simp: set_result_def split: if_splits)
  show "fmlookup (co_active ?C) (dl_hash (dw_tasks W ! k)) = Some j" if "holds j (Announcing i)" for j
    using that act by (simp add: set_result_def)
  show "fmlookup (co_active ?C) (dl_hash (dw_tasks W ! l)) = Some j"
    if "l < length (dw_tasks W)" "l \<noteq> k" "holds j (point W l)" for l j
    using T(1) [OF that(1,3)] by (simp add: set_result_def)
  show "point_ok ?C n (dl_entry (dw_tasks W ! l)) (point W l)" if l: "l < length (dw_tasks W)" "l \<noteq> k" for l
    using T(2) [OF l(1)] T(3) [OF k pt l(1)] l(2) none F(2,3)
    by (cases "point W l") (auto simp: set_result_def)
qed (use inv in auto)

lemma claim_step:
  assumes inv: "dl_inv ab W" and k: "k < length (dw_tasks W)" and pt: "point W k = Got i p"
    and cl: "claim_target i (dl_entry (dw_tasks W ! k)) (dw_coord W) = (b, C)"
  shows "dl_inv ab (goto k (if b then Copying i p else Leaving i Skipped) (W\<lparr>dw_coord := C\<rparr>))"
proof -
  note D = dl_invD [OF inv] and T = dl_taskD [OF inv]
  let ?t = "target_from_entry (dl_entry (dw_tasks W ! k))" and ?pt = "if b then Copying i p else Leaving i Skipped"
  let ?st = "co_slots (dw_coord W) i"
  have C: "C = set_slot i (?st\<lparr>ds_claimed := finsert ?t (ds_claimed ?st)\<rparr>) (dw_coord W)" and b: "b \<longleftrightarrow> ?t |\<notin>| ds_claimed ?st"
    using cl by (auto simp: claim_target_def Let_def)
  have hs: "holders (goto k ?pt W) j = holders W j" for j by (rule holders_stay [OF k]) (simp add: pt)
  have "dl_inv ab (goto k ?pt (W\<lparr>dw_coord := C, dw_files := dw_files W, dw_recv := dw_recv W\<rparr>))"
  proof (rule dl_invI [OF k])
    show "j < co_next C \<and> 0 < ds_waiters (co_slots C j) \<and> card (holders (goto k ?pt W) j) \<le> ds_waiters (co_slots C j) \<and>
        (\<not> ab \<longrightarrow> card (holders (goto k ?pt W) j) = ds_waiters (co_slots C j))"
      if "fmlookup (co_active C) h = Some j" for h j
      using D(1-4) [of h j] that by (auto simp: C hs)
    show "g = h" if "fmlookup (co_active C) h = Some j" "fmlookup (co_active C) g = Some j" for h g j
      using D(5) [of h j g] that by (simp add: C)
    show "q |\<in>| dw_files W \<and> q < dw_recv W"
      if "fmlookup (co_active C) h = Some j" "ds_result (co_slots C j) = Some (Inr q)" for h j q
      using D(6,7) [of h j q] that by (auto simp: C split: if_splits)
    show "j = l" if "fmlookup (co_active C) h = Some j" "fmlookup (co_active C) g = Some l"
      "ds_result (co_slots C j) = Some (Inr q)" "ds_result (co_slots C l) = Some (Inr q)" for h g j l q
      using that D(8) [of h j g l q] by (auto simp: C split: if_splits)
    show "fmlookup (co_active C) (dl_hash (dw_tasks W ! k)) = Some j" if "holds j ?pt" for j
      using that T(1) [OF k, of i] pt by (auto simp: C split: if_splits)
    show "fmlookup (co_active C) (dl_hash (dw_tasks W ! l)) = Some j"
      if "l < length (dw_tasks W)" "l \<noteq> k" "holds j (point W l)" for l j
      using T(1) [OF that(1,3)] by (simp add: C)
    show "point_ok C (dw_recv W) (dl_entry (dw_tasks W ! k)) ?pt" using T(2) [OF k] pt by (simp add: C)
    show "point_ok C (dw_recv W) (dl_entry (dw_tasks W ! l)) (point W l)" if l: "l < length (dw_tasks W)" "l \<noteq> k" for l
      using T(2) [OF l(1)] by (cases "point W l") (auto simp: C)
    show "?t \<noteq> target_from_entry (dl_entry (dw_tasks W ! l))"
      if "?pt = Copying j q" "l < length (dw_tasks W)" "l \<noteq> k" "point W l = Copying j m" for l j q m
      using that T(2) [OF that(2)] b by (auto split: if_splits)
  qed (use inv in \<open>auto split: if_splits\<close>)
  then show ?thesis by simp
qed

lemma acquire_step:
  assumes inv: "dl_inv ab W" and k: "k < length (dw_tasks W)" and pt: "point W k = Ready"
    and ac: "acquire (dl_hash (dw_tasks W ! k)) (dw_coord W) = (i, leader, C)"
  shows "dl_inv ab (goto k (if leader then Fetching i else Checking i) (W\<lparr>dw_coord := C\<rparr>))"
proof -
  note D = dl_invD [OF inv] and T = dl_taskD [OF inv]
  let ?h = "dl_hash (dw_tasks W ! k)" and ?pt = "if leader then Fetching i else Checking i"
  let ?act = "fmlookup (co_active (dw_coord W))"
  have out: "k \<notin> holders W j" for j using pt by (simp add: holders_def)
  have hs: "holders (goto k ?pt W) j = (if j = i then insert k (holders W i) else holders W j)" for j
    using out [of j] by (auto simp: holders_goto [OF k])
  have cases: "?act ?h = Some i \<and> \<not> leader \<and> C = set_slot i ((co_slots (dw_coord W) i)\<lparr>ds_waiters := ds_waiters (co_slots (dw_coord W) i) + 1\<rparr>) (dw_coord W) \<or>
      ?act ?h = None \<and> leader \<and> i = co_next (dw_coord W) \<and> fmlookup (co_active C) = ?act(?h \<mapsto> i) \<and> co_next C = i + 1 \<and>
      co_slots C = (co_slots (dw_coord W))(i := \<lparr>ds_waiters = 1, ds_claimed = {||}, ds_result = None\<rparr>)"
    using ac by (auto simp: acquire_def Let_def set_slot_def split: option.splits)
  have fresh: "?act g \<noteq> Some (co_next (dw_coord W))" for g using D(1) [of g] by fastforce
  have empty: "holders W i = {}" if "i = co_next (dw_coord W)"
    using that T(1) D(1) by (force simp: holders_def)
  have "dl_inv ab (goto k ?pt (W\<lparr>dw_coord := C, dw_files := dw_files W, dw_recv := dw_recv W\<rparr>))"
  proof (rule dl_invI [OF k])
    show "j < co_next C \<and> 0 < ds_waiters (co_slots C j) \<and> card (holders (goto k ?pt W) j) \<le> ds_waiters (co_slots C j) \<and>
        (\<not> ab \<longrightarrow> card (holders (goto k ?pt W) j) = ds_waiters (co_slots C j))"
      if "fmlookup (co_active C) h = Some j" for h j
      using cases that D(1-4) [of h j] empty out [of i] unfolding hs by (auto split: if_splits)
    show "g = h" if "fmlookup (co_active C) h = Some j" "fmlookup (co_active C) g = Some j" for h g j
      using cases that D(5) [of h j g] D(1) [of h j] D(1) [of g j] by (auto split: if_splits)
    show "q |\<in>| dw_files W \<and> q < dw_recv W"
      if "fmlookup (co_active C) h = Some j" "ds_result (co_slots C j) = Some (Inr q)" for h j q
      using cases that D(6,7) [of h j q] by (auto split: if_splits)
    show "j = l" if "fmlookup (co_active C) h = Some j" "fmlookup (co_active C) g = Some l"
      "ds_result (co_slots C j) = Some (Inr q)" "ds_result (co_slots C l) = Some (Inr q)" for h g j l q
      using cases that D(8) [of h j g l q] by (auto split: if_splits)
    show "fmlookup (co_active C) ?h = Some j" if "holds j ?pt" for j
      using that cases by (auto split: if_splits)
    show "fmlookup (co_active C) (dl_hash (dw_tasks W ! l)) = Some j"
      if "l < length (dw_tasks W)" "l \<noteq> k" "holds j (point W l)" for l j
      using T(1) [OF that(1,3)] cases by auto
    show "point_ok C (dw_recv W) (dl_entry (dw_tasks W ! k)) ?pt" using cases by auto
    show "point_ok C (dw_recv W) (dl_entry (dw_tasks W ! l)) (point W l)" if l: "l < length (dw_tasks W)" "l \<noteq> k" for l
      using T(2) [OF l(1)] T(1) [OF l(1)] fresh cases by (cases "point W l") (auto split: if_splits)
    show "point W l \<noteq> Fetching j" if "?pt = Fetching j" "l < length (dw_tasks W)" "l \<noteq> k" for l j
      using that T(1) [OF that(2), of j] fresh cases by (auto split: if_splits)
  qed (use inv in \<open>auto split: if_splits\<close>)
  then show ?thesis by simp
qed

lemma release_effect:
  assumes "release h i C0 = (r, C)" "fmlookup (co_active C0) h = Some i"
  shows "co_slots C = (co_slots C0)(i := (co_slots C0 i)\<lparr>ds_waiters := ds_waiters (co_slots C0 i) - 1\<rparr>)"
    "co_next C = co_next C0"
    "fmlookup (co_active C) = (if ds_waiters (co_slots C0 i) - 1 \<noteq> 0 then fmlookup (co_active C0)
       else (fmlookup (co_active C0))(h := None))"
    "r = Some p \<longleftrightarrow> ds_waiters (co_slots C0 i) - 1 = 0 \<and> ds_result (co_slots C0 i) = Some (Inr p)"
  using assms by (auto simp: release_def Let_def set_slot_def fun_eq_iff split: if_splits option.splits sum.splits)

lemma leave_step:
  assumes inv: "dl_inv ab W" and k: "k < length (dw_tasks W)" and pt: "point W k = Leaving i out"
    and re: "release (dl_hash (dw_tasks W ! k)) i (dw_coord W) = (r, C)"
  shows "dl_inv ab (goto k (case r of Some p \<Rightarrow> Removing p out | None \<Rightarrow> Finished out) (W\<lparr>dw_coord := C\<rparr>))"
proof -
  note D = dl_invD [OF inv] and T = dl_taskD [OF inv]
  let ?h = "dl_hash (dw_tasks W ! k)" and ?pt = "case r of Some p \<Rightarrow> Removing p out | None \<Rightarrow> Finished out"
  let ?act = "fmlookup (co_active (dw_coord W))" and ?w = "ds_waiters (co_slots (dw_coord W) i)"
  have act: "?act ?h = Some i" using T(1) [OF k] pt by simp
  note slots = release_effect(1,2) [OF re act] and actC = release_effect(3) [OF re act]
  have r: "?w - 1 = 0 \<and> ds_result (co_slots (dw_coord W) i) = Some (Inr p)" if "r = Some p" for p
    using that release_effect(4) [OF re act] by simp
  have act_sub: "?act g = Some j" if "fmlookup (co_active C) g = Some j" for g j
    using that by (auto simp: actC split: if_splits)
  have in_h: "k \<in> holders W i" using pt k by (simp add: holders_def)
  have hs: "holders (goto k ?pt W) j = holders W j - {k}" for j by (simp add: holders_goto [OF k] split: option.split)
  have not_in: "k \<notin> holders W j" if "j \<noteq> i" for j using pt that by (simp add: holders_def)
  have single: "l = k" if "l \<in> holders W i" "?w - 1 = 0" for l
  proof -
    have "card (holders W i) \<le> 1" using D(3) [OF act] that(2) by linarith
    with in_h that(1) show ?thesis by (metis card_le_Suc0_iff_eq finite_holders One_nat_def)
  qed
  have "dl_inv ab (goto k ?pt (W\<lparr>dw_coord := C, dw_files := dw_files W, dw_recv := dw_recv W\<rparr>))"
  proof (rule dl_invI [OF k])
    show "j < co_next C \<and> 0 < ds_waiters (co_slots C j) \<and> card (holders (goto k ?pt W) j) \<le> ds_waiters (co_slots C j) \<and>
        (\<not> ab \<longrightarrow> card (holders (goto k ?pt W) j) = ds_waiters (co_slots C j))"
      if a: "fmlookup (co_active C) h = Some j" for h j
    proof (cases "j = i")
      case True
      with a D(5) [OF act act_sub [OF a [unfolded True]]] have "?w - 1 \<noteq> 0" by (auto simp: actC)
      with True show ?thesis using D(1,3,4) [OF act] in_h by (auto simp: hs slots)
    next
      case False
      with D(1-4) [OF act_sub [OF a]] not_in [OF False] show ?thesis by (auto simp: hs slots)
    qed
    show "g = h" if "fmlookup (co_active C) h = Some j" "fmlookup (co_active C) g = Some j" for h g j
      using D(5) [OF act_sub [OF that(1)] act_sub [OF that(2)]] .
    show "q |\<in>| dw_files W \<and> q < dw_recv W"
      if "fmlookup (co_active C) h = Some j" "ds_result (co_slots C j) = Some (Inr q)" for h j q
      using D(6,7) [OF act_sub [OF that(1)], of q] that(2) by (auto simp: slots split: if_splits)
    show "j = l" if "fmlookup (co_active C) h = Some j" "fmlookup (co_active C) g = Some l"
      "ds_result (co_slots C j) = Some (Inr q)" "ds_result (co_slots C l) = Some (Inr q)" for h g j l q
      using D(8) [OF act_sub [OF that(1)] act_sub [OF that(2)], of q] that(3,4) by (auto simp: slots split: if_splits)
    show "fmlookup (co_active C) (dl_hash (dw_tasks W ! l)) = Some j"
      if l: "l < length (dw_tasks W)" "l \<noteq> k" "holds j (point W l)" for l j
      using T(1) [OF l(1,3)] single [of l] l act by (auto simp: actC holders_def)
    show "point_ok C (dw_recv W) (dl_entry (dw_tasks W ! k)) ?pt"
    proof (cases r)
      case (Some p)
      note rp = r [OF Some]
      have "ds_result (co_slots C j) \<noteq> Some (Inr p)" if "fmlookup (co_active C) g = Some j" for g j
      proof
        assume res: "ds_result (co_slots C j) = Some (Inr p)"
        then have "i = j" using D(8) [OF act act_sub [OF that], of p] rp by (auto simp: slots split: if_splits)
        with D(5) [OF act, of g] act_sub [OF that] that rp show False by (auto simp: actC)
      qed
      with Some rp D(7) [OF act, of p] show ?thesis by simp
    qed simp
    show "point_ok C (dw_recv W) (dl_entry (dw_tasks W ! l)) (point W l)" if l: "l < length (dw_tasks W)" "l \<noteq> k" for l
      using T(2) [OF l(1)] act_sub by (cases "point W l") (auto simp: slots)
  qed (use inv in \<open>auto split: option.splits\<close>)
  then show ?thesis by simp
qed

lemma notify_step:
  assumes inv: "dl_inv ab W" and k: "k < length (dw_tasks W)" and pt: "point W k = Announcing i"
  shows "dl_inv ab (goto k (Checking i) (W\<lparr>dw_tasks := map (wake i) (dw_tasks W)\<rparr>))"
proof (rule quiet_step [OF inv])
  have w: "dl_hash (wake i t) = dl_hash t" "dl_entry (wake i t) = dl_entry t"
    "dl_point (wake i t) = (if dl_point t = Waiting i then Woken i else dl_point t)" for t
    by (simp_all add: wake_def)
  fix j assume j: "j < length (dw_tasks W)"
  then show "dl_hash (dw_tasks (goto k (Checking i) (W\<lparr>dw_tasks := map (wake i) (dw_tasks W)\<rparr>)) ! j) = dl_hash (dw_tasks W ! j) \<and>
      dl_entry (dw_tasks (goto k (Checking i) (W\<lparr>dw_tasks := map (wake i) (dw_tasks W)\<rparr>)) ! j) = dl_entry (dw_tasks W ! j)"
    using k by (simp add: w)
  let ?P = "point (goto k (Checking i) (W\<lparr>dw_tasks := map (wake i) (dw_tasks W)\<rparr>)) j"
  have P: "?P = (if j = k then Checking i else if point W j = Waiting i then Woken i else point W j)"
    using j k by (simp add: w)
  show "holds l (point W j)" if "holds l ?P" for l using that pt unfolding P by (auto split: if_splits)
  show "holds l ?P" if "holds l (point W j)" for l using that pt unfolding P by (auto split: if_splits)
  show "point_ok (dw_coord W) (dw_recv (goto k (Checking i) (W\<lparr>dw_tasks := map (wake i) (dw_tasks W)\<rparr>)))
      (dl_entry (dw_tasks W ! j)) ?P"
    using dl_taskD(2) [OF inv j] unfolding P by auto
  show "point W j = Fetching l" if "?P = Fetching l" for l using that unfolding P by (auto split: if_splits)
  show "point W j = Copying l p" if "?P = Copying l p" for l p using that unfolding P by (auto split: if_splits)
qed (use k in simp_all)

lemma remove_step:
  assumes inv: "dl_inv ab W" and k: "k < length (dw_tasks W)" and pt: "point W k = Removing p out"
  shows "dl_inv ab (goto k (Finished out) (W\<lparr>dw_files := dw_files W |-| {|p|}\<rparr>))"
proof -
  note D = dl_invD [OF inv] and T = dl_taskD [OF inv]
  have hs: "holders (goto k (Finished out) W) j = holders W j" for j by (rule holders_stay [OF k]) (simp add: pt)
  have p: "ds_result (co_slots (dw_coord W) i) \<noteq> Some (Inr p)" if "fmlookup (co_active (dw_coord W)) h = Some i" for h i
    using T(2) [OF k] pt that by simp
  have "dl_inv ab (goto k (Finished out) (W\<lparr>dw_coord := dw_coord W, dw_files := dw_files W |-| {|p|}, dw_recv := dw_recv W\<rparr>))"
  proof (rule dl_invI [OF k])
    show "j < co_next (dw_coord W) \<and> 0 < ds_waiters (co_slots (dw_coord W) j) \<and>
        card (holders (goto k (Finished out) W) j) \<le> ds_waiters (co_slots (dw_coord W) j) \<and>
        (\<not> ab \<longrightarrow> card (holders (goto k (Finished out) W) j) = ds_waiters (co_slots (dw_coord W) j))"
      if "fmlookup (co_active (dw_coord W)) h = Some j" for h j
      using D(1-4) [OF that] by (simp add: hs)
    show "q |\<in>| dw_files W |-| {|p|} \<and> q < dw_recv W"
      if "fmlookup (co_active (dw_coord W)) h = Some j" "ds_result (co_slots (dw_coord W) j) = Some (Inr q)" for h j q
      using D(6,7) [OF that] p [OF that(1)] that(2) by auto
    show "fmlookup (co_active (dw_coord W)) (dl_hash (dw_tasks W ! l)) = Some j"
      if "l < length (dw_tasks W)" "l \<noteq> k" "holds j (point W l)" for l j by (rule T(1) [OF that(1,3)])
    show "g = h" if "fmlookup (co_active (dw_coord W)) h = Some j" "fmlookup (co_active (dw_coord W)) g = Some j" for h g j
      by (rule D(5) [OF that])
    show "j = l" if "fmlookup (co_active (dw_coord W)) h = Some j" "fmlookup (co_active (dw_coord W)) g = Some l"
      "ds_result (co_slots (dw_coord W) j) = Some (Inr q)" "ds_result (co_slots (dw_coord W) l) = Some (Inr q)" for h g j l q
      by (rule D(8) [OF that])
    show "point_ok (dw_coord W) (dw_recv W) (dl_entry (dw_tasks W ! l)) (point W l)"
      if "l < length (dw_tasks W)" "l \<noteq> k" for l by (rule T(2) [OF that(1)])
  qed (use inv in auto)
  then show ?thesis by simp
qed

lemma dl_inv_step:
  assumes "dl_step ab W W'" "dl_inv ab W"
  shows "dl_inv ab W'"
  using assms
proof (induction rule: dl_step.induct)
  case (lead k W i C)
  with acquire_step [OF lead.prems lead.hyps] show ?case by simp
next
  case (join k W i C)
  with acquire_step [OF join.prems join.hyps] show ?case by simp
next
  case (received k W i)
  show ?case by (rule result_step [OF received.prems received.hyps]) auto
next
  case (failed k W i err)
  from result_step [OF failed.prems failed.hyps, of "dw_files W" "dw_recv W" "Inl err"] show ?case by simp
next
  case (notify k W i)
  then show ?case by (intro notify_step)
next
  case (claim k W i p b C)
  then show ?case by (intro claim_step)
next
  case (leave k W i out r C)
  then show ?case by (intro leave_step)
next
  case (remove k W p out)
  then show ?case by (intro remove_step)
next
  case (abort k W)
  then show ?case by (intro quiet_goto [of ab W]) auto
next
  case (copied k W i p)
  then show ?case by (intro quiet_goto [of ab W]) auto
next
  case (uncopied k W i p err)
  then show ?case by (intro quiet_goto [of ab W]) auto
next
  case (found k W i p)
  then show ?case by (intro quiet_goto [of ab W]) auto
next
  case (refused k W i err)
  then show ?case by (intro quiet_goto [of ab W]) auto
next
  case (pending k W i)
  then show ?case by (intro quiet_goto [of ab W]) auto
next
  case (sleep k W i)
  then show ?case by (intro quiet_goto [of ab W]) auto
next
  case (resume k W i)
  then show ?case by (intro quiet_goto [of ab W]) auto
qed

lemma dl_inv_start: "dl_inv ab (dl_start ts)"
  by (simp add: dl_inv_def coord_ok_def tasks_ok_def dl_start_def case_prod_beta)

lemma dl_reachable_inv: "dl_reachable ab W \<Longrightarrow> dl_inv ab W"
  unfolding dl_reachable_def
proof (elim exE)
  fix ts assume "(dl_step ab)\<^sup>*\<^sup>* (dl_start ts) W"
  then show ?thesis by (induction rule: rtranclp_induct) (auto intro: dl_inv_start dl_inv_step)
qed

end
