(* ===== verification/Lil_DownloadFacts.thy ===== *)
theory Lil_DownloadFacts
  imports Lil_Downloads
begin

text \<open>
  What sharing downloads guarantees, over all interleavings of the tasks: the shared file is there
  while a task copies it, an object is received by one task at a time, a target is copied once, and
  when no task is aborted nothing is left behind. Then the runs in which it goes wrong: a wake-up
  that is lost, and the tasks that are aborted.
\<close>

section \<open>No file is forgotten\<close>

fun own_file :: "nat \<Rightarrow> task_point \<Rightarrow> bool" where
  "own_file p (Leaving _ out) \<longleftrightarrow> out = Fetched p"
| "own_file p (Removing q out) \<longleftrightarrow> p = q \<or> out = Fetched p"
| "own_file p (Finished out) \<longleftrightarrow> out = Fetched p"
| "own_file p _ \<longleftrightarrow> False"

definition accounted :: "dl_world \<Rightarrow> bool" where
  "accounted W \<longleftrightarrow>
     (\<forall>p. p |\<in>| dw_files W \<longrightarrow>
        (\<exists>h i. fmlookup (co_active (dw_coord W)) h = Some i \<and> ds_result (co_slots (dw_coord W) i) = Some (Inr p)) \<or>
        (\<exists>k < length (dw_tasks W). own_file p (point W k)))"

lemma accounted_step:
  assumes acc: "accounted W" and len: "length (dw_tasks W') = length (dw_tasks W)"
    and files: "\<And>p. p |\<in>| dw_files W' \<Longrightarrow> p |\<in>| dw_files W \<or>
        (\<exists>h i. fmlookup (co_active (dw_coord W')) h = Some i \<and> ds_result (co_slots (dw_coord W') i) = Some (Inr p)) \<or>
        (\<exists>k < length (dw_tasks W). own_file p (point W' k))"
    and own: "\<And>p k. k < length (dw_tasks W) \<Longrightarrow> own_file p (point W k) \<Longrightarrow> p |\<in>| dw_files W' \<Longrightarrow> own_file p (point W' k)"
    and res: "\<And>h i p. fmlookup (co_active (dw_coord W)) h = Some i \<Longrightarrow> ds_result (co_slots (dw_coord W) i) = Some (Inr p) \<Longrightarrow>
        fmlookup (co_active (dw_coord W')) h = Some i \<and> ds_result (co_slots (dw_coord W') i) = Some (Inr p) \<or>
        (\<exists>k < length (dw_tasks W). own_file p (point W' k))"
  shows "accounted W'"
  unfolding accounted_def len
proof (intro allI impI)
  fix p assume p: "p |\<in>| dw_files W'"
  show "(\<exists>h i. fmlookup (co_active (dw_coord W')) h = Some i \<and> ds_result (co_slots (dw_coord W') i) = Some (Inr p)) \<or>
      (\<exists>k < length (dw_tasks W). own_file p (point W' k))"
    using files [OF p] acc own [OF _ _ p] res unfolding accounted_def by metis
qed

lemma accounted_goto:
  assumes "accounted W" and k: "k < length (dw_tasks W)" and "dw_tasks W1 = dw_tasks W" "dw_coord W1 = dw_coord W"
    and "\<And>p. p |\<in>| dw_files W1 \<Longrightarrow> p |\<in>| dw_files W \<or> own_file p pt"
    and "\<And>p. own_file p (point W k) \<Longrightarrow> p |\<in>| dw_files W1 \<Longrightarrow> own_file p pt"
  shows "accounted (goto k pt W1)"
proof -
  have k1: "k < length (dw_tasks W1)" using k assms(3) by simp
  have here: "own_file p pt \<Longrightarrow> \<exists>j < length (dw_tasks W). own_file p (point (goto k pt W1) j)" for p
    using k goto_task_simps(3) [OF k1, of pt k] by auto
  show ?thesis
    by (rule accounted_step [OF assms(1)])
       (use assms k1 here goto_task_simps(3) [OF k1] in \<open>auto dest: assms(5)\<close>)
qed

lemma accounted_inv:
  assumes "dl_step False W W'" "dl_inv False W" "accounted W"
  shows "accounted W'"
  using assms
proof (induction rule: dl_step.induct)
  case (lead k W i C)
  then show ?case
    by (intro accounted_step [OF lead.prems(2)])
       (auto simp: acquire_def Let_def set_slot_def split: option.splits dest: dl_invD(1))
next
  case (join k W i C)
  then show ?case
    by (intro accounted_step [OF join.prems(2)])
       (auto simp: acquire_def Let_def set_slot_def split: option.splits)
next
  case (received k W i)
  have "fmlookup (co_active (dw_coord W)) (dl_hash (dw_tasks W ! k)) = Some i" "ds_result (co_slots (dw_coord W) i) = None"
    using dl_taskD(1,2) [OF received.prems(1) received.hyps(1)] received.hyps(2) by auto
  with received show ?case
    by (intro accounted_step [OF received.prems(2)]) (auto simp: set_result_def)
next
  case (failed k W i err)
  have "ds_result (co_slots (dw_coord W) i) = None"
    using dl_taskD(2) [OF failed.prems(1) failed.hyps(1)] failed.hyps(2) by auto
  with failed show ?case
    by (intro accounted_step [OF failed.prems(2)]) (auto simp: set_result_def)
next
  case (notify k W i)
  have w: "dl_point (wake i t) = (if dl_point t = Waiting i then Woken i else dl_point t)" for t
    by (simp add: wake_def)
  from notify show ?case
    by (intro accounted_step [OF notify.prems(2)]) (auto simp: w split: if_splits)
next
  case (claim k W i p b C)
  then show ?case
    by (intro accounted_step [OF claim.prems(2)]) (auto simp: claim_target_def Let_def)
next
  case (leave k W i out r C)
  have act: "fmlookup (co_active (dw_coord W)) (dl_hash (dw_tasks W ! k)) = Some i"
    using dl_taskD(1) [OF leave.prems(1) leave.hyps(1)] leave.hyps(2) by simp
  note rel = release_effect [OF leave.hyps(3) act]
  show ?case
  proof (rule accounted_step [OF leave.prems(2)])
    show "own_file p (point (goto k (case r of None \<Rightarrow> Finished out | Some p \<Rightarrow> Removing p out) (W\<lparr>dw_coord := C\<rparr>)) j)"
      if "own_file p (point W j)" for p j
      using that leave.hyps(1,2) by (auto split: option.splits)
    show "fmlookup (co_active (dw_coord (goto k (case r of None \<Rightarrow> Finished out | Some p \<Rightarrow> Removing p out) (W\<lparr>dw_coord := C\<rparr>)))) h = Some j \<and>
        ds_result (co_slots (dw_coord (goto k (case r of None \<Rightarrow> Finished out | Some p \<Rightarrow> Removing p out) (W\<lparr>dw_coord := C\<rparr>))) j) = Some (Inr p) \<or>
        (\<exists>l < length (dw_tasks W). own_file p (point (goto k (case r of None \<Rightarrow> Finished out | Some p \<Rightarrow> Removing p out) (W\<lparr>dw_coord := C\<rparr>)) l))"
      if "fmlookup (co_active (dw_coord W)) h = Some j" "ds_result (co_slots (dw_coord W) j) = Some (Inr p)" for h j p
    proof (cases "r = Some p")
      case True
      then have "own_file p (point (goto k (case r of None \<Rightarrow> Finished out | Some p \<Rightarrow> Removing p out) (W\<lparr>dw_coord := C\<rparr>)) k)"
        using leave.hyps(1) by simp
      with leave.hyps(1) show ?thesis by blast
    next
      case False
      with rel(4) that(2) have "j = i \<Longrightarrow> ds_waiters (co_slots (dw_coord W) i) - 1 \<noteq> 0" by auto
      moreover have "h \<noteq> dl_hash (dw_tasks W ! k)" if "j \<noteq> i" using that act \<open>fmlookup _ h = Some j\<close> by auto
      ultimately show ?thesis using that by (auto simp: rel(1,3))
    qed
  qed (use leave in auto)
next
  case (remove k W p out)
  then show ?case by (intro accounted_goto [of W]) auto
next
  case (copied k W i p)
  then show ?case by (intro accounted_goto [of W]) auto
next
  case (found k W i p)
  then show ?case by (intro accounted_goto [of W]) auto
next
  case (refused k W i err)
  then show ?case by (intro accounted_goto [of W]) auto
next
  case (pending k W i)
  then show ?case by (intro accounted_goto [of W]) auto
next
  case (sleep k W i)
  then show ?case by (intro accounted_goto [of W]) auto
next
  case (resume k W i)
  then show ?case by (intro accounted_goto [of W]) auto
next
  case (uncopied k W i p err)
  then show ?case by (intro accounted_goto [of W]) auto
qed simp

lemma reachable_accounted: "dl_reachable False W \<Longrightarrow> accounted W"
  unfolding dl_reachable_def
proof (elim exE)
  fix ts assume "(dl_step False)\<^sup>*\<^sup>* (dl_start ts) W"
  then show "accounted W"
  proof (induction rule: rtranclp_induct)
    case base
    then show ?case by (simp add: accounted_def dl_start_def)
  next
    case (step y z)
    moreover have "dl_inv False y" using step.hyps(1) by (auto intro!: dl_reachable_inv simp: dl_reachable_def)
    ultimately show ?case using accounted_inv by blast
  qed
qed

section \<open>An executable scheduler\<close>

datatype choice = Go | Fail string | Abort

fun perform :: "choice \<Rightarrow> nat \<Rightarrow> dl_world \<Rightarrow> dl_world option" where
  "perform Abort k W =
     (if k < length (dw_tasks W) \<and> await_point (point W k) then Some (goto k Aborted W) else None)"
| "perform (Fail err) k W =
     (if k < length (dw_tasks W)
      then (case point W k of
              Fetching i \<Rightarrow> Some (goto k (Announcing i) (W\<lparr>dw_coord := set_result i (Inl err) (dw_coord W)\<rparr>))
            | Copying i p \<Rightarrow> Some (goto k (Leaving i (Failed err)) (W\<lparr>dw_recv := dw_recv W + 1\<rparr>))
            | _ \<Rightarrow> None)
      else None)"
| "perform Go k W =
     (if k < length (dw_tasks W)
      then (case point W k of
              Ready \<Rightarrow> (case acquire (dl_hash (dw_tasks W ! k)) (dw_coord W) of
                 (i, leader, C) \<Rightarrow> Some (goto k (if leader then Fetching i else Checking i) (W\<lparr>dw_coord := C\<rparr>)))
            | Fetching i \<Rightarrow> Some (goto k (Announcing i) (W\<lparr>dw_coord := set_result i (Inr (dw_recv W)) (dw_coord W),
                 dw_files := finsert (dw_recv W) (dw_files W), dw_recv := dw_recv W + 1\<rparr>))
            | Announcing i \<Rightarrow> Some (goto k (Checking i) (W\<lparr>dw_tasks := map (wake i) (dw_tasks W)\<rparr>))
            | Checking i \<Rightarrow> Some (goto k (case ds_result (co_slots (dw_coord W) i) of
                   Some (Inr p) \<Rightarrow> Got i p | Some (Inl err) \<Rightarrow> Leaving i (Failed err) | None \<Rightarrow> Unnotified i) W)
            | Unnotified i \<Rightarrow> Some (goto k (Waiting i) W)
            | Woken i \<Rightarrow> Some (goto k (Checking i) W)
            | Got i p \<Rightarrow> (case claim_target i (dl_entry (dw_tasks W ! k)) (dw_coord W) of
                 (b, C) \<Rightarrow> Some (goto k (if b then Copying i p else Leaving i Skipped) (W\<lparr>dw_coord := C\<rparr>)))
            | Copying i p \<Rightarrow> if p |\<in>| dw_files W
                 then Some (goto k (Leaving i (Fetched (dw_recv W)))
                        (W\<lparr>dw_files := finsert (dw_recv W) (dw_files W), dw_recv := dw_recv W + 1\<rparr>))
                 else None
            | Leaving i out \<Rightarrow> (case release (dl_hash (dw_tasks W ! k)) i (dw_coord W) of
                 (r, C) \<Rightarrow> Some (goto k (case r of Some p \<Rightarrow> Removing p out | None \<Rightarrow> Finished out) (W\<lparr>dw_coord := C\<rparr>)))
            | Removing p out \<Rightarrow> Some (goto k (Finished out) (W\<lparr>dw_files := dw_files W |-| {|p|}\<rparr>))
            | _ \<Rightarrow> None)
      else None)"

lemmas dl_step_intros = dl_step.intros dl_step.received [simplified] dl_step.copied [simplified] dl_step.uncopied [simplified]
  dl_step.claim [where b = True, simplified] dl_step.claim [where b = False, simplified]
  dl_step.leave [where r = None, simplified] dl_step.leave [where r = "Some p" for p, simplified]

lemma perform_step:
  assumes "perform c k W = Some W'" "c = Abort \<longrightarrow> ab"
  shows "dl_step ab W W'"
proof (cases c)
  case Go
  with assms(1) show ?thesis
    by (cases "point W k") (auto split: if_splits prod.splits option.splits sum.splits intro: dl_step_intros)
next
  case (Fail err)
  with assms(1) show ?thesis by (cases "point W k") (auto split: if_splits intro: dl_step_intros)
next
  case Abort
  with assms show ?thesis by (auto split: if_splits intro: dl_step.abort)
qed

primrec run_tasks :: "(choice \<times> nat) list \<Rightarrow> dl_world \<Rightarrow> dl_world option" where
  "run_tasks [] W = Some W"
| "run_tasks (x # xs) W = Option.bind (perform (fst x) (snd x) W) (run_tasks xs)"

lemma run_tasks_reach:
  assumes "run_tasks xs W = Some W'" "ab \<or> Abort \<notin> fst ` set xs"
  shows "(dl_step ab)\<^sup>*\<^sup>* W W'"
  using assms
proof (induction xs arbitrary: W)
  case (Cons x xs)
  then obtain W1 where "perform (fst x) (snd x) W = Some W1" "run_tasks xs W1 = Some W'"
    by (auto simp: Option.bind_eq_Some_conv)
  with Cons perform_step [of "fst x" "snd x" W W1 ab] show ?case
    by (auto intro: converse_rtranclp_into_rtranclp)
qed simp

section \<open>Sharing is safe\<close>

text \<open>
  C9. Tasks that download the same object at the same time, in any interleaving and even when
  some of them are aborted: the shared file exists whenever a task is about to copy it, no object
  is received by two tasks at a time, two tasks never copy it for the same entry version, and a
  slot is dropped only when no task uses it.
\<close>

theorem shared_downloads_are_safe:
  assumes "dl_reachable ab W" "k < length (dw_tasks W)" "l < length (dw_tasks W)"
  shows "(\<forall>i p. point W k = Copying i p \<longrightarrow> p |\<in>| dw_files W) \<and>
    (\<forall>i. holds i (point W k) \<longrightarrow> fmlookup (co_active (dw_coord W)) (dl_hash (dw_tasks W ! k)) = Some i) \<and>
    (\<forall>i j. point W k = Fetching i \<longrightarrow> point W l = Fetching j \<longrightarrow>
       dl_hash (dw_tasks W ! k) = dl_hash (dw_tasks W ! l) \<longrightarrow> k = l) \<and>
    (\<forall>i j p q. point W k = Copying i p \<longrightarrow> point W l = Copying j q \<longrightarrow>
       dl_hash (dw_tasks W ! k) = dl_hash (dw_tasks W ! l) \<longrightarrow>
       target_from_entry (dl_entry (dw_tasks W ! k)) = target_from_entry (dl_entry (dw_tasks W ! l)) \<longrightarrow> k = l)"
proof -
  note inv = dl_reachable_inv [OF assms(1)]
  note T = dl_taskD [OF inv assms(2)] and T' = dl_taskD [OF inv assms(3)]
  have same: "i = j" if "holds i (point W k)" "holds j (point W l)" "dl_hash (dw_tasks W ! k) = dl_hash (dw_tasks W ! l)" for i j
    using T(1) [OF that(1)] T'(1) [OF that(2)] that(3) by simp
  have "p |\<in>| dw_files W" if "point W k = Copying i p" for i p
    using dl_invD(6) [OF inv T(1) [of i], of p] T(2) that by simp
  moreover have "k = l" if "point W k = Fetching i" "point W l = Fetching j"
    "dl_hash (dw_tasks W ! k) = dl_hash (dw_tasks W ! l)" for i j
    using same [of i j] T(3) [of i l] that assms(3) by simp
  moreover have "k = l" if "point W k = Copying i p" "point W l = Copying j q"
    "dl_hash (dw_tasks W ! k) = dl_hash (dw_tasks W ! l)"
    "target_from_entry (dl_entry (dw_tasks W ! k)) = target_from_entry (dl_entry (dw_tasks W ! l))" for i j p q
    using same [of i j] T(4) [of i p l q] that assms(3) by simp
  ultimately show ?thesis using T(1) by blast
qed

text \<open>
  C10. When no task is aborted and all have finished, the coordinator is empty and every received
  file that is left is the own copy that some task returned: the shared file was removed.
\<close>

theorem finished_downloads_clean_up:
  assumes "dl_reachable False W" "\<forall>k < length (dw_tasks W). \<exists>out. point W k = Finished out"
  shows "co_active (dw_coord W) = fmempty \<and>
    (\<forall>p. p |\<in>| dw_files W \<longrightarrow> (\<exists>k < length (dw_tasks W). point W k = Finished (Fetched p)))"
proof -
  note inv = dl_reachable_inv [OF assms(1)]
  have none: "fmlookup (co_active (dw_coord W)) h = None" for h
  proof (cases "fmlookup (co_active (dw_coord W)) h")
    case (Some i)
    from dl_invD(2,4) [OF inv Some] have "holders W i \<noteq> {}" by auto
    then show ?thesis using assms(2) by (force simp: holders_def)
  qed
  moreover have "\<exists>k < length (dw_tasks W). point W k = Finished (Fetched p)" if "p |\<in>| dw_files W" for p
    using reachable_accounted [OF assms(1)] that none assms(2) unfolding accounted_def by fastforce
  ultimately show ?thesis by (auto intro: fmap_ext)
qed

section \<open>Runs\<close>

definition ex_target :: "string \<Rightarrow> entry" where
  "ex_target p = \<lparr>e_path = p, e_kind = File, e_content_hash = Some (replicate 32 7), e_symlink_target = None,
     e_size = 3, e_mode = None, e_version = Version 1 ''n''\<rparr>"

definition two_tasks :: dl_world where
  "two_tasks = dl_start [(replicate 32 7, ex_target ''a''), (replicate 32 7, ex_target ''b'')]"

lemma run_reachable:
  assumes "dl_reachable ab W" "run_tasks xs W = Some W'" "ab \<or> Abort \<notin> fst ` set xs"
  shows "dl_reachable ab W'"
  using assms(1) run_tasks_reach [OF assms(2,3)] by (auto simp: dl_reachable_def intro: rtranclp_trans)

lemma two_tasks_reachable: "dl_reachable ab two_tasks"
  by (auto simp: dl_reachable_def two_tasks_def)

text \<open>The first task leads and the second waits; both get a copy.\<close>

definition good_run :: "(choice \<times> nat) list" where
  "good_run = [(Go, 0), (Go, 1), (Go, 1), (Go, 1), (Go, 0), (Go, 0), (Go, 1), (Go, 1), (Go, 0),
     (Go, 1), (Go, 0), (Go, 0), (Go, 0), (Go, 1), (Go, 1), (Go, 1)]"

theorem shared_downloads_are_safe_witness:
  "(case run_tasks (take 11 good_run) two_tasks of
      None \<Rightarrow> False
    | Some W \<Rightarrow> point W 0 = Copying 0 0 \<and> point W 1 = Copying 0 0 \<and> 0 |\<in>| dw_files W)"
proof -
  have "case run_tasks (take 11 good_run) two_tasks of None \<Rightarrow> False
      | Some W \<Rightarrow> length (dw_tasks W) = 2 \<and> point W 0 = Copying 0 0 \<and> point W 1 = Copying 0 0" by code_simp
  then obtain W where W: "run_tasks (take 11 good_run) two_tasks = Some W" "length (dw_tasks W) = 2"
    "point W 0 = Copying 0 0" "point W 1 = Copying 0 0" by (auto split: option.splits)
  have "dl_reachable False W" by (rule run_reachable [OF two_tasks_reachable W(1)]) (simp add: good_run_def)
  from shared_downloads_are_safe [OF this, of 0 1] W show ?thesis by simp
qed

theorem finished_downloads_clean_up_witness:
  "(case run_tasks good_run two_tasks of
      None \<Rightarrow> False
    | Some W \<Rightarrow> co_active (dw_coord W) = fmempty \<and> 0 |\<notin>| dw_files W)"
proof -
  have "case run_tasks good_run two_tasks of None \<Rightarrow> False
      | Some W \<Rightarrow> length (dw_tasks W) = 2 \<and> point W 0 = Finished (Fetched 1) \<and> point W 1 = Finished (Fetched 2)" by code_simp
  then obtain W where W: "run_tasks good_run two_tasks = Some W" "length (dw_tasks W) = 2"
    "point W 0 = Finished (Fetched 1)" "point W 1 = Finished (Fetched 2)" by (auto split: option.splits)
  have "dl_reachable False W" by (rule run_reachable [OF two_tasks_reachable W(1)]) (simp add: good_run_def)
  moreover have "\<forall>k < length (dw_tasks W). \<exists>out. point W k = Finished out" using W(2-4) by (auto simp: less_2_cases_iff)
  ultimately show ?thesis
    using finished_downloads_clean_up [of W] W by (auto simp: less_2_cases_iff)
qed

section \<open>Tasks that wait for ever\<close>

fun idle_point :: "task_point \<Rightarrow> bool" where
  "idle_point (Waiting _) \<longleftrightarrow> True"
| "idle_point (Finished _) \<longleftrightarrow> True"
| "idle_point Aborted \<longleftrightarrow> True"
| "idle_point _ \<longleftrightarrow> False"

lemma idle_stuck:
  assumes "\<forall>k < length (dw_tasks W). idle_point (point W k)"
  shows "\<not> dl_step False W W'"
proof
  assume "dl_step False W W'"
  then show False by (cases rule: dl_step.cases) (use assms in force)+
qed

definition all_idle :: "dl_world \<Rightarrow> bool" where
  "all_idle W \<longleftrightarrow> list_all (\<lambda>t. idle_point (dl_point t)) (dw_tasks W)"

lemma all_idle_stuck: "all_idle W \<Longrightarrow> \<not> dl_step False W W'"
  by (rule idle_stuck) (simp add: all_idle_def list_all_length)

text \<open>A lost wake-up: the second task has seen no result, the leader then stores the result and
  notifies, and only after that the second task starts to wait. The download succeeded and the
  second task waits for ever.\<close>

theorem wakeup_can_be_lost:
  "\<exists>W. dl_reachable False W \<and> point W 0 = Finished (Fetched 1) \<and> point W 1 = Waiting 0 \<and>
     ds_result (co_slots (dw_coord W) 0) = Some (Inr 0) \<and> (\<forall>W'. \<not> dl_step False W W')"
proof -
  let ?run = "[(Go, 0), (Go, 1), (Go, 1), (Go, 0), (Go, 0), (Go, 1), (Go, 0), (Go, 0), (Go, 0), (Go, 0)]"
  have "case run_tasks ?run two_tasks of None \<Rightarrow> False
      | Some W \<Rightarrow> all_idle W \<and> point W 0 = Finished (Fetched 1) \<and> point W 1 = Waiting 0 \<and>
          ds_result (co_slots (dw_coord W) 0) = Some (Inr 0)" by code_simp
  then obtain W where W: "run_tasks ?run two_tasks = Some W" "all_idle W" "point W 0 = Finished (Fetched 1)"
    "point W 1 = Waiting 0" "ds_result (co_slots (dw_coord W) 0) = Some (Inr 0)" by (auto split: option.splits)
  have "dl_reachable False W" by (rule run_reachable [OF two_tasks_reachable W(1)]) simp
  with W all_idle_stuck show ?thesis by blast
qed

text \<open>A leader that is aborted leaves its slot behind: the next task that wants the object waits
  for ever, with no download under way.\<close>

theorem aborted_leader_blocks_object:
  "\<exists>W. dl_reachable True W \<and> point W 0 = Aborted \<and> point W 1 = Waiting 0 \<and>
     ds_result (co_slots (dw_coord W) 0) = None \<and> (\<forall>W'. \<not> dl_step False W W')"
proof -
  let ?run = "[(Go, 0), (Abort, 0), (Go, 1), (Go, 1), (Go, 1)]"
  have "case run_tasks ?run two_tasks of None \<Rightarrow> False
      | Some W \<Rightarrow> all_idle W \<and> point W 0 = Aborted \<and> point W 1 = Waiting 0 \<and>
          ds_result (co_slots (dw_coord W) 0) = None" by code_simp
  then obtain W where W: "run_tasks ?run two_tasks = Some W" "all_idle W" "point W 0 = Aborted"
    "point W 1 = Waiting 0" "ds_result (co_slots (dw_coord W) 0) = None" by (auto split: option.splits)
  have "dl_reachable True W" by (rule run_reachable [OF two_tasks_reachable W(1)]) simp
  with W all_idle_stuck show ?thesis by blast
qed

text \<open>A waiting task that is aborted after the leader failed keeps the failed slot active: a later
  task for the same object fails with the old error, without a download.\<close>

theorem failed_download_is_not_retried:
  "(case run_tasks [(Go, 0), (Go, 1), (Go, 1), (Go, 1), (Fail ''timed out'', 0), (Go, 0), (Go, 0), (Go, 0), (Abort, 1),
        (Go, 2), (Go, 2), (Go, 2)]
      (dl_start [(replicate 32 7, ex_target ''a''), (replicate 32 7, ex_target ''b''), (replicate 32 7, ex_target ''a'')]) of
      None \<Rightarrow> False
    | Some W \<Rightarrow> map dl_point (dw_tasks W) = [Finished (Failed ''timed out''), Aborted, Finished (Failed ''timed out'')] \<and>
        co_active (dw_coord W) = fmupd (replicate 32 7) 0 fmempty)"
  by code_simp

end
