(* ===== verification/Lil_Daemon.thy ===== *)
theory Lil_Daemon
  imports Lil_Walk
begin

text \<open>
  The daemon, \<open>src/daemon.rs\<close>: what it remembers about the roots of its peers, when it publishes,
  the hints it sends, how it treats announcements, the reconciliation it starts for one, the
  garbage collection of tombstones, and the event loop. The shared parts behind locks are fields
  of one record, and a task spawned for a reconciliation is kept in a list until it is run. What
  is sent to peers is collected in the order it is published; delivery may fail and is not part of
  the model. Logging and the status view are left out.
\<close>

section \<open>Snapshots and activity\<close>

record state_snapshot =
  sn_state_root :: hash32
  sn_live_root :: hash32
  sn_lamport :: u64
  sn_state_nodes :: nat
  sn_live_nodes :: nat
  sn_gc_watermark :: gc_watermark

definition snapshot_from_state :: "folder_state \<Rightarrow> state_snapshot" where
  "snapshot_from_state s =
     \<lparr>sn_state_root = root_hash s, sn_live_root = live_root_hash s, sn_lamport = fo_lamport s,
      sn_state_nodes = fcard (fmdom (ts_nodes (fo_tree s))), sn_live_nodes = fcard (fmdom (ts_nodes (fo_live_tree s))),
      sn_gc_watermark = fo_gc_watermark s\<rparr>"

record sync_activity =
  sa_active :: bool
  sa_pending_rescan :: bool

definition activity_begin :: "sync_activity \<Rightarrow> sync_activity" where
  "activity_begin a = a\<lparr>sa_active := True\<rparr>"

definition activity_end :: "sync_activity \<Rightarrow> sync_activity" where
  "activity_end a = a\<lparr>sa_active := False\<rparr>"

definition defer_rescan :: "sync_activity \<Rightarrow> sync_activity" where
  "defer_rescan a = a\<lparr>sa_pending_rescan := True\<rparr>"

definition take_pending_rescan :: "sync_activity \<Rightarrow> bool \<times> sync_activity" where
  "take_pending_rescan a = (sa_pending_rescan a, a\<lparr>sa_pending_rescan := False\<rparr>)"

text \<open>\<open>StatusState\<close>: the peer a reconciliation is running with, shown by the status view.\<close>

definition begin_sync :: "node_id \<Rightarrow> node_id option \<Rightarrow> node_id option" where
  "begin_sync peer current = Some peer"

definition end_sync :: "node_id \<Rightarrow> node_id option \<Rightarrow> node_id option" where
  "end_sync peer current = (if current = Some peer then None else current)"

section \<open>When to publish\<close>

definition SYNC_STATE_HEARTBEAT_SECS :: nat where
  "SYNC_STATE_HEARTBEAT_SECS = 60"

definition PEERS_HEARTBEAT_SECS :: nat where
  "PEERS_HEARTBEAT_SECS = 300"

record sync_publish_marker =
  sm_state_root :: hash32
  sm_live_root :: hash32
  sm_lamport :: u64
  sm_gc_watermark :: gc_watermark

definition marker_from_snapshot :: "state_snapshot \<Rightarrow> sync_publish_marker" where
  "marker_from_snapshot sn =
     \<lparr>sm_state_root = sn_state_root sn, sm_live_root = sn_live_root sn, sm_lamport = sn_lamport sn,
      sm_gc_watermark = sn_gc_watermark sn\<rparr>"

record peer_marker =
  pm_id :: string
  pm_status :: member_status
  pm_lamport :: u64

definition peer_publish_marker :: "member_entry list \<Rightarrow> peer_marker list" where
  "peer_publish_marker members =
     map (\<lambda>m. \<lparr>pm_id = m_id m, pm_status = m_status m, pm_lamport = m_lamport m\<rparr>) members"

text \<open>Instants are seconds of a monotonic clock.\<close>

record publish_tracker =
  pt_last_sync :: "sync_publish_marker option"
  pt_last_sync_at :: "nat option"
  pt_last_peers :: "peer_marker list option"
  pt_last_peers_at :: "nat option"

definition should_publish_sync :: "nat \<Rightarrow> publish_tracker \<Rightarrow> state_snapshot \<Rightarrow> bool" where
  "should_publish_sync now t sn \<longleftrightarrow>
     pt_last_sync t \<noteq> Some (marker_from_snapshot sn) \<or>
     (case pt_last_sync_at t of None \<Rightarrow> True | Some at \<Rightarrow> SYNC_STATE_HEARTBEAT_SECS \<le> now - at)"

definition mark_sync :: "nat \<Rightarrow> state_snapshot \<Rightarrow> publish_tracker \<Rightarrow> publish_tracker" where
  "mark_sync now sn t = t\<lparr>pt_last_sync := Some (marker_from_snapshot sn), pt_last_sync_at := Some now\<rparr>"

definition should_publish_peers :: "nat \<Rightarrow> publish_tracker \<Rightarrow> member_entry list \<Rightarrow> bool" where
  "should_publish_peers now t members \<longleftrightarrow>
     pt_last_peers t \<noteq> Some (peer_publish_marker members) \<or>
     (case pt_last_peers_at t of None \<Rightarrow> True | Some at \<Rightarrow> PEERS_HEARTBEAT_SECS \<le> now - at)"

definition mark_peers :: "nat \<Rightarrow> member_entry list \<Rightarrow> publish_tracker \<Rightarrow> publish_tracker" where
  "mark_peers now members t =
     t\<lparr>pt_last_peers := Some (peer_publish_marker members), pt_last_peers_at := Some now\<rparr>"

section \<open>Reported roots\<close>

record root_report =
  re_state_root :: hash32
  re_live_root :: hash32
  re_lamport :: u64

type_synonym root_reports = "(string, root_report) fmap"

definition reports_update :: "string \<Rightarrow> root_report \<Rightarrow> root_reports \<Rightarrow> root_reports" where
  "reports_update origin report reports =
     (if (case fmlookup reports origin of None \<Rightarrow> True | Some old \<Rightarrow> re_lamport old \<le> re_lamport report)
      then fmupd origin report reports else reports)"

definition all_active_match :: "root_reports \<Rightarrow> hash32 \<Rightarrow> string list \<Rightarrow> bool" where
  "all_active_match reports local_root ids =
     list_all (\<lambda>id. case fmlookup reports id of None \<Rightarrow> False | Some r \<Rightarrow> re_state_root r = local_root) ids"

definition is_synced :: "root_reports \<Rightarrow> string \<Rightarrow> state_snapshot \<Rightarrow> bool" where
  "is_synced reports peer local =
     (case fmlookup reports peer of
        None \<Rightarrow> False
      | Some r \<Rightarrow> re_state_root r = sn_state_root local \<and> re_live_root r = sn_live_root local)"

fun root_report_from_message :: "gossip_message \<Rightarrow> (string \<times> root_report) option" where
  "root_report_from_message (SyncState origin sr lr l _ _ _) =
     Some (origin, \<lparr>re_state_root = sr, re_live_root = lr, re_lamport = l\<rparr>)"
| "root_report_from_message (FilesystemChanged origin sr lr l _) =
     Some (origin, \<lparr>re_state_root = sr, re_live_root = lr, re_lamport = l\<rparr>)"
| "root_report_from_message _ = None"

definition record_root_report :: "gossip_message \<Rightarrow> root_reports \<Rightarrow> root_reports" where
  "record_root_report message reports =
     (case root_report_from_message message of
        None \<Rightarrow> reports | Some (origin, report) \<Rightarrow> reports_update origin report reports)"

fun message_gc_watermark :: "gossip_message \<Rightarrow> gc_watermark option" where
  "message_gc_watermark (SyncState _ _ _ _ _ _ wm) = Some wm"
| "message_gc_watermark _ = None"

section \<open>Hints\<close>

definition MAX_FILESYSTEM_CHANGED_BYTES :: nat where
  "MAX_FILESYSTEM_CHANGED_BYTES = 3000"

definition push_hint_prefix :: "string \<Rightarrow> string list \<times> string fset \<Rightarrow> string list \<times> string fset" where
  "push_hint_prefix prefix = (\<lambda>(prefixes, seen).
     let normalized = trim_matches CHR ''/'' prefix
     in if normalized |\<in>| seen then (prefixes, seen) else (prefixes @ [normalized], finsert normalized seen))"

definition path_prefixes :: "string \<Rightarrow> string list" where
  "path_prefixes path =
     (let parts = filter (\<lambda>p. p \<noteq> []) (split_char CHR ''/'' (trim_matches CHR ''/'' path))
      in map (\<lambda>n. join_char CHR ''/'' (take n parts)) [1..<Suc (length parts)])"

text \<open>\<open>to_bytes\<close> is \<open>GossipMessage::to_bytes\<close>, the JSON form of a message.\<close>

definition filesystem_changed_len ::
    "(gossip_message \<Rightarrow> bytes) \<Rightarrow> state_snapshot \<Rightarrow> string \<Rightarrow> tree_hint option \<Rightarrow> nat" where
  "filesystem_changed_len to_bytes sn origin hint =
     length (to_bytes (FilesystemChanged origin (sn_state_root sn) (sn_live_root sn) (sn_lamport sn) hint))"

primrec hint_loop ::
    "(tree_hint \<Rightarrow> nat) \<Rightarrow> folder_state \<Rightarrow> string list \<Rightarrow> tree_hint \<Rightarrow> tree_hint" where
  "hint_loop len s [] hint = hint"
| "hint_loop len s (p # ps) hint =
     (case state_node s p of
        None \<Rightarrow> hint_loop len s ps hint
      | Some node \<Rightarrow>
          let candidate = hint\<lparr>th_nodes := th_nodes hint @ [node]\<rparr>
          in if len candidate \<le> MAX_FILESYSTEM_CHANGED_BYTES then hint_loop len s ps candidate
             else hint\<lparr>th_truncated := True\<rparr>)"

definition build_tree_hint ::
    "(gossip_message \<Rightarrow> bytes) \<Rightarrow> folder_state \<Rightarrow> change list \<Rightarrow> state_snapshot \<Rightarrow> string \<Rightarrow> tree_hint option" where
  "build_tree_hint to_bytes s changes sn origin =
     (let prefixes = fst (fold push_hint_prefix ([] # concat (map (\<lambda>c. path_prefixes (c_path c)) changes)) ([], {||}));
          hint = hint_loop (\<lambda>h. filesystem_changed_len to_bytes sn origin (Some h)) s prefixes
                   \<lparr>th_truncated = False, th_nodes = []\<rparr>
      in if th_nodes hint = [] then None else Some hint)"

section \<open>The daemon\<close>

record daemon_env =
  en_lib :: lib
  en_json :: json
  en_book_to_json :: "(string, peer_info) fmap \<Rightarrow> bytes option"
  en_to_bytes :: "gossip_message \<Rightarrow> bytes"
  en_interfaces :: "ip_addr list io_result"
  en_name :: "string option"
  en_port :: u16
  en_pid :: nat

record daemon =
  da_state :: folder_state
  da_fs :: fs
  da_group :: group_state
  da_reports :: root_reports
  da_activity :: sync_activity
  da_status :: "node_id option"
  da_book :: address_book
  da_tracker :: publish_tracker
  da_sent :: "(node_id \<times> gossip_message) list"
  da_probes :: "(node_id \<times> gossip_message) list"
  da_peer_requests :: "node_id list"
  da_origin :: string
  da_state_dir :: abspath
  da_recv :: nat
  da_request :: u64

definition publish :: "gossip_message \<Rightarrow> daemon \<Rightarrow> daemon" where
  "publish message d = d\<lparr>da_sent := da_sent d @ map (\<lambda>p. (p, message)) (active_peers (da_group d))\<rparr>"

definition publish_sync_state :: "state_snapshot \<Rightarrow> daemon \<Rightarrow> daemon" where
  "publish_sync_state sn d =
     publish (SyncState (da_origin d) (sn_state_root sn) (sn_live_root sn) (sn_lamport sn) (sn_state_nodes sn)
       (sn_live_nodes sn) (sn_gc_watermark sn)) d"

definition publish_filesystem_changed :: "state_snapshot \<Rightarrow> tree_hint option \<Rightarrow> daemon \<Rightarrow> daemon" where
  "publish_filesystem_changed sn hint d =
     publish (FilesystemChanged (da_origin d) (sn_state_root sn) (sn_live_root sn) (sn_lamport sn) hint) d"

definition publish_endpoints :: "daemon_env \<Rightarrow> daemon \<Rightarrow> daemon" where
  "publish_endpoints V d =
     publish (GossipEndpoints (da_origin d) (en_port V) (local_endpoints (en_interfaces V) (en_port V)) (en_name V)) d"

definition publish_peers :: "daemon \<Rightarrow> daemon" where
  "publish_peers d = publish (GossipPeers (da_origin d) (group_members (da_group d))) d"

text \<open>One task per peer asks for its member list; \<open>receive_peer_list\<close> is what the task does with the answer.\<close>

definition request_peer_lists :: "node_id list \<Rightarrow> daemon \<Rightarrow> daemon" where
  "request_peer_lists peers d = d\<lparr>da_peer_requests := da_peer_requests d @ peers\<rparr>"

text \<open>The answer of one peer to \<open>get_peers\<close> in \<open>request_peer_lists\<close>.\<close>

definition receive_peer_list :: "daemon_env \<Rightarrow> member_entry list io_result \<Rightarrow> daemon \<Rightarrow> daemon" where
  "receive_peer_list V answer d =
     (case answer of
        Inl _ \<Rightarrow> d
      | Inr members \<Rightarrow>
          (case merge_members (en_json V) members (da_group d) (da_fs d) of
             (Inl _, g, fs1) \<Rightarrow> d\<lparr>da_group := g, da_fs := fs1\<rparr>
           | (Inr update, g, fs1) \<Rightarrow>
               let d1 = d\<lparr>da_group := g, da_fs := fs1\<rparr>
               in if mm_changed update \<and> \<not> mm_removed_self update then publish_peers d1 else d1))"

definition apply_filesystem_paths :: "daemon_env \<Rightarrow> abspath list \<Rightarrow> daemon \<Rightarrow> daemon" where
  "apply_filesystem_paths V paths d =
     (case (if paths = [] then rescan (en_lib V) (da_state d) (da_fs d)
            else apply_paths (en_lib V) paths (da_state d) (da_fs d)) of
        (result, s1, fs1) \<Rightarrow>
          let d1 = d\<lparr>da_state := s1, da_fs := fs1\<rparr> in
          (case result of
             Inl _ \<Rightarrow> d1
           | Inr changes \<Rightarrow>
               if changes = [] then d1
               else let sn = snapshot_from_state s1;
                        hint = build_tree_hint (en_to_bytes V) s1 changes sn (da_origin d)
                    in publish_filesystem_changed sn hint d1))"

definition is_active_origin :: "group_state \<Rightarrow> string \<Rightarrow> bool" where
  "is_active_origin g origin = (case parse_node_id origin of Inl _ \<Rightarrow> False | Inr peer \<Rightarrow> is_active_member g peer)"

definition merge_remote_gc_watermark :: "daemon_env \<Rightarrow> gc_watermark option \<Rightarrow> daemon \<Rightarrow> state_snapshot option \<times> daemon" where
  "merge_remote_gc_watermark V wm d =
     (case wm of
        None \<Rightarrow> (None, d)
      | Some w \<Rightarrow>
          if w = fmempty then (None, d)
          else case merge_gc_watermark (en_lib V) w (da_state d) (da_fs d) of
                 ((_, pruned), s1, fs1) \<Rightarrow>
                   if pruned = 0 then (None, d\<lparr>da_state := s1, da_fs := fs1\<rparr>)
                   else (Some (snapshot_from_state s1),
                         d\<lparr>da_state := s1, da_fs := save_entries (en_lib V) s1 fs1\<rparr>))"

text \<open>The check reads the state, the group and the reports; the collection takes the write lock and
  goes on only when the root is still the one that was checked.\<close>

definition gc_check :: "daemon \<Rightarrow> hash32 option" where
  "gc_check d =
     (let local_root = root_hash (da_state d)
      in if all_active_match (da_reports d) local_root (active_peer_ids (da_group d)) then Some local_root else None)"

definition gc_collect :: "daemon_env \<Rightarrow> hash32 \<Rightarrow> daemon \<Rightarrow> daemon" where
  "gc_collect V local_root d =
     (if root_hash (da_state d) \<noteq> local_root then d
      else case gc_tombstones_for_converged_root (en_lib V) (da_state d) (da_fs d) of
             (pruned, s1, fs1) \<Rightarrow>
               if pruned = 0 then d\<lparr>da_state := s1, da_fs := fs1\<rparr>
               else publish_sync_state (snapshot_from_state s1)
                      (d\<lparr>da_state := s1, da_fs := save_entries (en_lib V) s1 fs1\<rparr>))"

definition maybe_gc_tombstones :: "daemon_env \<Rightarrow> daemon \<Rightarrow> daemon" where
  "maybe_gc_tombstones V d = (case gc_check d of None \<Rightarrow> d | Some local_root \<Rightarrow> gc_collect V local_root d)"

text \<open>The task is spawned for the two kinds of message that carry a root.\<close>

definition maybe_probe_remote_rpc :: "gossip_message \<Rightarrow> daemon \<Rightarrow> daemon" where
  "maybe_probe_remote_rpc message d =
     (case root_report_from_message message of
        None \<Rightarrow> d
      | Some (origin, _) \<Rightarrow>
          (case parse_node_id origin of
             Inl _ \<Rightarrow> d
           | Inr peer \<Rightarrow> d\<lparr>da_probes := da_probes d @ [(peer, message)]\<rparr>))"

definition dispatch_announcement ::
    "daemon_env \<Rightarrow> node_id \<Rightarrow> gossip_message \<Rightarrow> ip_addr \<Rightarrow> daemon \<Rightarrow> unit io_result \<times> daemon" where
  "dispatch_announcement V peer message source_ip d =
     (case message of
        GossipEndpoints _ listen_port advertised name \<Rightarrow>
          (case merge_peer_endpoints peer (Some (format_endpoint source_ip listen_port)) advertised name (da_book d) of
             (changed, book) \<Rightarrow>
               let d1 = d\<lparr>da_book := book\<rparr>
               in (Inr (), if changed
                           then d1\<lparr>da_fs := snd (save_address_book (en_book_to_json V) (da_fs d1) (da_state_dir d1) book)\<rparr>
                           else d1))
      | GossipPeers _ members \<Rightarrow>
          (case merge_members (en_json V) members (da_group d) (da_fs d) of
             (Inl e, g, fs1) \<Rightarrow> (Inl e, d\<lparr>da_group := g, da_fs := fs1\<rparr>)
           | (Inr _, g, fs1) \<Rightarrow> (Inr (), maybe_gc_tombstones V (d\<lparr>da_group := g, da_fs := fs1\<rparr>)))
      | _ \<Rightarrow> (Inr (), maybe_probe_remote_rpc message d))"

definition handle_announcement ::
    "daemon_env \<Rightarrow> node_id \<Rightarrow> gossip_message \<Rightarrow> ip_addr \<Rightarrow> daemon \<Rightarrow> unit io_result \<times> daemon" where
  "handle_announcement V peer message source_ip d =
     (if message_origin message \<noteq> node_id_to_string peer then (Inr (), d)
      else if message_origin message = da_origin d then (Inr (), d)
      else if \<not> is_active_origin (da_group d) (message_origin message) then (Inr (), d)
      else
        let (sn, d1) = merge_remote_gc_watermark V (message_gc_watermark message) d;
            d2 = (case sn of None \<Rightarrow> d1 | Some s \<Rightarrow> publish_sync_state s d1)
        in dispatch_announcement V peer message source_ip
             (d2\<lparr>da_reports := record_root_report message (da_reports d2)\<rparr>))"

section \<open>A reconciliation task\<close>

definition sync_view :: "daemon \<Rightarrow> sync_state" where
  "sync_view d = \<lparr>sy_state = da_state d, sy_fs = da_fs d, sy_recv = da_recv d, sy_request = da_request d\<rparr>"

definition with_sync :: "sync_state \<Rightarrow> daemon \<Rightarrow> daemon" where
  "with_sync S d = d\<lparr>da_state := sy_state S, da_fs := sy_fs S, da_recv := sy_recv S, da_request := sy_request S\<rparr>"

definition rescan_if_pending :: "daemon_env \<Rightarrow> daemon \<Rightarrow> daemon" where
  "rescan_if_pending V d =
     (case take_pending_rescan (da_activity d) of
        (pending, a) \<Rightarrow>
          let d1 = d\<lparr>da_activity := a\<rparr> in if pending then apply_filesystem_paths V [] d1 else d1)"

definition probe_sync :: "daemon_env \<Rightarrow> peer_rpc \<Rightarrow> node_id \<Rightarrow> gossip_message \<Rightarrow> daemon \<Rightarrow> (change list io_result option \<times> daemon) option" where
  "probe_sync V P peer message d =
     (let local = snapshot_from_state (da_state d);
          d1 = d\<lparr>da_activity := activity_begin (da_activity d), da_status := begin_sync peer (da_status d)\<rparr>;
          run = (\<lambda>r. case r of None \<Rightarrow> None | Some (res, S1) \<Rightarrow> Some (Some res, with_sync S1 d1))
      in case message of
           SyncState _ sr lr l _ _ _ \<Rightarrow>
             if sr = sn_state_root local \<and> lr = sn_live_root local then Some (None, d)
             else run (reconcile_with_peer (en_lib V) (en_pid V) P (sync_view d1))
         | FilesystemChanged _ sr lr l hint \<Rightarrow>
             if sr = sn_state_root local \<and> lr = sn_live_root local then Some (None, d)
             else run (reconcile_with_advertised_root (en_lib V) (en_pid V) P
                         \<lparr>rr_state_root = sr, rr_live_root = lr, rr_lamport = l, rr_hint = hint\<rparr> (sync_view d1))
         | _ \<Rightarrow> Some (None, d))"

text \<open>The body of the spawned task, under the reconciliation gate; \<open>None\<close> when the walk does not end.\<close>

definition probe_task :: "daemon_env \<Rightarrow> peer_rpc \<Rightarrow> node_id \<Rightarrow> gossip_message \<Rightarrow> daemon \<Rightarrow> daemon option" where
  "probe_task V P peer message d =
     (case probe_sync V P peer message d of
        None \<Rightarrow> None
      | Some (res, d1) \<Rightarrow>
          let d2 = (case res of
                      Some (Inr changes) \<Rightarrow>
                        if changes = [] then d1 else publish_sync_state (snapshot_from_state (da_state d1)) d1
                    | _ \<Rightarrow> d1);
              d3 = rescan_if_pending V d2;
              d4 = d3\<lparr>da_activity := activity_end (da_activity d3), da_status := end_sync peer (da_status d3)\<rparr>;
              d5 = rescan_if_pending V d4
          in Some (maybe_gc_tombstones V d5))"

section \<open>The event loop\<close>

datatype daemon_event =
    FilesystemEvent "abspath list"
  | Rpc rpc_event
  | AnnounceTick nat

fun on_event :: "daemon_env \<Rightarrow> daemon_event \<Rightarrow> daemon \<Rightarrow> daemon" where
  "on_event V (FilesystemEvent paths) d =
     (if sa_active (da_activity d) then d\<lparr>da_activity := defer_rescan (da_activity d)\<rparr>
      else apply_filesystem_paths V paths d)"
| "on_event V (Rpc (PeerJoined peer)) d = publish_endpoints V (publish_peers d)"
| "on_event V (Rpc (Announcement peer message source_ip)) d =
     snd (handle_announcement V peer message source_ip d)"
| "on_event V (AnnounceTick now) d =
     (let sn = snapshot_from_state (da_state d);
          d1 = (if should_publish_sync now (da_tracker d) sn
                then let e = publish_sync_state sn d in e\<lparr>da_tracker := mark_sync now sn (da_tracker e)\<rparr>
                else d);
          members = group_members (da_group d1)
      in if should_publish_peers now (da_tracker d1) members
         then let e = publish_endpoints V (publish_peers d1) in e\<lparr>da_tracker := mark_peers now members (da_tracker e)\<rparr>
         else d1)"

text \<open>What is sent at start-up, before the loop; \<open>bootstrap\<close> are the peers known when the group was loaded.\<close>

definition start_publishing :: "daemon_env \<Rightarrow> nat \<Rightarrow> node_id list \<Rightarrow> daemon \<Rightarrow> daemon" where
  "start_publishing V now bootstrap d =
     (let sn = snapshot_from_state (da_state d);
          d1 = request_peer_lists bootstrap (publish_endpoints V (publish_peers (publish_sync_state sn d)));
          d2 = d1\<lparr>da_tracker := mark_peers now (group_members (da_group d1)) (mark_sync now sn (da_tracker d1))\<rparr>
      in maybe_gc_tombstones V d2)"

end
