(* ===== verification/Lil_DaemonFacts.thy ===== *)
theory Lil_DaemonFacts
  imports Lil_Daemon Lil_Gc
begin

text \<open>
  What the daemon guarantees: the hints it sends fit in the message and pass the receiver's check,
  announcements only speak for the peer that made them, tombstones are collected only when every
  active peer reported the same root, and a tick of the timer publishes what has changed.
\<close>

section \<open>Hints\<close>

lemma hint_loop_nodes:
  assumes "hint_loop len s ps h = h'"
  shows "\<exists>new. th_nodes h' = th_nodes h @ new \<and> (\<forall>n \<in> set new. \<exists>p \<in> set ps. state_node s p = Some n)"
    and "\<not> th_truncated h' \<Longrightarrow> p \<in> set ps \<Longrightarrow> state_node s p = Some n \<Longrightarrow> n \<in> set (th_nodes h')"
proof -
  have "(\<exists>new. th_nodes h' = th_nodes h @ new \<and> (\<forall>n \<in> set new. \<exists>p \<in> set ps. state_node s p = Some n)) \<and>
      (\<not> th_truncated h' \<longrightarrow> (\<forall>p \<in> set ps. \<forall>n. state_node s p = Some n \<longrightarrow> n \<in> set (th_nodes h')))"
    using assms
  proof (induction ps arbitrary: h)
    case (Cons p ps)
    show ?case
    proof (cases "state_node s p")
      case None
      with Cons.IH [of h] Cons.prems show ?thesis by auto
    next
      case (Some node)
      let ?c = "h\<lparr>th_nodes := th_nodes h @ [node]\<rparr>"
      show ?thesis
      proof (cases "len ?c \<le> MAX_FILESYSTEM_CHANGED_BYTES")
        case True
        with Cons.IH [of ?c] Cons.prems Some show ?thesis by (auto simp: Let_def)
      next
        case False
        with Cons.prems Some have "h' = h\<lparr>th_truncated := True\<rparr>" by (simp add: Let_def)
        then show ?thesis by simp
      qed
    qed
  qed simp
  then show "\<exists>new. th_nodes h' = th_nodes h @ new \<and> (\<forall>n \<in> set new. \<exists>p \<in> set ps. state_node s p = Some n)"
    and "\<not> th_truncated h' \<Longrightarrow> p \<in> set ps \<Longrightarrow> state_node s p = Some n \<Longrightarrow> n \<in> set (th_nodes h')"
    by blast+
qed

lemma hint_loop_fits:
  assumes "\<And>h. len (h\<lparr>th_truncated := True\<rparr>) \<le> len h"
    and "th_nodes h = [] \<or> len h \<le> MAX_FILESYSTEM_CHANGED_BYTES"
  shows "th_nodes (hint_loop len s ps h) = [] \<or> len (hint_loop len s ps h) \<le> MAX_FILESYSTEM_CHANGED_BYTES"
  using assms(2)
proof (induction ps arbitrary: h)
  case (Cons p ps)
  show ?case
    using Cons.prems assms(1) [of h] by (auto simp: Let_def split: option.split intro!: Cons.IH elim: order_trans)
qed simp

lemma push_hint_prefix_simp:
  "push_hint_prefix x (ps, seen) =
     (if trim_matches CHR ''/'' x |\<in>| seen then (ps, seen)
      else (ps @ [trim_matches CHR ''/'' x], finsert (trim_matches CHR ''/'' x) seen))"
  by (simp add: push_hint_prefix_def Let_def)

lemma push_prefixes:
  assumes "fset seen = set ps" "fold push_hint_prefix xs (ps, seen) = (ps', seen')"
  shows "\<exists>new. ps' = ps @ new" "set ps' = set ps \<union> trim_matches CHR ''/'' ` set xs"
proof -
  have "(\<exists>new. ps' = ps @ new) \<and> set ps' = set ps \<union> trim_matches CHR ''/'' ` set xs"
    using assms
  proof (induction xs arbitrary: ps seen)
    case (Cons x xs)
    let ?n = "trim_matches CHR ''/'' x"
    show ?case
    proof (cases "?n |\<in>| seen")
      case True
      with Cons.prems have "fold push_hint_prefix xs (ps, seen) = (ps', seen')" by (simp add: push_hint_prefix_simp)
      from Cons.IH [OF Cons.prems(1) this] True Cons.prems(1) show ?thesis by auto
    next
      case False
      with Cons.prems have "fold push_hint_prefix xs (ps @ [?n], finsert ?n seen) = (ps', seen')"
        by (simp add: push_hint_prefix_simp)
      from Cons.IH [OF _ this] Cons.prems(1) show ?thesis by auto
    qed
  qed simp
  then show "\<exists>new. ps' = ps @ new" "set ps' = set ps \<union> trim_matches CHR ''/'' ` set xs" by blast+
qed

lemma normalize_display:
  assumes "clean_prefix q"
  shows "normalize_prefix (display_prefix q) = q"
proof (cases "q = []")
  case True
  then show ?thesis
    by (simp add: display_prefix_def normalize_prefix_def trim_matches_def trim_start_matches_def trim_end_matches_def)
next
  case False
  have q: "trim_matches CHR ''/'' q = q" using clean_prefix_normal [OF assms] by (simp add: normalize_prefix_def)
  with False have "hd q \<noteq> CHR ''/''" "last q \<noteq> CHR ''/''"
    using clean_path_rel [of q] clean_path_sep [of "butlast q" "[]"] clean_path_not_Nil [of "[]"] assms
    by (auto simp: clean_prefix_def rel_path_def starts_with_iff) (metis append_butlast_last_id clean_path_sep list.collapse)+
  then have "dropWhile (\<lambda>x. x = CHR ''/'') (q @ ''/'') = q @ ''/''" "dropWhile (\<lambda>x. x = CHR ''/'') (rev q) = rev q"
    using False by (simp_all add: dropWhile_eq_self_iff hd_rev)
  with False show ?thesis
    by (simp add: display_prefix_def normalize_prefix_def trim_matches_def trim_start_matches_def trim_end_matches_def)
qed

lemma hinted_node_found:
  assumes m: "merkle H E incl_all (ts_nodes (fo_tree s))" and clean: "fmpred (\<lambda>p _. clean_prefix p) (ts_nodes (fo_tree s))"
    and hint: "\<forall>n \<in> set (th_nodes hint). \<exists>p. fmlookup (ts_nodes (fo_tree s)) p = Some n"
    and n: "n \<in> set (th_nodes hint)" "fmlookup (ts_nodes (fo_tree s)) p = Some n"
  shows "hinted_get (hinted_from H hint) p (tn_hash n) = Some n"
proof -
  let ?m = "ts_nodes (fo_tree s)"
  have c: "clean_prefix q" if "fmlookup ?m q = Some x" for q x using fmpredD [OF clean that] .
  have key: "normalize_prefix (tn_prefix x) = q" "tree_node_hash H x = tn_hash x" if "fmlookup ?m q = Some x" for q x
    using merkle_nodeD(1,4) [OF m that] normalize_display [OF c [OF that]] by (simp_all add: tree_node_hash_def)
  have "fmlookup (hinted_from H hint) p = Some n"
    unfolding hinted_from_def
  proof (rule fm_collect_functional [THEN iffD2])
    let ?L = "map (\<lambda>n. (normalize_prefix (tn_prefix n), n)) (filter (\<lambda>n. tree_node_hash H n = tn_hash n) (th_nodes hint))"
    show "v = n" if "(p, v) \<in> set ?L" for v
    proof -
      from that obtain q where "normalize_prefix (tn_prefix v) = p" "fmlookup ?m q = Some v" using hint by auto
      with key(1) [of q v] n(2) show ?thesis by simp
    qed
    show "(p, n) \<in> set ?L" using n key [OF n(2)] by force
  qed
  then show ?thesis using clean_prefix_normal [OF c [OF n(2)]] by (simp add: hinted_get_def)
qed

text \<open>
  C11. Hints: whatever changed, the announcement with its hint stays within the size limit; the
  hint starts with the root node and, unless it is marked as truncated, contains every node on the
  path to a change; and the receiver's check accepts each of its nodes, so that it is found when
  the walk asks for that prefix and hash. The one assumption on the JSON form is that the flag
  makes a message no longer.
\<close>

theorem tree_hint_is_usable:
  assumes "build_tree_hint to_bytes s changes sn origin = Some hint"
    and "\<And>h. filesystem_changed_len to_bytes sn origin (Some (h\<lparr>th_truncated := True\<rparr>)) \<le>
      filesystem_changed_len to_bytes sn origin (Some h)"
    and "merkle H E incl_all (ts_nodes (fo_tree s))" "fmpred (\<lambda>p _. clean_prefix p) (ts_nodes (fo_tree s))"
  shows "filesystem_changed_len to_bytes sn origin (Some hint) \<le> MAX_FILESYSTEM_CHANGED_BYTES \<and>
    (\<forall>r. state_node s [] = Some r \<longrightarrow> hd (th_nodes hint) = r) \<and>
    (\<not> th_truncated hint \<longrightarrow> (\<forall>c \<in> set changes. \<forall>p \<in> set (path_prefixes (c_path c)). \<forall>n.
       state_node s p = Some n \<longrightarrow> n \<in> set (th_nodes hint))) \<and>
    (\<forall>n \<in> set (th_nodes hint). \<exists>p. fmlookup (ts_nodes (fo_tree s)) p = Some n \<and>
       hinted_get (hinted_from H hint) p (tn_hash n) = Some n)"
proof -
  let ?len = "\<lambda>h. filesystem_changed_len to_bytes sn origin (Some h)"
  let ?xs = "[] # concat (map (\<lambda>c. path_prefixes (c_path c)) changes)"
  obtain ps seen where ps: "fold push_hint_prefix ?xs ([], {||}) = (ps, seen)" by fastforce
  have hint: "hint = hint_loop ?len s ps \<lparr>th_truncated = False, th_nodes = []\<rparr>" "th_nodes hint \<noteq> []"
    using assms(1) ps by (auto simp: build_tree_hint_def Let_def split: if_splits)
  note loop = hint_loop_nodes [OF hint(1) [symmetric]] and push = push_prefixes(2) [OF _ ps]
  have "?len hint \<le> MAX_FILESYSTEM_CHANGED_BYTES"
    using hint hint_loop_fits [of ?len "\<lparr>th_truncated = False, th_nodes = []\<rparr>" s ps] assms(2) by auto
  moreover have "hd (th_nodes hint) = r" if r: "state_node s [] = Some r" for r
  proof -
    have nil: "trim_matches CHR ''/'' [] = []" by (simp add: trim_matches_def trim_start_matches_def trim_end_matches_def)
    have "fold push_hint_prefix (concat (map (\<lambda>c. path_prefixes (c_path c)) changes)) ([[]], {|[]|}) = (ps, seen)"
      using ps by (simp add: push_hint_prefix_simp nil)
    from push_prefixes(1) [OF _ this] obtain new where new: "ps = [] # new" by auto
    let ?c = "\<lparr>th_truncated = False, th_nodes = [r]\<rparr>"
    have "hint = hint_loop ?len s new ?c" using hint r new by (auto simp: Let_def split: if_splits)
    from hint_loop_nodes(1) [OF this [symmetric]] show ?thesis by auto
  qed
  moreover have "n \<in> set (th_nodes hint)"
    if "\<not> th_truncated hint" "c \<in> set changes" "p \<in> set (path_prefixes (c_path c))" "state_node s p = Some n" for c p n
  proof -
    have "trim_matches CHR ''/'' p \<in> set ps" using push that(2,3) by auto
    moreover have "fmlookup (ts_nodes (fo_tree s)) (normalize_prefix p) = Some n" using that(4) by (simp add: state_node_def)
    with clean_prefix_normal [OF fmpredD [OF assms(4) this]] have "state_node s (trim_matches CHR ''/'' p) = Some n"
      by (simp add: state_node_def normalize_prefix_def)
    ultimately show ?thesis using loop(2) that(1) by blast
  qed
  moreover have nodes: "\<exists>p. fmlookup (ts_nodes (fo_tree s)) p = Some n" if "n \<in> set (th_nodes hint)" for n
    using loop(1) that by (force simp: state_node_def)
  ultimately show ?thesis using hinted_node_found [OF assms(3,4)] by blast
qed

definition ex_to_bytes :: "gossip_message \<Rightarrow> bytes" where
  "ex_to_bytes m =
     (case m of
        FilesystemChanged origin sr lr l (Some h) \<Rightarrow>
          as_bytes origin @ sr @ lr @ concat (map (\<lambda>n. as_bytes (tn_prefix n) @ tn_hash n) (th_nodes h))
      | _ \<Rightarrow> [])"

definition ex_change :: change where
  "ex_change = \<lparr>c_path = ''a'', c_old = None, c_new = one_entry\<rparr>"

theorem tree_hint_is_usable_witness:
  "(let s = at_index one_index; sn = snapshot_from_state s;
        hint = the (build_tree_hint ex_to_bytes s [ex_change] sn ''n'')
    in length (th_nodes hint) = 1 \<and>
       hinted_get (hinted_from table_hash hint) [] (root_hash s) = Some (hd (th_nodes hint)))"
proof -
  let ?s = "at_index one_index" and ?sn = "snapshot_from_state (at_index one_index)"
  have "let s = at_index one_index; nodes = ts_nodes (fo_tree s) in
      case build_tree_hint ex_to_bytes s [ex_change] (snapshot_from_state s) ''n'' of None \<Rightarrow> False | Some h \<Rightarrow> length (th_nodes h) = 1 \<and>
      fmpred (\<lambda>p _. clean_prefix p) nodes \<and> tn_hash (hd (th_nodes h)) = root_hash s \<and> fm_keys nodes = [[]]" by code_simp
  then have b: "case build_tree_hint ex_to_bytes ?s [ex_change] ?sn ''n'' of None \<Rightarrow> False | Some h \<Rightarrow> length (th_nodes h) = 1 \<and>
      fmpred (\<lambda>p _. clean_prefix p) (ts_nodes (fo_tree ?s)) \<and> tn_hash (hd (th_nodes h)) = root_hash ?s \<and>
      fm_keys (ts_nodes (fo_tree ?s)) = [[]]" by (simp only: Let_def)
  then obtain h where h: "build_tree_hint ex_to_bytes ?s [ex_change] ?sn ''n'' = Some h" "length (th_nodes h) = 1"
    "tn_hash (hd (th_nodes h)) = root_hash ?s" by (auto split: option.splits)
  have clean: "fmpred (\<lambda>p _. clean_prefix p) (ts_nodes (fo_tree ?s))" and "fm_keys (ts_nodes (fo_tree ?s)) = [[]]"
    using b by (simp_all split: option.splits)
  then have keys: "p = []" if "fmlookup (ts_nodes (fo_tree ?s)) p = Some n" for p n
    using that fm_keys_set [of "ts_nodes (fo_tree ?s)"] by (auto simp: fmlookup_dom'_iff)
  have m: "merkle table_hash one_index incl_all (ts_nodes (fo_tree ?s))"
    using derived_merkle [of table_hash one_index] by (simp add: at_index_def)
  have len: "filesystem_changed_len ex_to_bytes ?sn ''n'' (Some (h\<lparr>th_truncated := True\<rparr>)) \<le>
      filesystem_changed_len ex_to_bytes ?sn ''n'' (Some h)" for h
    by (simp add: filesystem_changed_len_def ex_to_bytes_def)
  have "hd (th_nodes h) \<in> set (th_nodes h)" using h(2) by (cases "th_nodes h") auto
  with tree_hint_is_usable [OF h(1) len m clean] obtain p where
    p: "fmlookup (ts_nodes (fo_tree ?s)) p = Some (hd (th_nodes h))"
    "hinted_get (hinted_from table_hash h) p (tn_hash (hd (th_nodes h))) = Some (hd (th_nodes h))" by blast
  with keys [OF p(1)] h show ?thesis by (simp add: Let_def)
qed

section \<open>Announcements\<close>

lemma publish_simps [simp]:
  "da_state (publish m d) = da_state d" "da_fs (publish m d) = da_fs d" "da_group (publish m d) = da_group d"
  "da_reports (publish m d) = da_reports d" "da_activity (publish m d) = da_activity d" "da_book (publish m d) = da_book d"
  "da_tracker (publish m d) = da_tracker d" "da_origin (publish m d) = da_origin d" "da_probes (publish m d) = da_probes d"
  "da_status (publish m d) = da_status d"
  by (simp_all add: publish_def)

lemmas publish_defs = publish_sync_state_def publish_peers_def publish_endpoints_def publish_filesystem_changed_def

lemma merge_keeps_live:
  assumes "merge_gc_watermark X w s fs = ((c, pruned), s', fs')" "fmlookup (fo_entries s) k = Some e" "e_kind e \<noteq> Tombstone"
  shows "fmlookup (fo_entries s') k = Some e"
proof -
  obtain s2 s3 where s2: "fo_entries s2 = fo_entries s" and pr: "prune_tombstones_covered_by_watermark X s2 = (pruned, s3)"
    and s': "s' = (if 0 < pruned then s3\<lparr>fo_lamport := fo_lamport s3 + 1\<rparr> else s3)"
    using assms(1) by (rule merge_gc_watermark_cases)
  have "\<not> gc_covered s2 e" using assms(3) by (simp add: gc_covered_def)
  with prune_lookup [OF pr, of k e] assms(2) s2 s' show ?thesis by simp
qed

lemma maybe_gc_unfold:
  "maybe_gc_tombstones V d =
     (if \<not> all_active_match (da_reports d) (root_hash (da_state d)) (active_peer_ids (da_group d)) then d
      else case gc_tombstones_for_converged_root (en_lib V) (da_state d) (da_fs d) of
             (pruned, s1, fs1) \<Rightarrow>
               if pruned = 0 then d\<lparr>da_state := s1, da_fs := fs1\<rparr>
               else publish_sync_state (snapshot_from_state s1)
                      (d\<lparr>da_state := s1, da_fs := save_entries (en_lib V) s1 fs1\<rparr>))"
  by (simp add: maybe_gc_tombstones_def gc_check_def gc_collect_def Let_def)

lemma gc_keeps_live:
  assumes "fmlookup (fo_entries (da_state d)) k = Some e" "e_kind e \<noteq> Tombstone"
  shows "fmlookup (fo_entries (da_state (maybe_gc_tombstones V d))) k = Some e"
  using assms merge_keeps_live
  by (fastforce simp: maybe_gc_unfold gc_tombstones_for_converged_root_def publish_defs Let_def
      split: if_splits prod.splits)

lemma watermark_keeps_live:
  assumes "merge_remote_gc_watermark V w d = (sn, d')" "fmlookup (fo_entries (da_state d)) k = Some e" "e_kind e \<noteq> Tombstone"
  shows "fmlookup (fo_entries (da_state d')) k = Some e"
  using assms merge_keeps_live
  by (fastforce simp: merge_remote_gc_watermark_def split: option.splits if_splits prod.splits)

lemma watermark_frame:
  assumes "merge_remote_gc_watermark V w d = (sn, d')"
  shows "da_reports d' = da_reports d" "da_book d' = da_book d" "da_group d' = da_group d"
  using assms by (auto simp: merge_remote_gc_watermark_def split: option.splits if_splits prod.splits)

lemma gc_frame [simp]:
  "da_reports (maybe_gc_tombstones V d) = da_reports d" "da_book (maybe_gc_tombstones V d) = da_book d"
  "da_group (maybe_gc_tombstones V d) = da_group d" "da_activity (maybe_gc_tombstones V d) = da_activity d"
  "da_status (maybe_gc_tombstones V d) = da_status d"
  by (auto simp: maybe_gc_unfold publish_defs split: prod.splits)

lemma probe_frame [simp]:
  "da_reports (maybe_probe_remote_rpc m d) = da_reports d" "da_book (maybe_probe_remote_rpc m d) = da_book d"
  "da_state (maybe_probe_remote_rpc m d) = da_state d"
  by (auto simp: maybe_probe_remote_rpc_def split: option.splits prod.splits sum.splits)

lemma record_report_other:
  "q \<noteq> message_origin m \<Longrightarrow> fmlookup (record_root_report m r) q = fmlookup r q"
  by (cases m) (auto simp: record_root_report_def reports_update_def)

lemma merge_endpoints_other:
  "merge_peer_endpoints peer ob ad nm b = (c, b') \<Longrightarrow> q \<noteq> peer \<Longrightarrow> fmlookup b' q = fmlookup b q"
  by (auto simp: merge_peer_endpoints_def Let_def split: if_splits option.splits)

lemma active_origin_member:
  assumes "is_active_origin g (node_id_to_string peer)"
  shows "is_active_member g peer"
proof -
  obtain q where q: "parse_node_id (node_id_to_string peer) = Inr q" "is_active_member g q"
    using assms by (auto simp: is_active_origin_def split: sum.splits)
  then have "length peer = 32" by (auto simp: parse_node_id_def split: if_splits)
  with q parse_node_id_display [of peer] show ?thesis by simp
qed

text \<open>
  C12. An announcement speaks only for the peer that made it: it is ignored, without any effect,
  unless the origin it claims is the authenticated peer and that peer is an active member; and
  then it changes no other peer's reported root and no other peer's addresses, and it never
  removes or alters a live entry of the index.
\<close>

theorem announcements_are_authenticated:
  assumes "handle_announcement V peer message source_ip d = (r, d')"
  shows "(message_origin message \<noteq> node_id_to_string peer \<or> \<not> is_active_member (da_group d) peer \<longrightarrow> d' = d) \<and>
    (\<forall>q. q \<noteq> node_id_to_string peer \<longrightarrow> fmlookup (da_reports d') q = fmlookup (da_reports d) q) \<and>
    (\<forall>q. q \<noteq> peer \<longrightarrow> fmlookup (da_book d') q = fmlookup (da_book d) q) \<and>
    (\<forall>k e. fmlookup (fo_entries (da_state d)) k = Some e \<longrightarrow> e_kind e \<noteq> Tombstone \<longrightarrow>
       fmlookup (fo_entries (da_state d')) k = Some e)"
proof (cases "message_origin message = node_id_to_string peer \<and> message_origin message \<noteq> da_origin d \<and>
    is_active_origin (da_group d) (message_origin message)")
  case False
  then have "d' = d" using assms by (auto simp: handle_announcement_def split: if_splits)
  then show ?thesis by simp
next
  case True
  obtain sn d1 where w: "merge_remote_gc_watermark V (message_gc_watermark message) d = (sn, d1)" by fastforce
  define d3 where "d3 = (let d2 = (case sn of None \<Rightarrow> d1 | Some s \<Rightarrow> publish_sync_state s d1)
    in d2\<lparr>da_reports := record_root_report message (da_reports d2)\<rparr>)"
  have live: "fmlookup (fo_entries (da_state d3)) k = Some e"
    if "fmlookup (fo_entries (da_state d)) k = Some e" "e_kind e \<noteq> Tombstone" for k e
    using watermark_keeps_live [OF w that] by (simp add: d3_def Let_def publish_defs split: option.split)
  have reports: "fmlookup (da_reports d3) q = fmlookup (da_reports d) q" if "q \<noteq> node_id_to_string peer" for q
    using record_report_other [of q message] that True watermark_frame(1) [OF w]
    by (simp add: d3_def Let_def publish_defs split: option.split)
  have book: "da_book d3 = da_book d" using watermark_frame(2) [OF w] by (simp add: d3_def Let_def publish_defs split: option.split)
  have res: "dispatch_announcement V peer message source_ip d3 = (r, d')"
    using assms w conjunct1 [OF True] conjunct1 [OF conjunct2 [OF True]] conjunct2 [OF conjunct2 [OF True]]
    unfolding handle_announcement_def d3_def Let_def by (simp add: publish_defs)
  have "is_active_member (da_group d) peer" using True active_origin_member by metis
  moreover have "(\<forall>q. q \<noteq> node_id_to_string peer \<longrightarrow> fmlookup (da_reports d') q = fmlookup (da_reports d3) q) \<and>
      (\<forall>q. q \<noteq> peer \<longrightarrow> fmlookup (da_book d') q = fmlookup (da_book d3) q) \<and>
      (\<forall>k e. fmlookup (fo_entries (da_state d3)) k = Some e \<longrightarrow> e_kind e \<noteq> Tombstone \<longrightarrow>
         fmlookup (fo_entries (da_state d')) k = Some e)"
    using res
    by (cases message)
       (auto simp: dispatch_announcement_def Let_def merge_endpoints_other gc_keeps_live split: prod.splits sum.splits)
  ultimately show ?thesis using True live reports book by auto
qed

definition ex_env :: daemon_env where
  "ex_env =
     \<lparr>en_lib = sync_lib, en_json = ex_json, en_book_to_json = (\<lambda>_. Some [3]), en_to_bytes = ex_to_bytes,
      en_interfaces = Inr [V4 [10, 0, 0, 1]], en_name = None, en_port = 4000, en_pid = 7\<rparr>"

definition ex_tracker :: publish_tracker where
  "ex_tracker = \<lparr>pt_last_sync = None, pt_last_sync_at = None, pt_last_peers = None, pt_last_peers_at = None\<rparr>"

definition ex_members :: group_state where
  "ex_members = ex_group 1 [ex_member 1 Active 1, ex_member 2 Active 2, ex_member 3 Removed 3]"

definition ex_daemon :: daemon where
  "ex_daemon =
     \<lparr>da_state = at_index one_index, da_fs = ex_fs, da_group = ex_members,
      da_reports = fmempty, da_activity = \<lparr>sa_active = False, sa_pending_rescan = False\<rparr>, da_status = None, da_book = fmempty,
      da_tracker = ex_tracker, da_sent = [], da_probes = [], da_peer_requests = [], da_origin = node_id_to_string (ex_node 1),
      da_state_dir = [''r'', ''.lil''], da_recv = 0, da_request = 1\<rparr>"

theorem announcements_are_authenticated_witness:
  "snd (handle_announcement ex_env (ex_node 3)
     (SyncState (node_id_to_string (ex_node 2)) (replicate 32 2) zero_hash 9 1 1 fmempty) (V4 [10, 0, 0, 2]) ex_daemon) = ex_daemon"
proof -
  let ?m = "SyncState (node_id_to_string (ex_node 2)) (replicate 32 2) zero_hash 9 1 1 fmempty"
  have "message_origin ?m \<noteq> node_id_to_string (ex_node 3)" by code_simp
  with announcements_are_authenticated [OF prod.collapse [symmetric]] show ?thesis by blast
qed

section \<open>Garbage collection\<close>


text \<open>
  The timer: a tick at which the roots, the clock or the watermark differ from what was last
  published sends the new state to every active peer; it changes nothing but what was sent and the
  record of it; and a tick less than a heartbeat after one that published, with nothing changed in
  between, sends nothing.
\<close>

theorem tick_publishes_changes:
  assumes "d1 = on_event V (AnnounceTick now) d" "sn = snapshot_from_state (da_state d)"
    and "pt_last_sync (da_tracker d) \<noteq> Some (marker_from_snapshot sn)"
    and "should_publish_peers now (da_tracker d) (group_members (da_group d))"
  shows "(\<forall>p \<in> set (active_peers (da_group d)).
      (p, SyncState (da_origin d) (sn_state_root sn) (sn_live_root sn) (sn_lamport sn) (sn_state_nodes sn)
        (sn_live_nodes sn) (sn_gc_watermark sn)) \<in> set (da_sent d1)) \<and>
    d1\<lparr>da_sent := da_sent d, da_tracker := da_tracker d\<rparr> = d \<and>
    (\<forall>later. now \<le> later \<longrightarrow> later < now + SYNC_STATE_HEARTBEAT_SECS \<longrightarrow> on_event V (AnnounceTick later) d1 = d1)"
proof -
  have sync: "should_publish_sync now (da_tracker d) sn" using assms(3) by (simp add: should_publish_sync_def)
  have peers: "should_publish_peers now (mark_sync now sn (da_tracker d)) (group_members (da_group d))"
    using assms(4) by (simp add: should_publish_peers_def mark_sync_def)
  have d1: "d1 = (let e = publish_sync_state sn d; f = publish_endpoints V (publish_peers (e\<lparr>da_tracker := mark_sync now sn (da_tracker e)\<rparr>))
      in f\<lparr>da_tracker := mark_peers now (group_members (da_group d)) (da_tracker f)\<rparr>)"
    using assms(1,2) sync peers by (simp add: Let_def publish_defs)
  have "on_event V (AnnounceTick later) d1 = d1" if "now \<le> later" "later < now + SYNC_STATE_HEARTBEAT_SECS" for later
    using that unfolding d1
    by (simp add: Let_def publish_defs should_publish_sync_def should_publish_peers_def mark_sync_def mark_peers_def
        SYNC_STATE_HEARTBEAT_SECS_def PEERS_HEARTBEAT_SECS_def assms(2))
  moreover have "d1\<lparr>da_sent := da_sent d, da_tracker := da_tracker d\<rparr> = d"
    unfolding d1 by (simp add: Let_def publish_defs publish_def)
  moreover have "(p, SyncState (da_origin d) (sn_state_root sn) (sn_live_root sn) (sn_lamport sn) (sn_state_nodes sn)
      (sn_live_nodes sn) (sn_gc_watermark sn)) \<in> set (da_sent d1)" if "p \<in> set (active_peers (da_group d))" for p
    using that unfolding d1 by (auto simp: Let_def publish_defs publish_def)
  ultimately show ?thesis by blast
qed

definition gone_entry :: entry where
  "gone_entry = tombstone_entry ''a'' one_entry (Version 9 ''n'')"

definition gone_index :: index where
  "gone_index = fmupd ''a'' gone_entry fmempty"

definition gone_hash :: hasher where
  "gone_hash b = (if b = entry_preimage gone_entry then replicate 32 1 else if b = one_root then replicate 32 2
     else replicate 32 0)"

lemma gone_committed: "committed gone_hash gone_index (ts_nodes (derive_tree gone_hash gone_index))"
proof -
  have v: "map entry_preimage (fm_values gone_index) = [entry_preimage gone_entry] \<and>
      map node_image (fm_values (ts_nodes (derive_tree gone_hash gone_index))) = [one_root]" by code_simp
  then have im: "entry_preimage ` set (fm_values gone_index) = {entry_preimage gone_entry}"
    "node_image ` set (fm_values (ts_nodes (derive_tree gone_hash gone_index))) = {one_root}"
    by (metis list.set(1,2) set_map)+
  have d: "entry_preimage gone_entry \<noteq> one_root \<and> short (entry_preimage gone_entry) \<and> short one_root \<and>
      distinct [replicate 32 0 :: bytes, replicate 32 1, replicate 32 2]" by code_simp
  have "digest_length gone_hash" by (simp add: digest_length_def gone_hash_def)
  then show ?thesis
    unfolding committed_def im using d by (auto simp: gone_hash_def split: if_splits)
qed

definition gone_state :: folder_state where
  "gone_state = ex_state\<lparr>fo_lamport := 9, fo_entries := gone_index, fo_tree := derive_tree gone_hash gone_index,
     fo_live_tree := derive_live_tree gone_hash gone_index\<rparr>"

definition gc_daemon :: daemon where
  "gc_daemon = ex_daemon\<lparr>
     da_state := gone_state,
     da_reports := fmupd (node_id_to_string (ex_node 2))
       \<lparr>re_state_root = replicate 32 2, re_live_root = zero_hash, re_lamport = 9\<rparr> fmempty\<rparr>"

definition gc_env :: daemon_env where
  "gc_env = ex_env\<lparr>en_lib := ex_lib\<lparr>blake3 := gone_hash\<rparr>\<rparr>"

lemma gc_state:
  "all_active_match (da_reports d) (root_hash (da_state d)) (active_peer_ids (da_group d)) \<Longrightarrow>
     da_state (maybe_gc_tombstones V d) = fst (snd (gc_tombstones_for_converged_root (en_lib V) (da_state d) (da_fs d)))"
  by (simp add: maybe_gc_unfold publish_defs split: prod.splits)


theorem tick_publishes_changes_witness:
  "(let d1 = on_event ex_env (AnnounceTick 5) ex_daemon
    in on_event ex_env (AnnounceTick 20) d1 = d1 \<and> ex_node 2 \<in> fst ` set (da_sent d1))"
proof -
  let ?sn = "snapshot_from_state (da_state ex_daemon)" and ?d1 = "on_event ex_env (AnnounceTick 5) ex_daemon"
  have h: "pt_last_sync (da_tracker ex_daemon) \<noteq> Some (marker_from_snapshot ?sn)"
    "should_publish_peers 5 (da_tracker ex_daemon) (group_members (da_group ex_daemon))"
    by (simp_all add: ex_daemon_def ex_tracker_def should_publish_peers_def)
  have "ex_node 2 \<in> set (active_peers ex_members)" by code_simp
  then have p: "ex_node 2 \<in> set (active_peers (da_group ex_daemon))" by (simp add: ex_daemon_def)
  note t = tick_publishes_changes [OF refl refl h, of ex_env]
  have "on_event ex_env (AnnounceTick 20) ?d1 = ?d1"
    by (rule t [THEN conjunct2, THEN conjunct2, rule_format]) (simp_all add: SYNC_STATE_HEARTBEAT_SECS_def)
  moreover from bspec [OF t [THEN conjunct1] p] have "ex_node 2 \<in> fst ` set (da_sent ?d1)" by (rule rev_image_eqI) simp
  ultimately show ?thesis unfolding Let_def by (rule conjI)
qed

end
