(* ===== verification/Lil_Tasks.thy ===== *)
theory Lil_Tasks
  imports Lil_DaemonFacts
begin

text \<open>
  The task that \<open>maybe_probe_remote_rpc\<close> spawns for an announcement: it ends, it leaves the activity
  flags clear, and the one interleaving with the event loop in which a deferred rescan is lost.
\<close>

section \<open>Reconciliation tasks\<close>

lemma activity_frame [simp]:
  "da_activity (apply_filesystem_paths V ps d) = da_activity d" "da_activity (with_sync S d) = da_activity d"
  "da_status (apply_filesystem_paths V ps d) = da_status d" "da_status (with_sync S d) = da_status d"
  by (auto simp: apply_filesystem_paths_def publish_defs with_sync_def Let_def split: prod.splits sum.splits)

lemma rescan_clears [simp]:
  "da_activity (rescan_if_pending V d) = (da_activity d)\<lparr>sa_pending_rescan := False\<rparr>"
  "da_status (rescan_if_pending V d) = da_status d"
  by (auto simp: rescan_if_pending_def take_pending_rescan_def Let_def split: prod.splits)

lemma probe_task_tail:
  assumes "probe_sync V P peer message d = Some (res, d1)"
  shows "\<exists>d'. probe_task V P peer message d = Some d' \<and> \<not> sa_active (da_activity d') \<and> \<not> sa_pending_rescan (da_activity d') \<and>
    da_status d' \<noteq> Some peer"
  using assms by (simp add: probe_task_def Let_def activity_end_def end_sync_def)

definition probe_root :: "gossip_message \<Rightarrow> remote_root" where
  "probe_root message = \<lparr>rr_state_root = gm_state_root message, rr_live_root = gm_live_root message,
     rr_lamport = gm_lamport message, rr_hint = gm_hint message\<rparr>"



text \<open>
  The event loop tests \<open>is_active\<close> and calls \<open>defer_rescan\<close> in two steps. When the task takes the
  pending flag, ends and takes the flag again in between, the request is recorded after the last
  look at it: no synchronisation is active and the rescan waits for a later announcement.
\<close>

theorem deferred_rescan_can_be_lost:
  "(let seen = sa_active a;
        a1 = snd (take_pending_rescan a);
        a2 = activity_end a1;
        (again, a3) = take_pending_rescan a2;
        a4 = (if seen then defer_rescan a3 else a3)
    in sa_active a \<longrightarrow> \<not> again \<and> sa_pending_rescan a4 \<and> \<not> sa_active a4)"
  by (simp add: Let_def take_pending_rescan_def activity_end_def defer_rescan_def)

end
