(* ===== verification/Lil_Transport.thy ===== *)
theory Lil_Transport
  imports Lil_Rpc
begin

text \<open>
  The transport, \<open>src/transport.rs\<close>: frames with a length prefix on a byte stream, encrypted chunks,
  blobs cut into chunks, JSON messages, and the handshake with the signed identities. The Noise
  protocol (\<open>snow\<close>), Ed25519 and JSON are parameters. A stream is the bytes still to be read, the
  error of reading past them (end of file, or the time-out of the caller when the peer is silent),
  the bytes written, and the error of writing when the other side has gone.
\<close>

section \<open>Streams and frames\<close>

record tcp =
  tcp_in :: bytes
  tcp_end :: io_error
  tcp_out :: bytes
  tcp_broken :: "io_error option"

definition write_all :: "bytes \<Rightarrow> tcp \<Rightarrow> unit io_result \<times> tcp" where
  "write_all bs s =
     (case tcp_broken s of None \<Rightarrow> (Inr (), s\<lparr>tcp_out := tcp_out s @ bs\<rparr>) | Some e \<Rightarrow> (Inl e, s))"

definition read_exact :: "nat \<Rightarrow> tcp \<Rightarrow> bytes io_result \<times> tcp" where
  "read_exact n s =
     (if length (tcp_in s) < n then (Inl (tcp_end s), s\<lparr>tcp_in := []\<rparr>)
      else (Inr (take n (tcp_in s)), s\<lparr>tcp_in := drop n (tcp_in s)\<rparr>))"

definition write_plain_frame :: "bytes \<Rightarrow> tcp \<Rightarrow> unit io_result \<times> tcp" where
  "write_plain_frame bs s = io_seq (write_all (u32_to_be_bytes (of_nat (length bs))) s) (write_all bs)"

definition read_plain_frame :: "nat \<Rightarrow> tcp \<Rightarrow> bytes io_result \<times> tcp" where
  "read_plain_frame max_len s =
     (case read_exact 4 s of
        (Inl e, s1) \<Rightarrow> (Inl e, s1)
      | (Inr b, s1) \<Rightarrow>
          let len = unat (u32_from_be_bytes b)
          in if len > max_len then (Inl InvalidData, s1) else read_exact len s1)"

section \<open>Connections\<close>

text \<open>The parts of \<open>snow\<close> that are used: a handshake state \<open>'h\<close>, a transport state \<open>'t\<close>.\<close>

record ('h, 't) noise =
  build_initiator :: "'h option"
  build_responder :: "'h option"
  hs_write :: "'h \<Rightarrow> (bytes \<times> 'h) option"
  hs_read :: "bytes \<Rightarrow> 'h \<Rightarrow> 'h option"
  get_handshake_hash :: "'h \<Rightarrow> bytes"
  into_transport_mode :: "'h \<Rightarrow> 't option"
  tr_write :: "bytes \<Rightarrow> 't \<Rightarrow> (bytes \<times> 't) option"
  tr_read :: "bytes \<Rightarrow> 't \<Rightarrow> (bytes \<times> 't) option"

text \<open>\<open>map_err(io::Error::other)\<close>.\<close>

definition or_other :: "'a option \<Rightarrow> 'a io_result" where
  "or_other r = (case r of None \<Rightarrow> Inl Other | Some a \<Rightarrow> Inr a)"

record 't noise_connection =
  nc_stream :: tcp
  nc_noise :: 't
  nc_peer :: node_id
  nc_buf :: bytes

definition MAX_HANDSHAKE_BYTES :: nat where
  "MAX_HANDSHAKE_BYTES = 4096"

definition MAX_BLOB_BYTES :: nat where
  "MAX_BLOB_BYTES = 16 * 1024 * 1024"

definition MAX_CIPHERTEXT_CHUNK :: nat where
  "MAX_CIPHERTEXT_CHUNK = MAX_PLAINTEXT_CHUNK + 16"

definition send_plain_chunk ::
    "('h, 't) noise \<Rightarrow> bytes \<Rightarrow> 't noise_connection \<Rightarrow> unit io_result \<times> 't noise_connection" where
  "send_plain_chunk N chunk c =
     (if length chunk > MAX_PLAINTEXT_CHUNK then (Inl InvalidInput, c)
      else case tr_write N chunk (nc_noise c) of
             None \<Rightarrow> (Inl Other, c)
           | Some (encrypted, t) \<Rightarrow>
               (case write_plain_frame encrypted (nc_stream c) of
                  (r, s) \<Rightarrow> (r, c\<lparr>nc_noise := t, nc_stream := s\<rparr>)))"

definition recv_plain_chunk ::
    "('h, 't) noise \<Rightarrow> 't noise_connection \<Rightarrow> bytes io_result \<times> 't noise_connection" where
  "recv_plain_chunk N c =
     (case read_plain_frame MAX_CIPHERTEXT_CHUNK (nc_stream c) of
        (Inl e, s) \<Rightarrow> (Inl e, c\<lparr>nc_stream := s\<rparr>)
      | (Inr encrypted, s) \<Rightarrow>
          (case tr_read N encrypted (nc_noise c) of
             None \<Rightarrow> (Inl Other, c\<lparr>nc_stream := s\<rparr>)
           | Some (plaintext, t) \<Rightarrow> (Inr plaintext, c\<lparr>nc_stream := s, nc_noise := t\<rparr>)))"

lemma read_exact_shorter:
  "read_exact n s = (r, s') \<Longrightarrow> length (tcp_in s') \<le> length (tcp_in s)"
  by (auto simp: read_exact_def split: if_splits)

lemma read_plain_frame_shorter:
  assumes "read_plain_frame m s = (Inr b, s')"
  shows "length (tcp_in s') < length (tcp_in s)" and "length b \<le> m"
proof -
  obtain h s1 where h: "read_exact 4 s = (Inr h, s1)" and b: "read_exact (unat (u32_from_be_bytes h)) s1 = (Inr b, s')"
    and m: "unat (u32_from_be_bytes h) \<le> m"
    using assms by (auto simp: read_plain_frame_def Let_def split: prod.splits sum.splits if_splits)
  from h have "length (tcp_in s1) < length (tcp_in s)" by (auto simp: read_exact_def split: if_splits)
  with read_exact_shorter [OF b] show "length (tcp_in s') < length (tcp_in s)" by simp
  from b m show "length b \<le> m" by (auto simp: read_exact_def split: if_splits)
qed

lemma recv_plain_chunk_shorter:
  "recv_plain_chunk N c = (Inr b, c') \<Longrightarrow> length (tcp_in (nc_stream c')) < length (tcp_in (nc_stream c))"
  by (auto simp: recv_plain_chunk_def dest: read_plain_frame_shorter(1) split: prod.splits sum.splits option.splits)

text \<open>
  The loop of \<open>recv_plain_exact\<close>: \<open>filled\<close> is the part of the buffer already written. An empty chunk
  leaves it where it is and the loop reads on, so the bytes left on the stream bound the turns.
\<close>

function recv_exact_loop ::
    "('h, 't) noise \<Rightarrow> nat \<Rightarrow> bytes \<Rightarrow> 't noise_connection \<Rightarrow> bytes io_result \<times> 't noise_connection" where
  "recv_exact_loop N n filled c =
     (if n \<le> length filled then (Inr filled, c)
      else if nc_buf c = [] then
        (case recv_plain_chunk N c of
           (Inl e, c1) \<Rightarrow> (Inl e, c1)
         | (Inr chunk, c1) \<Rightarrow>
             let take_n = min (n - length filled) (length chunk)
             in recv_exact_loop N n (filled @ take take_n chunk) (c1\<lparr>nc_buf := drop take_n chunk\<rparr>))
      else
        let take_n = min (n - length filled) (length (nc_buf c))
        in recv_exact_loop N n (filled @ take take_n (nc_buf c)) (c\<lparr>nc_buf := drop take_n (nc_buf c)\<rparr>))"
  by pat_completeness auto
termination
  by (relation "measure (\<lambda>(N, n, filled, c). length (tcp_in (nc_stream c)) + (n - length filled))")
    (auto dest!: recv_plain_chunk_shorter [OF sym] simp: min_def not_le, simp_all add: neq_Nil_conv, auto)

declare recv_exact_loop.simps [simp del]

definition recv_plain_exact ::
    "('h, 't) noise \<Rightarrow> nat \<Rightarrow> 't noise_connection \<Rightarrow> bytes io_result \<times> 't noise_connection" where
  "recv_plain_exact N n c = recv_exact_loop N n [] c"

text \<open>\<open>slice::chunks\<close>.\<close>

function chunks_of :: "nat \<Rightarrow> 'a list \<Rightarrow> 'a list list" where
  "chunks_of k xs = (if xs = [] \<or> k = 0 then [] else take k xs # chunks_of k (drop k xs))"
  by pat_completeness auto
termination
  by (relation "measure (\<lambda>(k, xs). length xs)") auto

declare chunks_of.simps [simp del]

primrec send_all :: "('m \<Rightarrow> 's \<Rightarrow> unit io_result \<times> 's) \<Rightarrow> 'm list \<Rightarrow> 's \<Rightarrow> unit io_result \<times> 's" where
  "send_all send [] s = (Inr (), s)"
| "send_all send (m # ms) s = io_seq (send m s) (send_all send ms)"

definition send_blob ::
    "('h, 't) noise \<Rightarrow> bytes \<Rightarrow> 't noise_connection \<Rightarrow> unit io_result \<times> 't noise_connection" where
  "send_blob N bs c =
     (if length bs > MAX_BLOB_BYTES then (Inl InvalidInput, c)
      else io_seq (send_plain_chunk N (u64_to_be_bytes (of_nat (length bs))) c)
             (send_all (send_plain_chunk N) (chunks_of MAX_PLAINTEXT_CHUNK bs)))"

definition recv_blob ::
    "('h, 't) noise \<Rightarrow> nat \<Rightarrow> 't noise_connection \<Rightarrow> bytes io_result \<times> 't noise_connection" where
  "recv_blob N max_len c =
     (case recv_plain_exact N 8 c of
        (Inl e, c1) \<Rightarrow> (Inl e, c1)
      | (Inr b, c1) \<Rightarrow>
          let len = unat (u64_from_be_bytes b)
          in if len > max_len then (Inl InvalidData, c1) else recv_plain_exact N len c1)"

text \<open>\<open>to_vec\<close> and \<open>from_slice\<close> are serde_json for the type of the message.\<close>

definition send_json ::
    "('h, 't) noise \<Rightarrow> ('m \<Rightarrow> bytes option) \<Rightarrow> 'm \<Rightarrow> 't noise_connection \<Rightarrow> unit io_result \<times> 't noise_connection" where
  "send_json N to_vec m c = (case to_vec m of None \<Rightarrow> (Inl Other, c) | Some bs \<Rightarrow> send_blob N bs c)"

definition recv_json ::
    "('h, 't) noise \<Rightarrow> (bytes \<Rightarrow> 'm option) \<Rightarrow> 't noise_connection \<Rightarrow> 'm io_result \<times> 't noise_connection" where
  "recv_json N from_slice c =
     (case recv_blob N MAX_BLOB_BYTES c of
        (Inl e, c1) \<Rightarrow> (Inl e, c1)
      | (Inr bs, c1) \<Rightarrow> (case from_slice bs of None \<Rightarrow> (Inl Other, c1) | Some m \<Rightarrow> (Inr m, c1)))"

section \<open>Identities\<close>

record ed25519 =
  verifying_key :: "bytes \<Rightarrow> bytes"
  ed_sign :: "bytes \<Rightarrow> bytes \<Rightarrow> bytes"
  ed_verify :: "bytes \<Rightarrow> bytes \<Rightarrow> bytes \<Rightarrow> bool"

text \<open>\<open>NodeId::verify\<close>: the id is not a point of the curve, or the signature is wrong.\<close>

definition node_verify :: "ed25519 \<Rightarrow> node_id \<Rightarrow> bytes \<Rightarrow> bytes \<Rightarrow> unit io_result" where
  "node_verify D node_id message signature = (if ed_verify D node_id message signature then Inr () else Inl Other)"

definition identity_sign :: "ed25519 \<Rightarrow> bytes \<Rightarrow> bytes \<Rightarrow> bytes" where
  "identity_sign D key message = ed_sign D key message"

record auth_payload =
  ap_node_id :: string
  ap_signature :: bytes

record auth_json =
  auth_to_vec :: "auth_payload \<Rightarrow> bytes option"
  auth_from_slice :: "bytes \<Rightarrow> auth_payload option"

definition auth_message :: "node_id \<Rightarrow> bytes \<Rightarrow> bytes" where
  "auth_message node_id handshake_hash = as_bytes ''lilsync-noise-auth-v1'' @ node_id @ handshake_hash"

definition send_auth ::
    "('h, 't) noise \<Rightarrow> ed25519 \<Rightarrow> auth_json \<Rightarrow> bytes \<Rightarrow> bytes \<Rightarrow> 't noise_connection \<Rightarrow> unit io_result \<times> 't noise_connection" where
  "send_auth N D A key handshake_hash c =
     (let me = identity_node_id (verifying_key D) key;
          message = auth_message me handshake_hash
      in send_json N (auth_to_vec A)
           \<lparr>ap_node_id = node_id_to_string me, ap_signature = identity_sign D key message\<rparr> c)"

definition recv_auth ::
    "('h, 't) noise \<Rightarrow> ed25519 \<Rightarrow> auth_json \<Rightarrow> bytes \<Rightarrow> 't noise_connection \<Rightarrow> node_id io_result \<times> 't noise_connection" where
  "recv_auth N D A handshake_hash c =
     (case recv_json N (auth_from_slice A) c of
        (Inl e, c1) \<Rightarrow> (Inl e, c1)
      | (Inr payload, c1) \<Rightarrow>
          (case parse_node_id (ap_node_id payload) of
             Inl e \<Rightarrow> (Inl e, c1)
           | Inr node_id \<Rightarrow>
               if length (ap_signature payload) \<noteq> 64 then (Inl InvalidData, c1)
               else (case node_verify D node_id (auth_message node_id handshake_hash) (ap_signature payload) of
                       Inl e \<Rightarrow> (Inl e, c1)
                     | Inr _ \<Rightarrow> (Inr node_id, c1))))"

section \<open>The handshake\<close>

definition hs_send :: "('h, 't) noise \<Rightarrow> 'h \<Rightarrow> tcp \<Rightarrow> ('h \<times> tcp) io_result" where
  "hs_send N h s =
     and_then (or_other (hs_write N h)) (\<lambda>(out, h1).
       case write_plain_frame out s of (Inl e, _) \<Rightarrow> Inl e | (Inr _, s1) \<Rightarrow> Inr (h1, s1))"

definition hs_recv :: "('h, 't) noise \<Rightarrow> 'h \<Rightarrow> tcp \<Rightarrow> ('h \<times> tcp) io_result" where
  "hs_recv N h s =
     (case read_plain_frame MAX_HANDSHAKE_BYTES s of
        (Inl e, _) \<Rightarrow> Inl e
      | (Inr msg, s1) \<Rightarrow> and_then (or_other (hs_read N msg h)) (\<lambda>h1. Inr (h1, s1)))"

definition hs_finish :: "('h, 't) noise \<Rightarrow> 'h \<Rightarrow> tcp \<Rightarrow> (bytes \<times> 't noise_connection) io_result" where
  "hs_finish N h s =
     and_then (or_other (into_transport_mode N h)) (\<lambda>t.
       Inr (get_handshake_hash N h, \<lparr>nc_stream = s, nc_noise = t, nc_peer = replicate 32 0, nc_buf = []\<rparr>))"

definition initiator_handshake :: "('h, 't) noise \<Rightarrow> tcp \<Rightarrow> ('h \<times> tcp) io_result" where
  "initiator_handshake N s =
     and_then (or_other (build_initiator N)) (\<lambda>h.
       and_then (hs_send N h s) (\<lambda>(h1, s1). hs_recv N h1 s1))"

definition responder_handshake :: "('h, 't) noise \<Rightarrow> tcp \<Rightarrow> ('h \<times> tcp) io_result" where
  "responder_handshake N s =
     and_then (or_other (build_responder N)) (\<lambda>h.
       and_then (hs_recv N h s) (\<lambda>(h1, s1). hs_send N h1 s1))"

definition noise_connect ::
    "('h, 't) noise \<Rightarrow> ed25519 \<Rightarrow> auth_json \<Rightarrow> bytes \<Rightarrow> tcp io_result \<Rightarrow> 't noise_connection io_result" where
  "noise_connect N D A key stream =
     and_then stream (\<lambda>s.
       and_then (initiator_handshake N s) (\<lambda>(h, s1).
         and_then (hs_finish N h s1) (\<lambda>(hash, c).
           case send_auth N D A key hash c of
             (Inl e, _) \<Rightarrow> Inl e
           | (Inr _, c1) \<Rightarrow>
               (case recv_auth N D A hash c1 of
                  (Inl e, _) \<Rightarrow> Inl e
                | (Inr peer, c2) \<Rightarrow> Inr (c2\<lparr>nc_peer := peer\<rparr>)))))"

definition noise_accept ::
    "('h, 't) noise \<Rightarrow> ed25519 \<Rightarrow> auth_json \<Rightarrow> bytes \<Rightarrow> tcp \<Rightarrow> 't noise_connection io_result" where
  "noise_accept N D A key s =
     and_then (responder_handshake N s) (\<lambda>(h, s1).
       and_then (hs_finish N h s1) (\<lambda>(hash, c).
         case recv_auth N D A hash c of
           (Inl e, _) \<Rightarrow> Inl e
         | (Inr peer, c1) \<Rightarrow>
             (case send_auth N D A key hash c1 of
                (Inl e, _) \<Rightarrow> Inl e
              | (Inr _, c2) \<Rightarrow> Inr (c2\<lparr>nc_peer := peer\<rparr>))))"

section \<open>Requests on a connection\<close>

record rpc_json =
  rq_to_vec :: "request_message \<Rightarrow> bytes option"
  rq_from_slice :: "bytes \<Rightarrow> request_message option"
  rs_to_vec :: "response_message \<Rightarrow> bytes option"
  rs_from_slice :: "bytes \<Rightarrow> response_message option"

definition json_exchange ::
    "('h, 't) noise \<Rightarrow> rpc_json \<Rightarrow> 't noise_connection \<Rightarrow> request_message \<Rightarrow>
     response_message io_result \<times> 't noise_connection" where
  "json_exchange N R c req =
     (case send_json N (rq_to_vec R) req c of
        (Inl e, c1) \<Rightarrow> (Inl e, c1)
      | (Inr _, c1) \<Rightarrow> recv_json N (rs_from_slice R) c1)"

text \<open>
  The loop of \<open>handle_connection\<close>; \<open>clock k\<close> is the time at the \<open>k\<close>-th request. A panic of a handler
  ends the task. The content of an object follows its header in chunks.
\<close>

partial_function (option) handle_connection ::
    "('h, 't) noise \<Rightarrow> rpc_json \<Rightarrow> json \<Rightarrow> lib \<Rightarrow> (nat \<Rightarrow> u64) \<Rightarrow> abspath \<Rightarrow> ip_addr \<Rightarrow> nat \<Rightarrow>
     't noise_connection \<Rightarrow> server \<Rightarrow> (unit io_result \<times> 't noise_connection \<times> server) option" where
  "handle_connection N R J X clock invites_path ip k c sv =
     (case recv_json N (rq_from_slice R) c of
        (Inl e, c1) \<Rightarrow> Some (if e = UnexpectedEof then Inr () else Inl e, c1, sv)
      | (Inr req, c1) \<Rightarrow>
          (case serve J X (clock k) invites_path (nc_peer c1) ip req sv of
             (None, sv1) \<Rightarrow> Some (Inl Other, c1, sv1)
           | (Some (Inl e), sv1) \<Rightarrow> Some (Inl e, c1, sv1)
           | (Some (Inr (response, object)), sv1) \<Rightarrow>
               (case io_seq (send_json N (rs_to_vec R) response c1)
                       (send_all (send_plain_chunk N) (chunks_of MAX_PLAINTEXT_CHUNK object)) of
                  (Inl e, c2) \<Rightarrow> Some (Inl e, c2, sv1)
                | (Inr _, c2) \<Rightarrow> handle_connection N R J X clock invites_path ip (Suc k) c2 sv1)))"

end
