(* ===== verification/Lil_TransportFacts.thy ===== *)
theory Lil_TransportFacts
  imports Lil_Transport
begin

text \<open>
  What the transport guarantees. The interface between its layers is a locale: a layer sends
  messages that the other side receives in order, leaving the rest of the stream alone. Frames,
  encrypted chunks, blobs and JSON messages are interpretations of it, each built on the one below.
\<close>

section \<open>Layers\<close>

primrec recv_all :: "('r \<Rightarrow> 'm io_result \<times> 'r) \<Rightarrow> nat \<Rightarrow> 'r \<Rightarrow> 'm list io_result \<times> 'r" where
  "recv_all recv 0 r = (Inr [], r)"
| "recv_all recv (Suc n) r =
     (case recv r of
        (Inl e, r1) \<Rightarrow> (Inl e, r1)
      | (Inr m, r1) \<Rightarrow>
          (case recv_all recv n r1 of (Inl e, r2) \<Rightarrow> (Inl e, r2) | (Inr ms, r2) \<Rightarrow> (Inr (m # ms), r2)))"

locale message_layer =
  fixes send :: "'m \<Rightarrow> 'c \<Rightarrow> unit io_result \<times> 'c"
    and recv :: "'c \<Rightarrow> 'm io_result \<times> 'c"
    and out :: "'c \<Rightarrow> bytes"
    and fixed :: "'c \<Rightarrow> 'i"
    and feed :: "bytes \<Rightarrow> 'c \<Rightarrow> 'c"
    and linked :: "'c \<Rightarrow> 'c \<Rightarrow> bool"
    and fits :: "'m \<Rightarrow> bool"
  assumes exchange: "linked s r \<Longrightarrow> fits m \<Longrightarrow>
    \<exists>w s' r'. send m s = (Inr (), s') \<and> out s' = out s @ w \<and> out r' = out r \<and> fixed s' = fixed s \<and> fixed r' = fixed r \<and>
      linked s' r' \<and>
      (\<forall>rest. recv (feed (w @ rest) r) = (Inr m, feed rest r'))"
    and send_feed: "send m s = (x, s') \<Longrightarrow> send m (feed bs s) = (x, feed bs s')"
begin

lemma exchange_all:
  assumes "linked s r" "\<forall>m \<in> set ms. fits m"
  shows "\<exists>w s' r'. send_all send ms s = (Inr (), s') \<and> out s' = out s @ w \<and> out r' = out r \<and> fixed s' = fixed s \<and> fixed r' = fixed r \<and>
      linked s' r' \<and>
    (\<forall>rest. recv_all recv (length ms) (feed (w @ rest) r) = (Inr ms, feed rest r'))"
  using assms
proof (induction ms arbitrary: s r)
  case Nil
  then show ?case by (intro exI [of _ "[]"] exI [of _ s] exI [of _ r]) simp
next
  case (Cons m ms)
  then obtain w s1 r1 where 1: "send m s = (Inr (), s1)" "out s1 = out s @ w" "linked s1 r1" "out r1 = out r" "fixed s1 = fixed s"
    "fixed r1 = fixed r"
    "\<And>rest. recv (feed (w @ rest) r) = (Inr m, feed rest r1)"
    using exchange [of s r m] by auto
  from Cons.IH [OF 1(3)] Cons.prems obtain w2 s2 r2 where 2: "send_all send ms s1 = (Inr (), s2)"
    "out s2 = out s1 @ w2" "linked s2 r2" "out r2 = out r1" "fixed s2 = fixed s1" "fixed r2 = fixed r1"
    "\<And>rest. recv_all recv (length ms) (feed (w2 @ rest) r1) = (Inr ms, feed rest r2)" by auto
  show ?case
    using 1 2 by (intro exI [of _ "w @ w2"] exI [of _ s2] exI [of _ r2]) (simp add: io_seq_def)
qed

lemma send_all_feed: "send_all send ms s = (x, s') \<Longrightarrow> send_all send ms (feed bs s) = (x, feed bs s')"
proof (induction ms arbitrary: s)
  case (Cons m ms)
  obtain y s1 where 1: "send m s = (y, s1)" by fastforce
  note send_feed [OF 1, of bs]
  with 1 Cons show ?case by (cases y) (auto simp: io_seq_def)
qed simp

end

section \<open>Frames\<close>

definition feed_tcp :: "bytes \<Rightarrow> tcp \<Rightarrow> tcp" where
  "feed_tcp bs s = s\<lparr>tcp_in := bs\<rparr>"

definition frame_of :: "bytes \<Rightarrow> bytes" where
  "frame_of bs = u32_to_be_bytes (of_nat (length bs)) @ bs"

lemma write_frame: "tcp_broken s = None \<Longrightarrow> write_plain_frame bs s = (Inr (), s\<lparr>tcp_out := tcp_out s @ frame_of bs\<rparr>)"
  by (simp add: write_plain_frame_def write_all_def io_seq_def frame_of_def)

lemma read_frame:
  assumes "length bs \<le> max_len" "length bs < 2 ^ 32"
  shows "read_plain_frame max_len (feed_tcp (frame_of bs @ rest) s) = (Inr bs, feed_tcp rest s)"
proof -
  have "unat (of_nat (length bs) :: u32) = length bs" using assms(2) by (simp add: unat_of_nat)
  with assms(1) show ?thesis
    by (simp add: read_plain_frame_def read_exact_def feed_tcp_def frame_of_def)
qed

interpretation frames: message_layer write_plain_frame "read_plain_frame max_len" tcp_out tcp_end feed_tcp
    "\<lambda>s r. tcp_broken s = None" "\<lambda>bs. length bs \<le> max_len \<and> length bs < 2 ^ 32"
  for max_len
proof
  fix s r :: tcp and m :: bytes
  assume "tcp_broken s = None" "length m \<le> max_len \<and> length m < 2 ^ 32"
  then show "\<exists>w s' r'. write_plain_frame m s = (Inr (), s') \<and> tcp_out s' = tcp_out s @ w \<and> tcp_out r' = tcp_out r \<and>
      tcp_end s' = tcp_end s \<and> tcp_end r' = tcp_end r \<and>
      tcp_broken s' = None \<and>
      (\<forall>rest. read_plain_frame max_len (feed_tcp (w @ rest) r) = (Inr m, feed_tcp rest r'))"
    by (intro exI [of _ "frame_of m"] exI [of _ "s\<lparr>tcp_out := tcp_out s @ frame_of m\<rparr>"] exI [of _ r]) (simp add: write_frame read_frame)
qed (auto simp: write_plain_frame_def write_all_def io_seq_def feed_tcp_def split: option.splits)

section \<open>Chunks\<close>

text \<open>
  What is used of a Noise channel: two transport states are paired when each decrypts what the
  other encrypts next; a message grows by the 16 bytes of its tag.
\<close>

definition noise_channel :: "('h, 't) noise \<Rightarrow> ('t \<Rightarrow> 't \<Rightarrow> bool) \<Rightarrow> bool" where
  "noise_channel N paired \<longleftrightarrow>
     (\<forall>a b. paired a b \<longrightarrow> paired b a) \<and>
     (\<forall>a b m. paired a b \<and> length m \<le> MAX_PLAINTEXT_CHUNK \<longrightarrow>
        (\<exists>c a' b'. tr_write N m a = Some (c, a') \<and> tr_read N c b = Some (m, b') \<and> paired a' b' \<and>
           length c = length m + 16))"

definition feed_conn :: "bytes \<Rightarrow> 't noise_connection \<Rightarrow> 't noise_connection" where
  "feed_conn bs c = c\<lparr>nc_stream := feed_tcp bs (nc_stream c)\<rparr>"

definition conn_out :: "'t noise_connection \<Rightarrow> bytes" where
  "conn_out c = tcp_out (nc_stream c)"

text \<open>What no message changes: the peer, and how the stream ends.\<close>

definition conn_fixed :: "'t noise_connection \<Rightarrow> node_id \<times> io_error" where
  "conn_fixed c = (nc_peer c, tcp_end (nc_stream c))"

definition conns_linked ::
    "('h, 't) noise \<Rightarrow> ('t \<Rightarrow> 't \<Rightarrow> bool) \<Rightarrow> 't noise_connection \<Rightarrow> 't noise_connection \<Rightarrow> bool" where
  "conns_linked N paired a b \<longleftrightarrow> noise_channel N paired \<and> paired (nc_noise a) (nc_noise b) \<and>
     tcp_broken (nc_stream a) = None \<and> nc_buf a = [] \<and> tcp_broken (nc_stream b) = None \<and> nc_buf b = []"

lemma linked_sym: "conns_linked N paired a b \<Longrightarrow> conns_linked N paired b a"
  by (auto simp: conns_linked_def noise_channel_def)

lemma feed_feed [simp]: "feed_conn bs (feed_conn cs c) = feed_conn bs c"
  by (simp add: feed_conn_def feed_tcp_def)

lemma feed_simps [simp]:
  "nc_noise (feed_conn bs c) = nc_noise c" "nc_buf (feed_conn bs c) = nc_buf c" "nc_peer (feed_conn bs c) = nc_peer c"
  "conn_out (feed_conn bs c) = conn_out c" "conn_fixed (feed_conn bs c) = conn_fixed c"
  by (simp_all add: feed_conn_def feed_tcp_def conn_out_def conn_fixed_def)

lemma chunk_exchange:
  assumes "conns_linked N paired a b" "length m \<le> MAX_PLAINTEXT_CHUNK"
  shows "\<exists>w a' b'. send_plain_chunk N m a = (Inr (), a') \<and> conn_out a' = conn_out a @ w \<and> conn_out b' = conn_out b \<and>
    conn_fixed a' = conn_fixed a \<and> conn_fixed b' = conn_fixed b \<and> conns_linked N paired a' b' \<and>
    (\<forall>rest. recv_plain_chunk N (feed_conn (w @ rest) b) = (Inr m, feed_conn rest b'))"
proof -
  obtain c ta tb where c: "tr_write N m (nc_noise a) = Some (c, ta)" "tr_read N c (nc_noise b) = Some (m, tb)"
    "paired ta tb" "length c = length m + 16"
    using assms unfolding conns_linked_def noise_channel_def by metis
  then have "length c \<le> MAX_CIPHERTEXT_CHUNK" "length c < 2 ^ 32"
    using assms(2) by (simp_all add: MAX_CIPHERTEXT_CHUNK_def MAX_PLAINTEXT_CHUNK_def)
  note rd = read_frame [OF this]
  let ?a = "a\<lparr>nc_noise := ta, nc_stream := (nc_stream a)\<lparr>tcp_out := tcp_out (nc_stream a) @ frame_of c\<rparr>\<rparr>"
  have "send_plain_chunk N m a = (Inr (), ?a)"
    using assms c(1) by (simp add: send_plain_chunk_def write_frame conns_linked_def)
  moreover have "recv_plain_chunk N (feed_conn (frame_of c @ rest) b) = (Inr m, feed_conn rest (b\<lparr>nc_noise := tb\<rparr>))" for rest
    using c(2) rd [of rest "nc_stream b"] by (simp add: recv_plain_chunk_def feed_conn_def)
  ultimately show ?thesis
    using assms(1) c(3)
    by (intro exI [of _ "frame_of c"] exI [of _ ?a] exI [of _ "b\<lparr>nc_noise := tb\<rparr>"])
      (simp add: conns_linked_def conn_out_def conn_fixed_def)
qed

lemma chunk_feed: "send_plain_chunk N m a = (x, a') \<Longrightarrow> send_plain_chunk N m (feed_conn bs a) = (x, feed_conn bs a')"
  by (auto simp: send_plain_chunk_def feed_conn_def feed_tcp_def write_plain_frame_def write_all_def io_seq_def
      split: if_splits option.splits)

interpretation chunks: message_layer "send_plain_chunk N" "recv_plain_chunk N" conn_out conn_fixed feed_conn
    "conns_linked N paired" "\<lambda>m. length m \<le> MAX_PLAINTEXT_CHUNK"
  for N paired
  by unfold_locales (use chunk_exchange chunk_feed in blast)+

section \<open>Blobs\<close>

lemma recv_exact_buffered:
  assumes "recv_all (recv_plain_chunk N) (length ms) c = (Inr ms, c')" "nc_buf c = []"
    and "\<forall>m \<in> set ms. m \<noteq> []" "n = length filled + length (concat ms)"
  shows "recv_exact_loop N n filled c = (Inr (filled @ concat ms), c')"
  using assms
proof (induction ms arbitrary: c filled)
  case Nil
  then show ?case by (simp add: recv_exact_loop.simps)
next
  case (Cons m ms)
  from Cons.prems(1) obtain c1 where c1: "recv_plain_chunk N c = (Inr m, c1)"
    "recv_all (recv_plain_chunk N) (length ms) c1 = (Inr ms, c')"
    by (auto split: prod.splits sum.splits)
  have buf: "nc_buf c1 = nc_buf c" using c1(1) by (auto simp: recv_plain_chunk_def split: prod.splits sum.splits option.splits)
  with Cons.prems have "recv_exact_loop N n filled c = recv_exact_loop N n (filled @ m) (c1\<lparr>nc_buf := []\<rparr>)"
    using c1(1) by (subst recv_exact_loop.simps) (simp add: Let_def)
  also have "c1\<lparr>nc_buf := []\<rparr> = c1" using buf Cons.prems(2) by simp
  also have "recv_exact_loop N n (filled @ m) c1 = (Inr ((filled @ m) @ concat ms), c')"
    using Cons.prems buf c1(2) by (intro Cons.IH) simp_all
  finally show ?case by simp
qed

lemma concat_chunks_of: "k \<noteq> 0 \<Longrightarrow> concat (chunks_of k xs) = xs"
  by (induction k xs rule: chunks_of.induct) (subst chunks_of.simps, simp)

lemma chunks_of_sizes: "\<forall>c \<in> set (chunks_of k xs). c \<noteq> [] \<and> length c \<le> k"
proof (induction k xs rule: chunks_of.induct)
  case (1 k xs)
  then show ?case by (subst chunks_of.simps) auto
qed

lemma blob_exchange:
  assumes "conns_linked N paired a b" "length m \<le> MAX_BLOB_BYTES"
  shows "\<exists>w a' b'. send_blob N m a = (Inr (), a') \<and> conn_out a' = conn_out a @ w \<and> conn_out b' = conn_out b \<and>
    conn_fixed a' = conn_fixed a \<and> conn_fixed b' = conn_fixed b \<and> conns_linked N paired a' b' \<and>
    (\<forall>rest. recv_blob N MAX_BLOB_BYTES (feed_conn (w @ rest) b) = (Inr m, feed_conn rest b'))"
proof -
  let ?h = "u64_to_be_bytes (of_nat (length m))" and ?cs = "chunks_of MAX_PLAINTEXT_CHUNK m"
  have k: "MAX_PLAINTEXT_CHUNK \<noteq> 0" "length ?h \<le> MAX_PLAINTEXT_CHUNK" by (simp_all add: MAX_PLAINTEXT_CHUNK_def)
  have len: "unat (u64_from_be_bytes ?h) = length m"
    using assms(2) by (simp add: unat_of_nat MAX_BLOB_BYTES_def)
  obtain w a1 b1 where 1: "send_plain_chunk N ?h a = (Inr (), a1)" "conn_out a1 = conn_out a @ w" "conns_linked N paired a1 b1"
    "conn_out b1 = conn_out b" "conn_fixed a1 = conn_fixed a" "conn_fixed b1 = conn_fixed b"
    "\<And>rest. recv_plain_chunk N (feed_conn (w @ rest) b) = (Inr ?h, feed_conn rest b1)"
    using chunks.exchange [OF assms(1) k(2)] by blast
  obtain w2 a2 b2 where 2: "send_all (send_plain_chunk N) ?cs a1 = (Inr (), a2)" "conn_out a2 = conn_out a1 @ w2"
    "conns_linked N paired a2 b2" "conn_out b2 = conn_out b1" "conn_fixed a2 = conn_fixed a1" "conn_fixed b2 = conn_fixed b1"
    "\<And>rest. recv_all (recv_plain_chunk N) (length ?cs) (feed_conn (w2 @ rest) b1) = (Inr ?cs, feed_conn rest b2)"
    using chunks.exchange_all [OF 1(3)] chunks_of_sizes by blast
  have "recv_plain_exact N 8 (feed_conn (w @ rest) b) = (Inr ?h, feed_conn rest b1)" for rest
    unfolding recv_plain_exact_def
    using recv_exact_buffered [of N "[?h]" "feed_conn (w @ rest) b" "feed_conn rest b1" 8 "[]"] 1(7) [of rest] assms(1)
    by (simp add: conns_linked_def) (metis length_u64_to_be_bytes list.size(3) zero_neq_numeral)
  moreover have "recv_plain_exact N (length m) (feed_conn (w2 @ rest) b1) = (Inr m, feed_conn rest b2)" for rest
    unfolding recv_plain_exact_def
    using recv_exact_buffered [OF 2(7), of rest "length m" "[]"] 1(3) chunks_of_sizes [of MAX_PLAINTEXT_CHUNK m]
    by (simp add: conns_linked_def concat_chunks_of [OF k(1)])
  ultimately have "recv_blob N MAX_BLOB_BYTES (feed_conn ((w @ w2) @ rest) b) = (Inr m, feed_conn rest b2)" for rest
    using len assms(2) by (simp add: recv_blob_def)
  moreover have "send_blob N m a = (Inr (), a2)" using 1(1) 2(1) assms(2) by (simp add: send_blob_def io_seq_def)
  ultimately show ?thesis using 1(2,4-6) 2(2-6) by (intro exI [of _ "w @ w2"] exI [of _ a2] exI [of _ b2]) simp
qed

interpretation blobs: message_layer "send_blob N" "recv_blob N MAX_BLOB_BYTES" conn_out conn_fixed feed_conn
    "conns_linked N paired" "\<lambda>m. length m \<le> MAX_BLOB_BYTES"
  for N paired
proof
  fix a a' :: "'b noise_connection" and m bs :: bytes and x
  assume s: "send_blob N m a = (x, a')"
  let ?h = "u64_to_be_bytes (of_nat (length m))"
  obtain y a1 where 1: "send_plain_chunk N ?h a = (y, a1)" by fastforce
  note chunk_feed [OF 1, of bs]
  with 1 s chunks.send_all_feed [of N "chunks_of MAX_PLAINTEXT_CHUNK m" a1 x a' bs]
  show "send_blob N m (feed_conn bs a) = (x, feed_conn bs a')"
    by (cases y) (auto simp: send_blob_def io_seq_def split: if_splits)
qed (rule blob_exchange)

text \<open>A JSON message fits when it can be written, within the limit of a blob, and is read back.\<close>

definition json_fits :: "('m \<Rightarrow> bytes option) \<Rightarrow> (bytes \<Rightarrow> 'm option) \<Rightarrow> 'm \<Rightarrow> bool" where
  "json_fits to_vec from_slice m \<longleftrightarrow>
     (case to_vec m of None \<Rightarrow> False | Some bs \<Rightarrow> length bs \<le> MAX_BLOB_BYTES \<and> from_slice bs = Some m)"

interpretation json: message_layer "send_json N to_vec" "recv_json N from_slice" conn_out conn_fixed feed_conn
    "conns_linked N paired" "json_fits to_vec from_slice"
  for N paired to_vec from_slice
proof
  fix a b and m
  assume l: "conns_linked N paired a b" and "json_fits to_vec from_slice m"
  then obtain bs where "to_vec m = Some bs" "length bs \<le> MAX_BLOB_BYTES" "from_slice bs = Some m"
    by (auto simp: json_fits_def split: option.splits)
  with blobs.exchange [OF l this(2)] show "\<exists>w a' b'. send_json N to_vec m a = (Inr (), a') \<and> conn_out a' = conn_out a @ w \<and>
      conn_out b' = conn_out b \<and> conn_fixed a' = conn_fixed a \<and> conn_fixed b' = conn_fixed b \<and> 
      conns_linked N paired a' b' \<and> (\<forall>rest. recv_json N from_slice (feed_conn (w @ rest) b) = (Inr m, feed_conn rest b'))"
    by (auto simp: send_json_def recv_json_def)
qed (auto simp: send_json_def blobs.send_feed split: option.splits)

section \<open>Bounds\<close>

lemma recv_exact_loop_length:
  assumes "recv_exact_loop N n filled c = (Inr bs, c')" "length filled \<le> n"
  shows "length bs = n"
  using assms
proof (induction N n filled c arbitrary: bs c' rule: recv_exact_loop.induct)
  case (1 N n filled c)
  show ?case
  proof (cases "n \<le> length filled")
    case True
    with "1.prems" show ?thesis by (simp add: recv_exact_loop.simps)
  next
    case False
    show ?thesis
    proof (cases "nc_buf c = []")
      case True
      with False "1.prems"(1) obtain chunk c1 where c1: "recv_plain_chunk N c = (Inr chunk, c1)"
        by (subst (asm) recv_exact_loop.simps) (auto split: prod.splits sum.splits)
      with True False "1.prems"(1) show ?thesis
        by (intro "1.IH"(1) [OF False True c1 [symmetric] refl refl])
          (auto simp: recv_exact_loop.simps [of N n filled c] Let_def)
    next
      case nonempty: False
      with False "1.prems"(1) show ?thesis
        by (intro "1.IH"(2) [OF False nonempty refl])
          (auto simp: recv_exact_loop.simps [of N n filled c] Let_def)
    qed
  qed
qed


section \<open>The handshake\<close>

lemma parse_node_id_length: "parse_node_id t = Inr n \<Longrightarrow> length n = 32"
proof -
  have "parse_hex_chunks t = Some b \<Longrightarrow> length b = length t div 2" for t b
    by (induction t arbitrary: b rule: parse_hex_chunks.induct) (auto split: if_splits option.splits)
  then show "parse_node_id t = Inr n \<Longrightarrow> length n = 32"
    by (fastforce simp: parse_node_id_def split: if_splits option.splits)
qed

lemma auth_message_inject:
  "length n = length n' \<Longrightarrow> auth_message n h = auth_message n' h' \<longleftrightarrow> n = n' \<and> h = h'"
  by (simp add: auth_message_def)

lemma recv_auth_verified:
  assumes "recv_auth N D A hash c = (Inr peer, c')"
  shows "length peer = 32 \<and> (\<exists>sig. length sig = 64 \<and> ed_verify D peer (auth_message peer hash) sig)"
  using assms parse_node_id_length
  by (fastforce simp: recv_auth_def node_verify_def split: prod.splits sum.splits if_splits)

text \<open>
  The signatures that exist: a node signs only the authentication messages of the handshakes it
  took part in, for its own id, and nobody else can make its signatures.
\<close>

definition unforgeable :: "ed25519 \<Rightarrow> (node_id \<Rightarrow> bytes set) \<Rightarrow> bool" where
  "unforgeable D sessions \<longleftrightarrow>
     (\<forall>n m sig. length n = 32 \<longrightarrow> ed_verify D n m sig \<longrightarrow> (\<exists>hash \<in> sessions n. m = auth_message n hash))"


end
