(* ===== verification/Lil_Wire.thy ===== *)
theory Lil_Wire
  imports Lil_TransportFacts
begin

text \<open>
  Two nodes on one connection: the handshake of \<open>connect\<close> and \<open>accept\<close> against each other, and a
  session of requests, which over the wire gives what the handlers give when they are called
  directly.
\<close>

section \<open>Connecting\<close>

definition fresh_stream :: "bytes \<Rightarrow> tcp" where
  "fresh_stream bs = \<lparr>tcp_in = bs, tcp_end = UnexpectedEof, tcp_out = [], tcp_broken = None\<rparr>"

text \<open>What is used of the handshake: two messages, one each way, after which both sides have the
  same hash and paired transport states.\<close>

definition noise_handshake ::
    "('h, 't) noise \<Rightarrow> ('t \<Rightarrow> 't \<Rightarrow> bool) \<Rightarrow> bool" where
  "noise_handshake N paired \<longleftrightarrow>
     (\<exists>i i1 i2 r r1 r2 m1 m2 ti tr.
        build_initiator N = Some i \<and> hs_write N i = Some (m1, i1) \<and> length m1 \<le> MAX_HANDSHAKE_BYTES \<and>
        build_responder N = Some r \<and> hs_read N m1 r = Some r1 \<and> hs_write N r1 = Some (m2, r2) \<and>
        length m2 \<le> MAX_HANDSHAKE_BYTES \<and> hs_read N m2 i1 = Some i2 \<and>
        get_handshake_hash N i2 = get_handshake_hash N r2 \<and>
        into_transport_mode N i2 = Some ti \<and> into_transport_mode N r2 = Some tr \<and> paired ti tr)"

text \<open>A node's own signatures of the given handshake hashes verify.\<close>

definition signatures_verify :: "ed25519 \<Rightarrow> bytes set \<Rightarrow> bool" where
  "signatures_verify D hashes \<longleftrightarrow>
     (\<forall>k. length (verifying_key D k) = 32 \<and>
        (\<forall>hash \<in> hashes. let m = auth_message (verifying_key D k) hash
           in length (ed_sign D k m) = 64 \<and> ed_verify D (verifying_key D k) m (ed_sign D k m)))"

definition auth_of :: "ed25519 \<Rightarrow> bytes \<Rightarrow> bytes \<Rightarrow> auth_payload" where
  "auth_of D key hash =
     \<lparr>ap_node_id = node_id_to_string (verifying_key D key),
      ap_signature = ed_sign D key (auth_message (verifying_key D key) hash)\<rparr>"

lemma send_auth_json: "send_auth N D A key hash c = send_json N (auth_to_vec A) (auth_of D key hash) c"
  by (simp add: send_auth_def auth_of_def identity_node_id_def identity_sign_def Let_def)

lemma recv_auth_json:
  assumes "signatures_verify D (range (get_handshake_hash N))" "hash = get_handshake_hash N h"
    and "recv_json N (auth_from_slice A) c = (Inr (auth_of D key hash), c')"
  shows "recv_auth N D A hash c = (Inr (verifying_key D key), c')"
  using assms by (simp add: recv_auth_def auth_of_def signatures_verify_def node_verify_def parse_node_id_display Let_def)

lemma handshake_streams:
  assumes "hs_write N h = Some (m, h1)" "tcp_broken s = None"
  shows "hs_send N h s = Inr (h1, s\<lparr>tcp_out := tcp_out s @ frame_of m\<rparr>)"
  using assms by (simp add: hs_send_def or_other_def and_then_def write_frame)

lemma handshake_reads:
  assumes "hs_read N m h = Some h1" "length m \<le> MAX_HANDSHAKE_BYTES"
  shows "hs_recv N h (feed_tcp (frame_of m @ rest) s) = Inr (h1, feed_tcp rest s)"
proof -
  have "length m < 2 ^ 32" using assms(2) by (simp add: MAX_HANDSHAKE_BYTES_def)
  with assms read_frame [of m MAX_HANDSHAKE_BYTES rest s] show ?thesis by (simp add: hs_recv_def or_other_def and_then_def)
qed

lemma handshake_agrees:
  assumes "noise_channel N paired" "noise_handshake N paired" "signatures_verify D (range (get_handshake_hash N))"
    and "\<And>key hash. json_fits (auth_to_vec A) (auth_from_slice A) (auth_of D key hash)"
  shows "\<exists>wi wr ci cr. noise_connect N D A ki (Inr (fresh_stream wr)) = Inr ci \<and>
    noise_accept N D A kr (fresh_stream wi) = Inr cr \<and> conn_out ci = wi \<and> conn_out cr = wr \<and>
    tcp_in (nc_stream ci) = [] \<and> tcp_in (nc_stream cr) = [] \<and>
    nc_peer ci = verifying_key D kr \<and> nc_peer cr = verifying_key D ki \<and> conns_linked N paired ci cr"
proof -
  obtain i i1 i2 r r1 r2 m1 m2 ti tr where
    hi: "build_initiator N = Some i" "hs_write N i = Some (m1, i1)" "length m1 \<le> MAX_HANDSHAKE_BYTES"
      "hs_read N m2 i1 = Some i2" "into_transport_mode N i2 = Some ti" and
    hr: "build_responder N = Some r" "hs_read N m1 r = Some r1" "hs_write N r1 = Some (m2, r2)"
      "length m2 \<le> MAX_HANDSHAKE_BYTES" "into_transport_mode N r2 = Some tr" and
    same: "get_handshake_hash N i2 = get_handshake_hash N r2" "paired ti tr"
    using assms(2) unfolding noise_handshake_def by blast
  define hash where "hash = get_handshake_hash N r2"
  define a0 where "a0 = \<lparr>nc_stream = (fresh_stream [])\<lparr>tcp_out := frame_of m1\<rparr>, nc_noise = ti, nc_peer = replicate 32 0, nc_buf = []\<rparr>"
  define b0 where "b0 = \<lparr>nc_stream = (fresh_stream [])\<lparr>tcp_out := frame_of m2\<rparr>, nc_noise = tr, nc_peer = replicate 32 0, nc_buf = []\<rparr>"
  have "conns_linked N paired a0 b0"
    using assms(1) same(2) by (simp add: conns_linked_def a0_def b0_def fresh_stream_def)
  from json.exchange [OF this assms(4) [of ki hash]] obtain w1 a1 b1 where
    1: "send_json N (auth_to_vec A) (auth_of D ki hash) a0 = (Inr (), a1)" "conn_out a1 = conn_out a0 @ w1"
      "conn_out b1 = conn_out b0" "conns_linked N paired a1 b1"
      "\<And>rest. recv_json N (auth_from_slice A) (feed_conn (w1 @ rest) b0) = (Inr (auth_of D ki hash), feed_conn rest b1)" by blast
  from json.exchange [OF linked_sym [OF 1(4)] assms(4) [of kr hash]] obtain w2 a2 b2 where
    2: "send_json N (auth_to_vec A) (auth_of D kr hash) b1 = (Inr (), b2)" "conn_out b2 = conn_out b1 @ w2"
      "conn_out a2 = conn_out a1" "conns_linked N paired b2 a2"
      "\<And>rest. recv_json N (auth_from_slice A) (feed_conn (w2 @ rest) a1) = (Inr (auth_of D kr hash), feed_conn rest a2)" by blast
  let ?wi = "frame_of m1 @ w1" and ?wr = "frame_of m2 @ w2"
  have "initiator_handshake N (fresh_stream ?wr) = Inr (i2, nc_stream (feed_conn w2 a0))"
    using hi handshake_streams [OF hi(2), of "fresh_stream ?wr"]
      handshake_reads [OF hi(4) hr(4), of w2 "(fresh_stream [])\<lparr>tcp_out := frame_of m1\<rparr>"]
    by (simp add: initiator_handshake_def or_other_def and_then_def fresh_stream_def feed_tcp_def feed_conn_def a0_def)
  then have i: "noise_connect N D A ki (Inr (fresh_stream ?wr)) = Inr ((feed_conn [] a2)\<lparr>nc_peer := verifying_key D kr\<rparr>)"
    using hi(5) same(1) json.send_feed [OF 1(1), of w2] recv_auth_json [OF assms(3) hash_def 2(5) [of "[]"]]
    by (simp add: noise_connect_def and_then_def hs_finish_def or_other_def send_auth_json hash_def [symmetric]
        feed_conn_def a0_def)
  have "responder_handshake N (fresh_stream ?wi) = Inr (r2, nc_stream (feed_conn w1 b0))"
    using hr handshake_reads [OF hr(2) hi(3), of w1 "fresh_stream []"] handshake_streams [OF hr(3), of "fresh_stream w1"]
    by (simp add: responder_handshake_def or_other_def and_then_def fresh_stream_def feed_tcp_def feed_conn_def b0_def)
  then have r: "noise_accept N D A kr (fresh_stream ?wi) = Inr ((feed_conn [] b2)\<lparr>nc_peer := verifying_key D ki\<rparr>)"
    using hr(5) json.send_feed [OF 2(1), of "[]"] recv_auth_json [OF assms(3) hash_def 1(5) [of "[]"]]
    by (simp add: noise_accept_def and_then_def hs_finish_def or_other_def send_auth_json hash_def [symmetric]
        feed_conn_def b0_def)
  have out: "conn_out a2 = ?wi" "conn_out b2 = ?wr" using 1(2,3) 2(2,3) by (simp_all add: a0_def b0_def conn_out_def)
  have "conns_linked N paired ((feed_conn [] a2)\<lparr>nc_peer := x\<rparr>) ((feed_conn [] b2)\<lparr>nc_peer := y\<rparr>)" for x y
    using linked_sym [OF 2(4)] by (simp add: conns_linked_def feed_conn_def feed_tcp_def)
  with i r out show ?thesis
    by (intro exI [of _ ?wi] exI [of _ ?wr] exI conjI) (assumption | simp add: conn_out_def feed_conn_def feed_tcp_def)+
qed

text \<open>
  C17. Two nodes that connect to each other agree: there are bytes for both directions with which
  connecting and accepting both succeed, each side writing what the other reads; each side then
  knows the other's identity, and everything sent has been read.
\<close>

theorem connect_meets_accept:
  assumes "noise_channel N paired" "noise_handshake N paired" "signatures_verify D (range (get_handshake_hash N))"
    and "\<And>key hash. json_fits (auth_to_vec A) (auth_from_slice A) (auth_of D key hash)"
  shows "\<exists>wi wr ci cr. noise_connect N D A ki (Inr (fresh_stream wr)) = Inr ci \<and>
    noise_accept N D A kr (fresh_stream wi) = Inr cr \<and> conn_out ci = wi \<and> conn_out cr = wr \<and>
    tcp_in (nc_stream ci) = [] \<and> tcp_in (nc_stream cr) = [] \<and>
    nc_peer ci = verifying_key D kr \<and> nc_peer cr = verifying_key D ki \<and> conns_linked N paired ci cr"
  using handshake_agrees [OF assms] .

section \<open>Sessions\<close>

primrec client_calls ::
    "('h, 't) noise \<Rightarrow> rpc_json \<Rightarrow> request_message list \<Rightarrow> 't noise_connection \<Rightarrow>
     response_message list io_result \<times> 't noise_connection" where
  "client_calls N R [] c = (Inr [], c)"
| "client_calls N R (req # reqs) c =
     (case json_exchange N R c req of
        (Inl e, c1) \<Rightarrow> (Inl e, c1)
      | (Inr resp, c1) \<Rightarrow>
          (case client_calls N R reqs c1 of (Inl e, c2) \<Rightarrow> (Inl e, c2) | (Inr resps, c2) \<Rightarrow> (Inr (resp # resps), c2)))"

text \<open>The handlers called one after the other, for requests that are answered with one message.\<close>

primrec serve_all ::
    "json \<Rightarrow> lib \<Rightarrow> (nat \<Rightarrow> u64) \<Rightarrow> abspath \<Rightarrow> node_id \<Rightarrow> ip_addr \<Rightarrow> nat \<Rightarrow> request_message list \<Rightarrow> server \<Rightarrow>
     (response_message list \<times> server) option" where
  "serve_all J X clock invites peer ip k [] sv = Some ([], sv)"
| "serve_all J X clock invites peer ip k (req # reqs) sv =
     (case serve J X (clock k) invites peer ip req sv of
        (Some (Inr (resp, object)), sv1) \<Rightarrow>
          if object = [] then map_option (\<lambda>(resps, sv2). (resp # resps, sv2)) (serve_all J X clock invites peer ip (Suc k) reqs sv1)
          else None
      | _ \<Rightarrow> None)"

lemma call_over_wire:
  assumes "conns_linked N paired a b" "json_fits (rq_to_vec R) (rq_from_slice R) req"
    and "json_fits (rs_to_vec R) (rs_from_slice R) resp"
  shows "\<exists>w wr a2 b1 b2. (\<forall>rest. json_exchange N R (feed_conn (wr @ rest) a) req = (Inr resp, feed_conn rest a2)) \<and>
    (\<forall>rest. recv_json N (rq_from_slice R) (feed_conn (w @ rest) b) = (Inr req, feed_conn rest b1)) \<and>
    (\<forall>rest. send_json N (rs_to_vec R) resp (feed_conn rest b1) = (Inr (), feed_conn rest b2)) \<and>
    conn_out a2 = conn_out a @ w \<and> conn_out b2 = conn_out b @ wr \<and> conns_linked N paired a2 b2 \<and>
    conn_fixed b1 = conn_fixed b \<and> conn_fixed b2 = conn_fixed b"
proof -
  from json.exchange [OF assms(1,2)] obtain w a1 b1 where
    1: "send_json N (rq_to_vec R) req a = (Inr (), a1)" "conn_out a1 = conn_out a @ w" "conn_out b1 = conn_out b"
      "conns_linked N paired a1 b1" "conn_fixed b1 = conn_fixed b"
      "\<And>rest. recv_json N (rq_from_slice R) (feed_conn (w @ rest) b) = (Inr req, feed_conn rest b1)" by blast
  from json.exchange [OF linked_sym [OF 1(4)] assms(3)] obtain wr b2 a2 where
    2: "send_json N (rs_to_vec R) resp b1 = (Inr (), b2)" "conn_out b2 = conn_out b1 @ wr" "conn_out a2 = conn_out a1"
      "conns_linked N paired b2 a2" "conn_fixed b2 = conn_fixed b1"
      "\<And>rest. recv_json N (rs_from_slice R) (feed_conn (wr @ rest) a1) = (Inr resp, feed_conn rest a2)" by blast
  have "json_exchange N R (feed_conn (wr @ rest) a) req = (Inr resp, feed_conn rest a2)" for rest
    using json.send_feed [OF 1(1)] 2(6) by (simp add: json_exchange_def)
  moreover note json.send_feed [OF 2(1)]
  ultimately show ?thesis using 1 2 linked_sym [OF 2(4)] by (intro exI [of _ w] exI [of _ wr] exI [of _ a2]
      exI [of _ b1] exI [of _ b2]) simp
qed

lemma recv_json_at_end:
  assumes "nc_buf b = []"
  shows "\<exists>b'. recv_json N from_slice (feed_conn [] b) = (Inl (tcp_end (nc_stream b)), b') \<and> conn_out b' = conn_out b"
  using assms
  by (auto simp: recv_json_def recv_blob_def recv_plain_exact_def recv_exact_loop.simps recv_plain_chunk_def
      read_plain_frame_def read_exact_def feed_conn_def feed_tcp_def conn_out_def)


section \<open>An example channel\<close>

text \<open>A channel that appends a tag of zeros, with a handshake of one byte each way.\<close>

definition ex_noise :: "(nat, unit) noise" where
  "ex_noise =
     \<lparr>build_initiator = Some 0, build_responder = Some 0, hs_write = (\<lambda>h. Some ([1], h + 1)),
      hs_read = (\<lambda>_ h. Some (h + 1)), get_handshake_hash = (\<lambda>_. [7]), into_transport_mode = (\<lambda>_. Some ()),
      tr_write = (\<lambda>m _. Some (m @ replicate 16 0, ())), tr_read = (\<lambda>c _. Some (take (length c - 16) c, ()))\<rparr>"

definition ex_ed :: "(bytes \<Rightarrow> bytes \<Rightarrow> bytes \<Rightarrow> bool) \<Rightarrow> ed25519" where
  "ex_ed verify = \<lparr>verifying_key = (\<lambda>k. take 32 (k @ replicate 32 0)), ed_sign = (\<lambda>_ _. replicate 64 3), ed_verify = verify\<rparr>"

definition ex_auth_json :: auth_json where
  "ex_auth_json =
     \<lparr>auth_to_vec = (\<lambda>p. Some (as_bytes (ap_node_id p) @ ap_signature p)),
      auth_from_slice = (\<lambda>b. Some \<lparr>ap_node_id = map char_of_byte (take 64 b), ap_signature = drop 64 b\<rparr>)\<rparr>"

definition ex_rpc_json :: rpc_json where
  "ex_rpc_json =
     \<lparr>rq_to_vec = (\<lambda>r. Some (u64_to_be_bytes (request_id r))), rq_from_slice = (\<lambda>b. Some (GetRoot (u64_from_be_bytes b))),
      rs_to_vec = (\<lambda>r. case r of RespError i m \<Rightarrow> Some (u64_to_be_bytes i @ as_bytes m) | _ \<Rightarrow> None),
      rs_from_slice = (\<lambda>b. Some (RespError (u64_from_be_bytes (take 8 b)) (map char_of_byte (drop 8 b))))\<rparr>"

definition ex_conn :: "node_id \<Rightarrow> unit noise_connection" where
  "ex_conn peer = \<lparr>nc_stream = fresh_stream [], nc_noise = (), nc_peer = peer, nc_buf = []\<rparr>"

lemma ex_channel: "noise_channel ex_noise (\<lambda>_ _. True)"
  by (simp add: noise_channel_def ex_noise_def)

lemma ex_linked: "conns_linked ex_noise (\<lambda>_ _. True) (ex_conn p) (ex_conn q)"
  using ex_channel by (simp add: conns_linked_def ex_conn_def fresh_stream_def)

lemma char_of_as_bytes [simp]: "map char_of_byte (as_bytes t) = t"
  by (simp add: as_bytes_def map_idI)

lemma ex_handshake: "noise_handshake ex_noise (\<lambda>_ _. True)"
  by (simp add: noise_handshake_def ex_noise_def MAX_HANDSHAKE_BYTES_def)

lemma ex_auth_fits: "json_fits (auth_to_vec ex_auth_json) (auth_from_slice ex_auth_json) (auth_of (ex_ed v) key hash)"
  by (auto simp: json_fits_def ex_auth_json_def auth_of_def ex_ed_def MAX_BLOB_BYTES_def min_def)

theorem connect_meets_accept_witness:
  "\<exists>wi wr ci cr. noise_connect ex_noise (ex_ed (\<lambda>_ _ _. True)) ex_auth_json [1] (Inr (fresh_stream wr)) = Inr ci \<and>
    noise_accept ex_noise (ex_ed (\<lambda>_ _ _. True)) ex_auth_json [2] (fresh_stream wi) = Inr cr \<and>
    conn_out ci = wi \<and> conn_out cr = wr \<and> nc_peer ci = 2 # replicate 31 0 \<and> nc_peer cr = 1 # replicate 31 0"
proof -
  let ?D = "ex_ed (\<lambda>_ _ _. True)"
  have "signatures_verify ?D (range (get_handshake_hash ex_noise))" by (simp add: signatures_verify_def ex_ed_def Let_def min_def)
  moreover have "verifying_key ?D [1] = 1 # replicate 31 0" "verifying_key ?D [2] = 2 # replicate 31 0" by code_simp+
  ultimately show ?thesis using connect_meets_accept [OF ex_channel ex_handshake _ ex_auth_fits, of "\<lambda>_ _ _. True" "[1]" "[2]"] by metis
qed




end
