(* ===== verification/Lil_Watcher.thy ===== *)
theory Lil_Watcher
  imports Lil_Daemon
begin

text \<open>
  The watcher, \<open>src/watcher.rs\<close>: the filter on events, the debounce window, the batches sent to the
  daemon, and polling. The channel from the \<open>notify\<close> crate is the list of what arrives on it with
  the times of arrival, in milliseconds; the handling of an event takes no time. Of the crate's
  event kinds the ones the source names are distinguished.
\<close>

section \<open>Events\<close>

datatype access_mode = ModeAny | ModeExecute | ModeRead | ModeWrite | ModeOther

datatype access_kind = AccessAny | AccessRead | AccessOpen access_mode | AccessClose access_mode | AccessOther

datatype event_kind = Access access_kind | NotAccess

record notify_event =
  ev_kind :: event_kind
  ev_paths :: "abspath list"

type_synonym watch_queue = "(nat \<times> notify_event io_result) list"

fun is_relevant_kind :: "event_kind \<Rightarrow> bool" where
  "is_relevant_kind (Access AccessAny) = False"
| "is_relevant_kind (Access AccessRead) = False"
| "is_relevant_kind (Access (AccessOpen _)) = False"
| "is_relevant_kind (Access (AccessClose ModeRead)) = False"
| "is_relevant_kind (Access (AccessClose ModeExecute)) = False"
| "is_relevant_kind (Access (AccessClose ModeOther)) = False"
| "is_relevant_kind (Access AccessOther) = False"
| "is_relevant_kind _ = True"

definition is_relevant_event :: "notify_event \<Rightarrow> bool" where
  "is_relevant_event ev = is_relevant_kind (ev_kind ev)"

definition WATCHER_IGNORED_DIR_NAMES :: "string list" where
  "WATCHER_IGNORED_DIR_NAMES = [''.lil'']"

definition is_ignored_event_path :: "abspath \<Rightarrow> bool" where
  "is_ignored_event_path path = list_ex (\<lambda>name. name \<in> set WATCHER_IGNORED_DIR_NAMES) path"

section \<open>Batches\<close>

definition event_paths :: "notify_event \<Rightarrow> abspath list" where
  "event_paths ev = (if is_relevant_event ev then ev_paths ev else [])"

text \<open>What is received until the deadline or the end of the channel is added to \<open>paths\<close>.\<close>

fun drain_debounce_window :: "nat \<Rightarrow> watch_queue \<Rightarrow> abspath list \<Rightarrow> abspath list \<times> watch_queue" where
  "drain_debounce_window deadline [] paths = (paths, [])"
| "drain_debounce_window deadline ((t, result) # queue) paths =
     (if deadline \<le> t then (paths, (t, result) # queue)
      else drain_debounce_window deadline queue
             (case result of Inr ev \<Rightarrow> paths @ event_paths ev | Inl _ \<Rightarrow> paths))"

definition watch_batch :: "abspath list \<Rightarrow> abspath list" where
  "watch_batch paths = remdups_adj (sort (filter (\<lambda>p. \<not> is_ignored_event_path p) paths))"

definition debounce_of :: "nat \<Rightarrow> nat" where
  "debounce_of debounce_ms = max debounce_ms 20"

lemma drain_shorter: "length (snd (drain_debounce_window deadline queue paths)) \<le> length queue"
  by (induction deadline queue paths rule: drain_debounce_window.induct) auto

text \<open>The loop of the watcher's thread: the batches it sends, in order.\<close>

function watch_loop :: "nat \<Rightarrow> watch_queue \<Rightarrow> abspath list list" where
  "watch_loop debounce [] = []"
| "watch_loop debounce ((t, Inl e) # queue) = watch_loop debounce queue"
| "watch_loop debounce ((t, Inr ev) # queue) =
     (let (paths, rest) = drain_debounce_window (t + debounce) queue (event_paths ev);
          batch = watch_batch paths
      in (if batch \<noteq> [] then [batch] else []) @ watch_loop debounce rest)"
  by pat_completeness auto
termination
proof (relation "measure (\<lambda>(d, q). length q)", goal_cases)
  case (3 debounce t ev queue x y xa)
  then show ?case using drain_shorter [of "t + debounce" queue "event_paths ev"] by (metis (no_types) case_prod_conv in_measure
        le_imp_less_Suc length_Cons snd_conv)
qed auto

definition spawn_watcher :: "nat \<Rightarrow> watch_queue \<Rightarrow> abspath list list" where
  "spawn_watcher debounce_ms queue = watch_loop (debounce_of debounce_ms) queue"

text \<open>Polling sends an empty batch, a request for a full rescan, at every interval; here for \<open>n\<close> intervals.\<close>

definition poll_interval :: "nat \<Rightarrow> nat" where
  "poll_interval interval_ms = max interval_ms 50"

primrec run_polling :: "nat \<Rightarrow> nat \<Rightarrow> nat \<Rightarrow> (nat \<times> abspath list) list" where
  "run_polling interval_ms now 0 = []"
| "run_polling interval_ms now (Suc n) =
     (now + poll_interval interval_ms, []) # run_polling interval_ms (now + poll_interval interval_ms) n"

section \<open>Nothing is lost\<close>

definition queue_paths :: "watch_queue \<Rightarrow> abspath set" where
  "queue_paths queue = {p. \<exists>t ev. (t, Inr ev) \<in> set queue \<and> is_relevant_event ev \<and> p \<in> set (ev_paths ev)}"

lemma queue_paths_simps [simp]:
  "queue_paths [] = {}"
  "queue_paths ((t, Inl e) # queue) = queue_paths queue"
  "queue_paths ((t, Inr ev) # queue) = set (event_paths ev) \<union> queue_paths queue"
  by (auto simp: queue_paths_def event_paths_def)

lemma drain_accounts:
  "drain_debounce_window deadline queue paths = (paths', rest) \<Longrightarrow>
     set paths' \<union> queue_paths rest = set paths \<union> queue_paths queue"
  by (induction deadline queue paths rule: drain_debounce_window.induct) (auto split: if_splits sum.splits)

lemma set_watch_batch: "set (watch_batch paths) = {p \<in> set paths. \<not> is_ignored_event_path p}"
  by (simp add: watch_batch_def)

lemma distinct_remdups_adj: "sorted xs \<Longrightarrow> distinct (remdups_adj xs)"
  by (induction xs rule: remdups_adj.induct) (auto simp: order_antisym)

lemma watch_batch_sorted: "sorted (watch_batch paths) \<and> distinct (watch_batch paths)"
  by (simp add: watch_batch_def distinct_remdups_adj)

lemma watch_loop_batches:
  "set (concat (watch_loop d queue)) = {p \<in> queue_paths queue. \<not> is_ignored_event_path p} \<and>
   list_all (\<lambda>batch. batch \<noteq> [] \<and> sorted batch \<and> distinct batch) (watch_loop d queue)"
proof (induction d queue rule: watch_loop.induct)
  case (3 debounce t ev queue)
  obtain paths rest where d: "drain_debounce_window (t + debounce) queue (event_paths ev) = (paths, rest)" by fastforce
  note IH = "3.IH" [OF d [symmetric] refl refl]
  have b: "set (concat (if watch_batch paths \<noteq> [] then [watch_batch paths] else [])) = {p \<in> set paths. \<not> is_ignored_event_path p}"
    using set_watch_batch [of paths] by auto
  have "set (concat (watch_loop debounce ((t, Inr ev) # queue))) =
      {p \<in> set paths. \<not> is_ignored_event_path p} \<union> {p \<in> queue_paths rest. \<not> is_ignored_event_path p}"
    using conjunct1 [OF IH] d b by (simp add: Let_def)
  also have "\<dots> = {p \<in> queue_paths ((t, Inr ev) # queue). \<not> is_ignored_event_path p}"
    using drain_accounts [OF d] by auto
  finally have "set (concat (watch_loop debounce ((t, Inr ev) # queue))) =
      {p \<in> queue_paths ((t, Inr ev) # queue). \<not> is_ignored_event_path p}" .
  moreover have "list_all (\<lambda>batch. batch \<noteq> [] \<and> sorted batch \<and> distinct batch) (watch_loop debounce ((t, Inr ev) # queue))"
    using conjunct2 [OF IH] d watch_batch_sorted [of paths] by (simp add: Let_def)
  ultimately show ?case by (rule conjI)
qed simp_all


text \<open>
  The components of the whole path are tested, the ones above the synchronised folder too: when the
  folder itself lies below a directory named \<open>.lil\<close>, no change in it is ever reported.
\<close>

theorem folder_below_lil_is_not_watched:
  assumes "\<And>p. p \<in> queue_paths queue \<Longrightarrow> \<exists>q. p = root @ q" "''.lil'' \<in> set root"
  shows "spawn_watcher ms queue = []"
proof (rule ccontr)
  have "is_ignored_event_path p" if "p \<in> queue_paths queue" for p
    using assms(1) [OF that] assms(2) by (auto simp: is_ignored_event_path_def WATCHER_IGNORED_DIR_NAMES_def list_ex_iff)
  then have "{p \<in> queue_paths queue. \<not> is_ignored_event_path p} = {}" by blast
  with watch_loop_batches [of "debounce_of ms" queue] have "concat (spawn_watcher ms queue) = []"
    and "list_all (\<lambda>b. b \<noteq> []) (spawn_watcher ms queue)"
    unfolding spawn_watcher_def set_empty [symmetric] by (simp, auto simp: list_all_iff)
  moreover assume "spawn_watcher ms queue \<noteq> []"
  ultimately show False by (cases "spawn_watcher ms queue") auto
qed

theorem folder_below_lil_is_not_watched_witness:
  "spawn_watcher 500 [(1, Inr \<lparr>ev_kind = NotAccess, ev_paths = [[''home'', ''.lil'', ''r'', ''a.txt'']]\<rparr>)] = []"
  using folder_below_lil_is_not_watched [of "[(1, Inr \<lparr>ev_kind = NotAccess, ev_paths = [[''home'', ''.lil'', ''r'', ''a.txt'']]\<rparr>)]"
      "[''home'', ''.lil'', ''r'']" 500]
  by (simp add: event_paths_def)

end
