(* ===== verification/Lil_Ticket.thy ===== *)
theory Lil_Ticket
  imports Lil_Identity
begin

text \<open>
  Join tickets, \<open>src/cli.rs\<close>: the byte layout, and the base62 encoding of the bytes as one
  big-endian integer, done by the source with long division and multiplication on byte buffers.
  The buffers are related to the integers they stand for, which gives the round trip.
\<close>

section \<open>Definitions\<close>

record join_ticket =
  jt_issuer :: node_id
  jt_secret :: string
  jt_endpoints :: "string list"

definition TICKET_VERSION :: u8 where
  "TICKET_VERSION = 2"

definition TICKET_MIN_BYTES :: nat where
  "TICKET_MIN_BYTES = 1 + 32 + 32"

definition MAX_TICKET_ENDPOINT_BYTES :: nat where
  "MAX_TICKET_ENDPOINT_BYTES = 384"

definition TICKET_MAX_BYTES :: nat where
  "TICKET_MAX_BYTES = TICKET_MIN_BYTES + MAX_TICKET_ENDPOINT_BYTES"

definition BASE62_ALPHABET :: string where
  "BASE62_ALPHABET = ''0123456789ABCDEFGHIJKLMNOPQRSTUVWXYZabcdefghijklmnopqrstuvwxyz''"

definition TICKET_MAX_CHARS :: nat where
  "TICKET_MAX_CHARS = TICKET_MAX_BYTES * 8 div 5"

text \<open>Long division by 62 from the most significant byte, with the running remainder.\<close>

fun b62_divmod_from :: "u32 \<Rightarrow> bytes \<Rightarrow> bytes \<times> u32" where
  "b62_divmod_from rem [] = ([], rem)"
| "b62_divmod_from rem (b # bs) =
     (let val = rem * 256 + ucast b;
          (bs', rem') = b62_divmod_from (val mod 62) bs
      in (ucast (val div 62) # bs', rem'))"

definition b62_divmod :: "bytes \<Rightarrow> bytes \<times> u8" where
  "b62_divmod bs = (case b62_divmod_from 0 bs of (bs', rem) \<Rightarrow> (bs', ucast rem))"

text \<open>Multiply by 62 and add, from the least significant byte (the reversed buffer).\<close>

fun mul_add_rev :: "u32 \<Rightarrow> bytes \<Rightarrow> bytes \<times> u32" where
  "mul_add_rev carry [] = ([], carry)"
| "mul_add_rev carry (b # bs) =
     (let val = ucast b * 62 + carry;
          (bs', carry') = mul_add_rev (drop_bit 8 val) bs
      in (ucast (val AND 0xFF) # bs', carry'))"

function push_carry :: "u32 \<Rightarrow> bytes \<Rightarrow> bytes" where
  "push_carry carry bs =
     (if 0 < carry then push_carry (drop_bit 8 carry) (ucast (carry AND 0xFF) # bs) else bs)"
  by pat_completeness auto
termination
proof (relation "measure (\<lambda>(c, bs). unat c)")
  fix carry :: u32 and bs :: bytes
  assume "0 < carry"
  then have "0 < unat carry" by (simp add: word_less_nat_alt)
  moreover have "unat (drop_bit 8 carry) = unat carry div 256" by (simp add: drop_bit_eq_div unat_div)
  ultimately show "((drop_bit 8 carry, ucast (carry AND 0xFF) # bs), carry, bs) \<in> measure (\<lambda>(c, bs). unat c)"
    by simp
qed simp

declare push_carry.simps [simp del]

definition b62_mul_add :: "bytes \<Rightarrow> u8 \<Rightarrow> bytes" where
  "b62_mul_add bs digit =
     (case mul_add_rev (ucast digit) (rev bs) of (bs', carry) \<Rightarrow> push_carry carry (rev bs'))"

definition b62_char_to_digit :: "char \<Rightarrow> u8 option" where
  "b62_char_to_digit ch =
     (let c = byte_of_char ch in
      if 0x30 \<le> c \<and> c \<le> 0x39 then Some (c - 0x30)
      else if 0x41 \<le> c \<and> c \<le> 0x5A then Some (c - 0x41 + 10)
      else if 0x61 \<le> c \<and> c \<le> 0x7A then Some (c - 0x61 + 36)
      else None)"

section \<open>Buffers as integers\<close>

fun be_val :: "bytes \<Rightarrow> nat" where
  "be_val [] = 0"
| "be_val (b # bs) = unat b * 256 ^ length bs + be_val bs"

lemma unat_less_256: "unat (b :: u8) < 256"
  using unsigned_less [of b] by simp

lemma unat_ucast_u8: "unat (ucast (w :: u32) :: u8) = unat w mod 256"
  by (simp add: unsigned_ucast_eq take_bit_eq_mod)

lemma unat_ucast_u32: "unat (ucast (b :: u8) :: u32) = unat b"
  using unat_less_256 [of b] by (simp add: unsigned_ucast_eq take_bit_eq_mod)

lemma be_val_less: "be_val bs < 256 ^ length bs"
proof (induction bs)
  case (Cons b bs)
  have "unat b * 256 ^ length bs + be_val bs < unat b * 256 ^ length bs + 256 ^ length bs"
    using Cons by simp
  also have "\<dots> = (unat b + 1) * 256 ^ length bs" by (simp add: algebra_simps)
  also have "\<dots> \<le> 256 * 256 ^ length bs"
    using unat_less_256 [of b] by (intro mult_right_mono) auto
  finally show ?case by simp
qed simp

lemma be_val_append: "be_val (xs @ ys) = be_val xs * 256 ^ length ys + be_val ys"
  by (induction xs) (auto simp: algebra_simps power_add)

lemma be_val_zero: "be_val bs = 0 \<longleftrightarrow> list_all (\<lambda>b. b = 0) bs"
  by (induction bs) (auto simp: unat_eq_0)

lemma be_val_inject:
  assumes "be_val xs = be_val ys" "length xs = length ys"
  shows "xs = ys"
  using assms
proof (induction xs arbitrary: ys)
  case (Cons x xs)
  then obtain y zs where ys: "ys = y # zs" "length xs = length zs" by (cases ys) auto
  have eq: "unat x * 256 ^ length zs + be_val xs = unat y * 256 ^ length zs + be_val zs"
    using Cons.prems ys by simp
  have lt: "be_val xs < 256 ^ length zs" "be_val zs < 256 ^ length zs"
    using be_val_less [of xs] be_val_less [of zs] ys(2) by simp_all
  have "(unat x * 256 ^ length zs + be_val xs) div 256 ^ length zs = unat x"
    "(unat y * 256 ^ length zs + be_val zs) div 256 ^ length zs = unat y"
    using lt by simp_all
  with eq have xy: "unat x = unat y" by simp
  then have "x = y" by (rule unsigned_word_eqI)
  with eq xy Cons.IH [of zs] ys show ?case by simp
qed simp

lemma be_val_leading:
  assumes "bs \<noteq> []" "hd bs \<noteq> 0"
  shows "256 ^ (length bs - 1) \<le> be_val bs"
  using assms by (cases bs) (auto simp: unat_gt_0 Suc_leI trans_le_add1)

lemma be_val_canonical:
  assumes "be_val xs = be_val ys" "xs \<noteq> []" "hd xs \<noteq> 0" "ys \<noteq> []" "hd ys \<noteq> 0"
  shows "xs = ys"
proof (rule be_val_inject [OF assms(1)])
  have "256 ^ (length xs - 1) < (256 :: nat) ^ length ys" "256 ^ (length ys - 1) < (256 :: nat) ^ length xs"
    using be_val_leading [OF assms(2,3)] be_val_leading [OF assms(4,5)] be_val_less [of xs] be_val_less [of ys]
      assms(1) by linarith+
  then have "length xs - 1 < length ys" "length ys - 1 < length xs"
    by (auto intro: power_less_imp_less_exp [of "256 :: nat"])
  then show "length xs = length ys" using assms(2,4) by (cases xs; cases ys) auto
qed

subsection \<open>Division\<close>

lemma divmod_step:
  fixes b :: u8 and rem :: u32
  assumes "unat rem < 62"
  defines "val \<equiv> rem * 256 + ucast b"
  shows "unat val = unat rem * 256 + unat b" "unat (val mod 62) = unat val mod 62"
    "unat (ucast (val div 62) :: u8) = unat val div 62" "unat (val mod 62) < 62"
proof -
  have b: "unat (ucast b :: u32) = unat b" "unat b < 256"
    using unat_less_256 [of b] by (simp_all add: unat_ucast_u32)
  have small: "unat rem * 256 + unat b < 62 * 256" using assms(1) b(2) by simp
  then show v: "unat val = unat rem * 256 + unat b"
    unfolding val_def using b by (simp add: unat_word_ariths)
  show m: "unat (val mod 62) = unat val mod 62" by (simp add: unat_mod)
  then show "unat (val mod 62) < 62" by simp
  have "unat val div 62 < 256" using v small by simp
  then show "unat (ucast (val div 62) :: u8) = unat val div 62"
    by (simp add: unat_ucast_u8 unat_div)
qed

lemma b62_divmod_from_val:
  "unat rem < 62 \<Longrightarrow> b62_divmod_from rem bs = (bs', r) \<Longrightarrow>
     length bs' = length bs \<and> unat r < 62 \<and>
     unat rem * 256 ^ length bs + be_val bs = 62 * be_val bs' + unat r"
proof (induction bs arbitrary: rem bs' r)
  case (Cons b bs)
  define val where "val = rem * 256 + ucast b"
  note st = divmod_step [OF Cons.prems(1), of b, folded val_def]
  obtain bs1 where d: "b62_divmod_from (val mod 62) bs = (bs1, r)" "bs' = ucast (val div 62) # bs1"
    using Cons.prems(2) by (auto simp: Let_def val_def split: prod.splits)
  from Cons.IH [OF st(4) d(1)] have ih: "length bs1 = length bs" "unat r < 62"
    "unat (val mod 62) * 256 ^ length bs + be_val bs = 62 * be_val bs1 + unat r" by simp_all
  have "unat rem * 256 ^ length (b # bs) + be_val (b # bs) = unat val * 256 ^ length bs + be_val bs"
    using st(1) by (simp add: algebra_simps)
  also have "\<dots> = 62 * (unat val div 62) * 256 ^ length bs + (unat val mod 62) * 256 ^ length bs + be_val bs"
    by (metis add_mult_distrib mult_div_mod_eq)
  also have "\<dots> = 62 * be_val bs' + unat r"
    using ih st(2,3) d(2) by (simp add: algebra_simps)
  finally show ?case using ih d(2) by simp
qed simp

lemma b62_divmod_val:
  assumes "b62_divmod bs = (bs', r)"
  shows "length bs' = length bs" "unat r < 62" "be_val bs = 62 * be_val bs' + unat r"
proof -
  obtain rem where d: "b62_divmod_from 0 bs = (bs', rem)" "r = ucast rem"
    using assms by (auto simp: b62_divmod_def split: prod.splits)
  from b62_divmod_from_val [OF _ d(1)] have v: "length bs' = length bs" "unat rem < 62"
    "be_val bs = 62 * be_val bs' + unat rem" by simp_all
  moreover have "unat r = unat rem" using v(2) by (simp add: d(2) unat_ucast_u8)
  ultimately show "length bs' = length bs" "unat r < 62" "be_val bs = 62 * be_val bs' + unat r"
    by simp_all
qed

subsection \<open>Multiplication\<close>

lemma mul_step:
  fixes b :: u8 and carry :: u32
  assumes "unat carry < 62"
  defines "val \<equiv> ucast b * 62 + carry"
  shows "unat val = unat b * 62 + unat carry" "unat (drop_bit 8 val) = unat val div 256"
    "unat (drop_bit 8 val) < 62" "unat (ucast (val AND 0xFF) :: u8) = unat val mod 256"
proof -
  have b: "unat (ucast b :: u32) = unat b" "unat b < 256"
    using unat_less_256 [of b] by (simp_all add: unat_ucast_u32)
  have small: "unat b * 62 + unat carry < 62 * 256" using assms(1) b(2) by simp
  then show v: "unat val = unat b * 62 + unat carry"
    unfolding val_def using b by (simp add: unat_word_ariths)
  show d: "unat (drop_bit 8 val) = unat val div 256" by (simp add: drop_bit_eq_div unat_div)
  show "unat (drop_bit 8 val) < 62" unfolding d v using small by (simp add: less_mult_imp_div_less mult.commute)
  have "(0xFF :: u32) = mask 8" by (simp add: mask_eq_exp_minus_1)
  then have "val AND 0xFF = take_bit 8 val" by (simp add: take_bit_eq_mask)
  then have "unat (val AND 0xFF) = unat val mod 256" by (simp add: take_bit_eq_mod unat_mod)
  then show "unat (ucast (val AND 0xFF) :: u8) = unat val mod 256" by (simp add: unat_ucast_u8)
qed

lemma mul_add_rev_val:
  "unat carry < 62 \<Longrightarrow> mul_add_rev carry bs = (bs', c) \<Longrightarrow>
     length bs' = length bs \<and> unat c < 62 \<and>
     be_val (rev bs') + unat c * 256 ^ length bs = 62 * be_val (rev bs) + unat carry"
proof (induction bs arbitrary: carry bs' c)
  case (Cons b bs)
  define val where "val = ucast b * 62 + carry"
  note st = mul_step [OF Cons.prems(1), of b, folded val_def]
  obtain bs1 where d: "mul_add_rev (drop_bit 8 val) bs = (bs1, c)" "bs' = ucast (val AND 0xFF) # bs1"
    using Cons.prems(2) by (auto simp: Let_def val_def split: prod.splits)
  from Cons.IH [OF st(3) d(1)] have ih: "length bs1 = length bs" "unat c < 62"
    "be_val (rev bs1) + unat c * 256 ^ length bs = 62 * be_val (rev bs) + unat val div 256"
    using st(2) by simp_all
  have "be_val (rev bs') + unat c * 256 ^ length (b # bs) =
      256 * (be_val (rev bs1) + unat c * 256 ^ length bs) + unat val mod 256"
    using st(4) d(2) by (simp add: be_val_append algebra_simps)
  also have "\<dots> = 256 * (62 * be_val (rev bs)) + unat val"
    unfolding ih(3) by (metis add_mult_distrib2 add.assoc mult_div_mod_eq)
  also have "\<dots> = 62 * be_val (rev (b # bs)) + unat carry"
    using st(1) by (simp add: be_val_append algebra_simps)
  finally show ?case using ih d(2) by simp
qed simp

lemma push_carry_small:
  assumes "unat c < 62"
  shows "push_carry c bs = (if c = 0 then bs else ucast c # bs)" "unat (ucast c :: u8) = unat c"
proof -
  have "unat (drop_bit 8 c) = 0" using assms by (simp add: drop_bit_eq_div unat_div)
  then have z: "drop_bit 8 c = 0" by (simp add: unat_eq_0)
  have "(0xFF :: u32) = mask 8" by (simp add: mask_eq_exp_minus_1)
  then have "c AND 0xFF = take_bit 8 c" by (simp add: take_bit_eq_mask)
  then have "unat (c AND 0xFF) = unat c" using assms by (simp add: take_bit_eq_mod unat_mod)
  then have "c AND 0xFF = c" by (simp add: word_unat_eq_iff)
  then show "push_carry c bs = (if c = 0 then bs else ucast c # bs)"
    using z by (subst push_carry.simps) (simp add: push_carry.simps [of 0] word_gt_0)
  show "unat (ucast c :: u8) = unat c" using assms by (simp add: unat_ucast_u8)
qed

definition canonical :: "bytes \<Rightarrow> bool" where
  "canonical bs \<longleftrightarrow> (bs \<noteq> [] \<longrightarrow> hd bs \<noteq> 0)"

lemma canonicalI: "bs \<noteq> [] \<Longrightarrow> 256 ^ (length bs - 1) \<le> be_val bs \<Longrightarrow> hd bs \<noteq> 0"
  using be_val_less [of "tl bs"] by (cases bs) auto

lemma b62_mul_add_val:
  assumes "unat d < 62" "canonical bs"
  shows "be_val (b62_mul_add bs d) = 62 * be_val bs + unat d" "canonical (b62_mul_add bs d)"
proof -
  obtain bs' c where m: "mul_add_rev (ucast d) (rev bs) = (bs', c)" by fastforce
  have "unat (ucast d :: u32) = unat d" by (simp add: unat_ucast_u32)
  with assms(1) mul_add_rev_val [OF _ m] have v: "length bs' = length bs" "unat c < 62"
    "be_val (rev bs') + unat c * 256 ^ length bs = 62 * be_val bs + unat d" by simp_all
  have r: "b62_mul_add bs d = (if c = 0 then rev bs' else ucast c # rev bs')"
    by (simp add: b62_mul_add_def m push_carry_small(1) [OF v(2)])
  show val: "be_val (b62_mul_add bs d) = 62 * be_val bs + unat d"
    using v push_carry_small(2) [OF v(2)] by (auto simp: r)
  show "canonical (b62_mul_add bs d)"
    unfolding canonical_def
  proof
    assume ne: "b62_mul_add bs d \<noteq> []"
    show "hd (b62_mul_add bs d) \<noteq> 0"
    proof (cases "c = 0")
      case False
      then have "unat (ucast c :: u8) \<noteq> 0" using push_carry_small(2) [OF v(2)] by (simp add: unat_eq_0)
      then show ?thesis using False by (auto simp: r)
    next
      case True
      then have len: "length (b62_mul_add bs d) = length bs" using v(1) r by simp
      with ne have "bs \<noteq> []" by auto
      then have "256 ^ (length bs - 1) \<le> be_val bs"
        using assms(2) be_val_leading by (simp add: canonical_def)
      then show ?thesis using canonicalI [OF ne] len val by simp
    qed
  qed
qed

section \<open>Encoding\<close>

function b62_digits :: "bytes \<Rightarrow> u8 list" where
  "b62_digits n =
     (case b62_divmod n of (n', rem) \<Rightarrow>
        rem # (if list_all (\<lambda>b. b = 0) n' then [] else b62_digits n'))"
  by pat_completeness auto
termination
proof (relation "measure be_val")
  fix n n' and rem :: u8
  assume "(n', rem) = b62_divmod n" "\<not> list_all (\<lambda>b. b = 0) n'"
  then have "be_val n = 62 * be_val n' + unat rem" "be_val n' \<noteq> 0"
    using b62_divmod_val(3) [of n n' rem] be_val_zero [of n'] by simp_all
  then show "(n', n) \<in> measure be_val" by simp
qed simp

declare b62_digits.simps [simp del]

definition ticket_base62_encode :: "bytes \<Rightarrow> string" where
  "ticket_base62_encode bs = rev (map (\<lambda>d. BASE62_ALPHABET ! unat d) (b62_digits bs))"

primrec b62_decode_from :: "bytes \<Rightarrow> string \<Rightarrow> bytes option" where
  "b62_decode_from acc [] = Some acc"
| "b62_decode_from acc (ch # s) =
     (case b62_char_to_digit ch of None \<Rightarrow> None | Some d \<Rightarrow> b62_decode_from (b62_mul_add acc d) s)"

definition ticket_base62_decode :: "string \<Rightarrow> bytes io_result" where
  "ticket_base62_decode s =
     (if s = [] \<or> TICKET_MAX_CHARS < length s then Inl Other
      else case b62_decode_from [] s of None \<Rightarrow> Inl Other | Some b \<Rightarrow> Inr b)"

definition encode_ticket :: "node_id \<Rightarrow> bytes \<Rightarrow> string list \<Rightarrow> string io_result" where
  "encode_ticket n secret endpoints =
     (let joined = join_char CHR '','' endpoints in
      if MAX_TICKET_ENDPOINT_BYTES < length joined then Inl Other
      else Inr (ticket_base62_encode (TICKET_VERSION # n @ secret @ as_bytes joined)))"

definition parse_join_ticket :: "string \<Rightarrow> join_ticket io_result" where
  "parse_join_ticket value =
     (case ticket_base62_decode value of
        Inl e \<Rightarrow> Inl e
      | Inr bytes \<Rightarrow>
          if length bytes < TICKET_MIN_BYTES then Inl Other
          else if hd bytes \<noteq> TICKET_VERSION then Inl Other
          else case from_utf8 (drop 65 bytes) of
                 None \<Rightarrow> Inl Other
               | Some raw \<Rightarrow>
                   Inr \<lparr>jt_issuer = take 32 (drop 1 bytes), jt_secret = hex (take 32 (drop 33 bytes)),
                        jt_endpoints = filter (\<lambda>s. s \<noteq> []) (split_char CHR '','' raw)\<rparr>)"

section \<open>The round trip\<close>

fun val62 :: "u8 list \<Rightarrow> nat" where
  "val62 [] = 0"
| "val62 (d # ds) = unat d + 62 * val62 ds"

lemma b62_digits_val:
  "val62 (b62_digits n) = be_val n" "list_all (\<lambda>d. unat d < 62) (b62_digits n)"
proof -
  have "val62 (b62_digits n) = be_val n \<and> list_all (\<lambda>d. unat d < 62) (b62_digits n)"
  proof (induction n rule: b62_digits.induct)
    case (1 n)
    obtain n' r where d: "b62_divmod n = (n', r)" by fastforce
    note v = b62_divmod_val [OF d]
    show ?case
    proof (cases "list_all (\<lambda>b. b = 0) n'")
      case True
      then have "be_val n' = 0" by (simp add: be_val_zero)
      with True d v show ?thesis by (simp add: b62_digits.simps [of n])
    next
      case False
      with "1.IH" [OF d [symmetric] False] d v show ?thesis by (simp add: b62_digits.simps [of n])
    qed
  qed
  then show "val62 (b62_digits n) = be_val n" "list_all (\<lambda>d. unat d < 62) (b62_digits n)" by simp_all
qed

lemma b62_digits_length: "0 < be_val n \<Longrightarrow> 62 ^ (length (b62_digits n) - 1) \<le> be_val n"
proof (induction n rule: b62_digits.induct)
  case (1 n)
  obtain n' r where d: "b62_divmod n = (n', r)" by fastforce
  note v = b62_divmod_val [OF d]
  show ?case
  proof (cases "list_all (\<lambda>b. b = 0) n'")
    case True
    with d "1.prems" show ?thesis by (simp add: b62_digits.simps [of n])
  next
    case False
    then have pos: "0 < be_val n'" using be_val_zero by blast
    from "1.IH" [OF d [symmetric] False pos] have ih: "62 ^ (length (b62_digits n') - 1) \<le> be_val n'" .
    have "b62_digits n' \<noteq> []" by (simp add: b62_digits.simps [of n'] split: prod.splits)
    then have "(62 :: nat) ^ length (b62_digits n') = 62 * 62 ^ (length (b62_digits n') - 1)"
      by (cases "b62_digits n'") simp_all
    with ih v(3) False d show ?thesis by (simp add: b62_digits.simps [of n])
  qed
qed

lemma b62_char_digit: "unat d < 62 \<Longrightarrow> b62_char_to_digit (BASE62_ALPHABET ! unat d) = Some d"
proof -
  assume "unat d < 62"
  moreover have "list_all (\<lambda>i. b62_char_to_digit (BASE62_ALPHABET ! i) = Some (of_nat i)) [0..<62]"
    by code_simp
  ultimately have "b62_char_to_digit (BASE62_ALPHABET ! unat d) = Some (of_nat (unat d))"
    by (simp add: list_all_iff del: upt_rec_numeral)
  then show ?thesis by simp
qed

lemma b62_decode_from_append:
  "b62_decode_from acc (s @ t) =
     (case b62_decode_from acc s of None \<Rightarrow> None | Some a \<Rightarrow> b62_decode_from a t)"
  by (induction s arbitrary: acc) (auto split: option.splits)

lemma b62_decode_digits:
  "list_all (\<lambda>d. unat d < 62) ds \<Longrightarrow>
     \<exists>b. b62_decode_from [] (rev (map (\<lambda>d. BASE62_ALPHABET ! unat d) ds)) = Some b \<and>
         be_val b = val62 ds \<and> canonical b"
proof (induction ds)
  case (Cons d ds)
  then obtain b where "b62_decode_from [] (rev (map (\<lambda>d. BASE62_ALPHABET ! unat d) ds)) = Some b"
    "be_val b = val62 ds" "canonical b" "unat d < 62" by auto
  with b62_mul_add_val [of d b] b62_char_digit [of d] show ?case
    by (simp add: b62_decode_from_append)
qed (simp add: canonical_def)

lemma base62_bound: "(256 :: nat) ^ 449 < 62 ^ 718"
proof -
  have "(2 :: nat) ^ (8 * 449) < 2 ^ (11 * 359)" by (rule power_strict_increasing) simp_all
  then have "((2 :: nat) ^ 8) ^ 449 < (2 ^ 11) ^ 359" by (simp only: power_mult)
  also have "((2 :: nat) ^ 11) ^ 359 \<le> (62 ^ 2) ^ 359" by (rule power_mono) simp_all
  also have "((62 :: nat) ^ 2) ^ 359 = 62 ^ (2 * 359)" by (simp only: power_mult)
  finally have "((2 :: nat) ^ 8) ^ 449 < 62 ^ (2 * 359)" .
  moreover have "(2 :: nat) ^ 8 = 256" "(2 :: nat) * 359 = 718" by simp_all
  ultimately show ?thesis by (simp only:)
qed

lemma ticket_base62_roundtrip:
  assumes "bs \<noteq> []" "hd bs \<noteq> 0" "length bs \<le> TICKET_MAX_BYTES"
  shows "ticket_base62_decode (ticket_base62_encode bs) = Inr bs"
proof -
  let ?ds = "b62_digits bs"
  obtain b where b: "b62_decode_from [] (ticket_base62_encode bs) = Some b" "be_val b = be_val bs" "canonical b"
    using b62_decode_digits [OF b62_digits_val(2), of bs] b62_digits_val(1) [of bs]
    by (auto simp: ticket_base62_encode_def)
  have pos: "0 < be_val bs" using be_val_leading [OF assms(1,2)] by (metis gr0I not_one_le_zero one_le_power one_le_numeral le_trans)
  then have "b \<noteq> []" using b(2) by auto
  then have "b = bs" using be_val_canonical [OF b(2)] b(3) assms(1,2) by (simp add: canonical_def)
  have "62 ^ (length ?ds - 1) \<le> be_val bs" using b62_digits_length [OF pos] .
  also have "\<dots> < 256 ^ length bs" by (rule be_val_less)
  also have "\<dots> \<le> (256 :: nat) ^ 449"
    using assms(3) by (intro power_increasing)
      (simp_all add: TICKET_MAX_BYTES_def TICKET_MIN_BYTES_def MAX_TICKET_ENDPOINT_BYTES_def)
  also note base62_bound
  finally have "length ?ds - 1 < 718" by (rule power_less_imp_less_exp [rotated]) simp
  moreover have "?ds \<noteq> []" by (simp add: b62_digits.simps [of bs] split: prod.splits)
  ultimately have "ticket_base62_encode bs \<noteq> []" "length (ticket_base62_encode bs) \<le> TICKET_MAX_CHARS"
    by (simp_all add: ticket_base62_encode_def TICKET_MAX_CHARS_def TICKET_MAX_BYTES_def TICKET_MIN_BYTES_def
        MAX_TICKET_ENDPOINT_BYTES_def)
  with b(1) \<open>b = bs\<close> show ?thesis by (simp add: ticket_base62_decode_def)
qed

lemma from_utf8_as_bytes: "utf8_valid (as_bytes s) \<Longrightarrow> from_utf8 (as_bytes s) = Some s"
  by (simp add: from_utf8_def as_bytes_def comp_def)

lemma split_join_endpoints:
  assumes "\<forall>s \<in> set es. s \<noteq> [] \<and> CHR '','' \<notin> set s"
  shows "filter (\<lambda>s. s \<noteq> []) (split_char CHR '','' (join_char CHR '','' es)) = es"
proof (cases "es = []")
  case False
  then have "split_char CHR '','' (join_char CHR '','' es) = es" using assms by (intro split_join_char) auto
  moreover have "filter (\<lambda>s. s \<noteq> []) es = es" using assms by (intro filter_True) auto
  ultimately show ?thesis by simp
qed simp

lemma encoded_ticket_parses:
  assumes "length n = 32" "length secret = 32"
    and "\<forall>s \<in> set endpoints. s \<noteq> [] \<and> CHR '','' \<notin> set s"
    and "length (join_char CHR '','' endpoints) \<le> MAX_TICKET_ENDPOINT_BYTES"
    and "utf8_valid (as_bytes (join_char CHR '','' endpoints))"
  shows "\<exists>t. encode_ticket n secret endpoints = Inr t \<and>
    parse_join_ticket t = Inr \<lparr>jt_issuer = n, jt_secret = hex secret, jt_endpoints = endpoints\<rparr>"
proof -
  let ?bytes = "TICKET_VERSION # n @ secret @ as_bytes (join_char CHR '','' endpoints)"
  have "length ?bytes \<le> TICKET_MAX_BYTES" "\<not> length ?bytes < TICKET_MIN_BYTES"
    using assms(1,2,4) by (simp_all add: TICKET_MAX_BYTES_def TICKET_MIN_BYTES_def)
  moreover have "hd ?bytes \<noteq> 0" by (simp add: TICKET_VERSION_def)
  ultimately have "ticket_base62_decode (ticket_base62_encode ?bytes) = Inr ?bytes"
    by (intro ticket_base62_roundtrip) simp_all
  moreover have "drop 65 ?bytes = as_bytes (join_char CHR '','' endpoints)"
    "take 32 (drop 1 ?bytes) = n" "take 32 (drop 33 ?bytes) = secret"
    using assms(1,2) by simp_all
  ultimately have "parse_join_ticket (ticket_base62_encode ?bytes) =
      Inr \<lparr>jt_issuer = n, jt_secret = hex secret, jt_endpoints = endpoints\<rparr>"
    using \<open>\<not> length ?bytes < TICKET_MIN_BYTES\<close> from_utf8_as_bytes [OF assms(5)] split_join_endpoints [OF assms(3)]
    by (simp add: parse_join_ticket_def)
  moreover have "encode_ticket n secret endpoints = Inr (ticket_base62_encode ?bytes)"
    using assms(4) by (simp add: encode_ticket_def Let_def not_less)
  ultimately show ?thesis by blast
qed

text \<open>
  C40. A ticket round trip: whatever the issuer, the secret and the endpoints (non-empty, without
  a comma, at most 384 bytes in all), the ticket that \<open>encode_ticket\<close> prints parses to the same
  issuer, the hexadecimal form of the same secret and the same endpoints; in particular the
  length limit of the parser admits every ticket that can be issued.
\<close>

theorem ticket_roundtrip:
  assumes "length n = 32" "length secret = 32"
    and "\<forall>s \<in> set endpoints. s \<noteq> [] \<and> CHR '','' \<notin> set s"
    and "length (join_char CHR '','' endpoints) \<le> MAX_TICKET_ENDPOINT_BYTES"
    and "utf8_valid (as_bytes (join_char CHR '','' endpoints))"
  shows "\<exists>t. encode_ticket n secret endpoints = Inr t \<and>
    parse_join_ticket t = Inr \<lparr>jt_issuer = n, jt_secret = hex secret, jt_endpoints = endpoints\<rparr>"
  using encoded_ticket_parses [OF assms] .

theorem ticket_roundtrip_witness:
  "\<exists>t. encode_ticket (replicate 32 1) (replicate 32 9) [''10.0.0.1:7000'', ''[fe::1]:7000''] = Inr t \<and>
     parse_join_ticket t = Inr \<lparr>jt_issuer = replicate 32 1, jt_secret = hex (replicate 32 9),
       jt_endpoints = [''10.0.0.1:7000'', ''[fe::1]:7000'']\<rparr>"
proof -
  have "utf8_valid (as_bytes (join_char CHR '','' [''10.0.0.1:7000'', ''[fe::1]:7000'']))" by code_simp
  then show ?thesis
    using ticket_roundtrip [of "replicate 32 1" "replicate 32 9" "[''10.0.0.1:7000'', ''[fe::1]:7000'']"]
    by (simp add: MAX_TICKET_ENDPOINT_BYTES_def)
qed

end
