(* ===== verification/Lil_Commands.thy ===== *)
theory Lil_Commands
  imports Lil_Daemon Lil_Ticket Lil_Persist
begin

text \<open>
  The one-shot commands, \<open>src/commands.rs\<close>, and the start of the daemon in \<open>run_sync\<close>. A command
  reads and writes the state directory; what it prints is part of its result. Process control
  (signals, forking, file locks) is reduced to what the system answers.
\<close>

section \<open>Files of the state directory\<close>

definition KEY_FILE :: string where "KEY_FILE = ''private.key''"
definition PEERS_FILE :: string where "PEERS_FILE = ''peers.json''"
definition INVITES_FILE :: string where "INVITES_FILE = ''invites.json''"
definition PID_FILE :: string where "PID_FILE = ''daemon.pid''"

text \<open>What the commands use of the system: the JSON formats, the key function of Ed25519, random
  bytes, the clock, the addresses of the interfaces.\<close>

record cmd_env =
  ce_json :: json
  ce_lib :: lib
  ce_vk :: "bytes \<Rightarrow> bytes"
  ce_random_key :: "bytes io_result"
  ce_random_secret :: "bytes io_result"
  ce_now :: u64
  ce_interfaces :: "ip_addr list io_result"
  ce_book_to_json :: "(string, peer_info) fmap \<Rightarrow> bytes option"

text \<open>The \<open>?\<close> operator over a call that may fail and changes the file system.\<close>

definition io_bind :: "'a io_result \<times> 's \<Rightarrow> ('a \<Rightarrow> 's \<Rightarrow> 'b io_result \<times> 's) \<Rightarrow> 'b io_result \<times> 's" where
  "io_bind r k = (case r of (Inl e, s) \<Rightarrow> (Inl e, s) | (Inr a, s) \<Rightarrow> k a s)"

lemma io_bind_Inr [elim!]:
  assumes "io_bind r k = (Inr b, s')"
  obtains a s where "r = (Inr a, s)" "k a s = (Inr b, s')"
  using assms by (auto simp: io_bind_def split: prod.splits sum.splits)

lemma io_bind_simps [simp]: "io_bind (Inr a, s) k = k a s" "io_bind (Inl e, s) k = (Inl e, s)"
  by (simp_all add: io_bind_def)

text \<open>The identity and the group of a state directory, as every command loads them.\<close>

definition load_node :: "cmd_env \<Rightarrow> abspath \<Rightarrow> fs \<Rightarrow> (node_id \<times> group_state) io_result \<times> fs" where
  "load_node E state_dir fs =
     io_bind (load_or_create_identity fs (state_dir @ [KEY_FILE]) (ce_random_key E)) (\<lambda>key fs1.
       let n = identity_node_id (ce_vk E) key
       in io_bind (load_or_init_group (ce_json E) fs1 (state_dir @ [PEERS_FILE]) n) (\<lambda>g fs2. (Inr (n, g), fs2)))"

section \<open>Invitations\<close>

definition ticket_endpoints :: "cmd_env \<Rightarrow> abspath \<Rightarrow> string list \<Rightarrow> fs \<Rightarrow> string list io_result" where
  "ticket_endpoints E state_dir endpoint_override fs =
     (if endpoint_override = [] then
        (case load_port fs state_dir of
           None \<Rightarrow> Inl Other
         | Some port \<Rightarrow>
             let detected = local_endpoints (ce_interfaces E) port
             in if detected = [] then Inl Other else Inr detected)
      else Inr endpoint_override)"

text \<open>\<open>u64::saturating_mul\<close>.\<close>

definition saturating_mul :: "u64 \<Rightarrow> u64 \<Rightarrow> u64" where
  "saturating_mul a b = (if uint a * uint b < 2 ^ 64 then a * b else - 1)"

text \<open>The ticket is what the command prints; the sum of the times wraps as in a release build.\<close>

definition create_invite :: "cmd_env \<Rightarrow> abspath \<Rightarrow> u64 \<Rightarrow> string list \<Rightarrow> fs \<Rightarrow> string io_result \<times> fs" where
  "create_invite E state_dir expire_secs endpoint_override fs =
     io_bind (load_node E state_dir fs) (\<lambda>(n, _) fs1.
       io_bind (ticket_endpoints E state_dir endpoint_override fs1, fs1) (\<lambda>endpoints fs1.
         io_bind (ce_random_secret E, fs1) (\<lambda>secret_bytes fs1.
           let expires_at = ce_now E + saturating_mul expire_secs 1000
           in io_bind (add_invite (ce_json E) (ce_lib E) (ce_now E) fs1 (state_dir @ [INVITES_FILE])
                         (hex secret_bytes) expires_at) (\<lambda>_ fs2.
                (encode_ticket n secret_bytes endpoints, fs2)))))"

text \<open>\<open>call\<close> is the RPC of the client: given the address book, the peer to call and the request, what
  the peer answers; it stands for connecting and the exchange.\<close>

definition join_cmd ::
    "cmd_env \<Rightarrow> (address_book \<Rightarrow> node_id \<Rightarrow> request_message \<Rightarrow> response_message io_result) \<Rightarrow> u64 \<Rightarrow> abspath \<Rightarrow>
     bytes \<Rightarrow> string \<Rightarrow> address_book \<Rightarrow> fs \<Rightarrow> unit io_result \<times> fs" where
  "join_cmd E call rid state_dir key ticket_text book fs =
     (case parse_join_ticket ticket_text of
        Inl e \<Rightarrow> (Inl e, fs)
      | Inr ticket \<Rightarrow>
          if jt_endpoints ticket = [] then (Inl Other, fs)
          else
            let book1 = fmupd (jt_issuer ticket) \<lparr>pi_endpoints = jt_endpoints ticket, pi_name = None\<rparr> book
            in (case join_group (call book1 (jt_issuer ticket)) rid (jt_secret ticket)
                       (identity_node_id (ce_vk E) key) of
                  Inl e \<Rightarrow> (Inl e, fs)
                | Inr members \<Rightarrow>
                    io_seq (save_peers_file (ce_json E) fs (state_dir @ [PEERS_FILE]) members)
                      (\<lambda>fs1. save_address_book (ce_book_to_json E) fs1 state_dir book1)))"

section \<open>Members\<close>

text \<open>\<open>None\<close> where the command exits with status 1: no member has that id.\<close>

definition remove_peer_cmd :: "cmd_env \<Rightarrow> abspath \<Rightarrow> string \<Rightarrow> fs \<Rightarrow> string option io_result \<times> fs" where
  "remove_peer_cmd E state_dir target fs =
     io_bind (load_node E state_dir fs) (\<lambda>(_, g) fs1.
       case remove_peer (ce_json E) target g fs1 of (r, _, fs2) \<Rightarrow> (r, fs2))"

text \<open>The lines of \<open>peers\<close>: status, id, and whether it is this node.\<close>

definition peers_cmd :: "cmd_env \<Rightarrow> abspath \<Rightarrow> fs \<Rightarrow> (member_status \<times> string \<times> bool) list io_result \<times> fs" where
  "peers_cmd E state_dir fs =
     io_bind (load_node E state_dir fs) (\<lambda>(n, g) fs1.
       (Inr (map (\<lambda>m. (m_status m, m_id m, m_id m = node_id_to_string n)) (group_members g)), fs1))"

section \<open>The stored state\<close>

fun entry_kind_name :: "entry_kind \<Rightarrow> string" where
  "entry_kind_name File = ''file''"
| "entry_kind_name Dir = ''dir''"
| "entry_kind_name Tombstone = ''tombstone''"
| "entry_kind_name Symlink = ''symlink''"

definition entry_matches_prefix :: "entry \<Rightarrow> string option \<Rightarrow> bool" where
  "entry_matches_prefix e prefix =
     (case prefix of
        None \<Rightarrow> True
      | Some p \<Rightarrow> e_path e = p \<or>
          (take (length p) (e_path e) = p \<and> take 1 (drop (length p) (e_path e)) = ''/''))"

record dump_line =
  dl_path :: string
  dl_kind :: string
  dl_hash :: "string option"
  dl_target :: "string option"
  dl_size :: u64
  dl_mode :: "u32 option"
  dl_lamport :: u64
  dl_origin :: string

definition entry_dump :: "entry \<Rightarrow> dump_line" where
  "entry_dump e =
     \<lparr>dl_path = e_path e, dl_kind = entry_kind_name (e_kind e), dl_hash = map_option hex (e_content_hash e),
      dl_target = e_symlink_target e, dl_size = e_size e, dl_mode = e_mode e,
      dl_lamport = v_lamport (e_version e), dl_origin = v_origin (e_version e)\<rparr>"

definition dump_state_cmd :: "lib \<Rightarrow> fs \<Rightarrow> abspath \<Rightarrow> string option \<Rightarrow> dump_line list io_result" where
  "dump_state_cmd X fs folder prefix =
     and_then (load_saved_entries X fs (folder @ [STATE_DIR])) (\<lambda>entries.
       let prefix1 = (case prefix of
                        None \<Rightarrow> None
                      | Some p \<Rightarrow> let q = trim_matches CHR ''/'' p in if q = [] then None else Some q)
       in Inr (map entry_dump (filter (\<lambda>e. entry_matches_prefix e prefix1) (fm_values entries))))"

definition read_stored_lamport :: "fs \<Rightarrow> abspath \<Rightarrow> u64" where
  "read_stored_lamport fs state_dir =
     (case read_file fs (state_dir @ [''lamport'']) of
        Inl _ \<Rightarrow> 0
      | Inr b \<Rightarrow> if length b = 8 then u64_from_le_bytes b else 0)"

section \<open>The daemon's process\<close>

text \<open>\<open>i32::from_str\<close>: an optional sign, at least one digit, no overflow.\<close>

fun digits_value :: "nat \<Rightarrow> string \<Rightarrow> nat option" where
  "digits_value acc [] = Some acc"
| "digits_value acc (c # s) = (case decimal_digit c of None \<Rightarrow> None | Some d \<Rightarrow> digits_value (10 * acc + d) s)"

definition parse_i32 :: "string \<Rightarrow> int option" where
  "parse_i32 s =
     (let (neg, digits) = (case s of
                             [] \<Rightarrow> (False, [])
                           | c # r \<Rightarrow> if c = CHR ''-'' then (True, r) else if c = CHR ''+'' then (False, r) else (False, s))
      in if digits = [] then None
         else case digits_value 0 digits of
                None \<Rightarrow> None
              | Some v \<Rightarrow> let i = (if neg then - int v else int v)
                          in if - (2 ^ 31) \<le> i \<and> i < 2 ^ 31 then Some i else None)"

definition stored_pid :: "fs \<Rightarrow> abspath \<Rightarrow> int option" where
  "stored_pid fs state_dir =
     (case read_to_string fs (state_dir @ [PID_FILE]) of Inl _ \<Rightarrow> None | Inr t \<Rightarrow> parse_i32 (str_trim t))"

datatype daemon_status = Stopped | Running int | StalePidFile

text \<open>A byte that does not continue a character, and \<open>get(..16)\<close> of an id, which fails when the text
  is shorter or when a character would be cut.\<close>

definition starts_char :: "char \<Rightarrow> bool" where
  "starts_char c \<longleftrightarrow> \<not> (0x80 \<le> byte_of_char c \<and> byte_of_char c < 0xC0)"

definition short_member_id :: "string \<Rightarrow> string" where
  "short_member_id i = (if 16 < length i \<and> starts_char (i ! 16) then take 16 i else i)"

text \<open>\<open>alive\<close> answers whether the null signal reaches the process.\<close>

definition daemon_running_status :: "(int \<Rightarrow> bool) \<Rightarrow> fs \<Rightarrow> abspath \<Rightarrow> daemon_status" where
  "daemon_running_status alive fs state_dir =
     (case stored_pid fs state_dir of
        None \<Rightarrow> Stopped
      | Some pid \<Rightarrow> if alive pid then Running pid else StalePidFile)"

datatype kill_answer = Killed | NoSuchProcess | KillFailed io_error

definition stop_cmd :: "(int \<Rightarrow> kill_answer) \<Rightarrow> abspath \<Rightarrow> fs \<Rightarrow> int io_result \<times> fs" where
  "stop_cmd kill state_dir fs =
     (case stored_pid fs state_dir of
        None \<Rightarrow> (Inl Other, fs)
      | Some pid \<Rightarrow>
          (case kill pid of
             Killed \<Rightarrow> (Inr pid, snd (remove_file fs (state_dir @ [PID_FILE])))
           | NoSuchProcess \<Rightarrow> (Inl Other, snd (remove_file fs (state_dir @ [PID_FILE])))
           | KillFailed e \<Rightarrow> (Inl e, fs)))"

record status_report =
  st_daemon :: daemon_status
  st_root :: string
  st_live :: nat
  st_lamport :: u64
  st_members :: "(member_status \<times> string \<times> bool) list"

definition status_cmd :: "cmd_env \<Rightarrow> (int \<Rightarrow> bool) \<Rightarrow> abspath \<Rightarrow> fs \<Rightarrow> status_report io_result \<times> fs" where
  "status_cmd E alive folder fs =
     (let state_dir = folder @ [STATE_DIR] in
      io_bind (load_saved_entries (ce_lib E) fs state_dir, fs) (\<lambda>entries fs.
        io_bind (load_node E state_dir fs) (\<lambda>(n, g) fs1.
          (Inr \<lparr>st_daemon = daemon_running_status alive fs state_dir,
                st_root = take 16 (hex (ts_root_hash (derive_tree (blake3 (ce_lib E)) entries))),
                st_live = length (filter (\<lambda>e. e_kind e \<noteq> Tombstone) (fm_values entries)),
                st_lamport = read_stored_lamport fs state_dir,
                st_members = map (\<lambda>m. (m_status m, short_member_id (m_id m), m_id m = node_id_to_string n)) (group_members g)\<rparr>,
           fs1))))"

section \<open>Starting the daemon\<close>

text \<open>Opening a file that is created when it is missing and otherwise left as it is.\<close>

definition open_create :: "fs \<Rightarrow> abspath \<Rightarrow> bytes io_result \<times> fs" where
  "open_create fs p =
     io_bind (and_then (follow fs p) (\<lambda>q. fault fs q (Inr q)), fs)
       (\<lambda>q fs. case node_at fs q of
              None \<Rightarrow> (Inr [], put_node q (FsFile [] (fs_file_mode fs) (fs_now fs)) fs)
            | Some (FsFile c _ _) \<Rightarrow> (Inr c, fs)
            | Some _ \<Rightarrow> (Inl Other, fs))"

text \<open>\<open>flock\<close> is the answer of the system call of that name, on the open file.\<close>

datatype flock_answer = Locked | WouldBlock | FlockFailed io_error

definition acquire_daemon_lock :: "flock_answer \<Rightarrow> abspath \<Rightarrow> fs \<Rightarrow> unit io_result \<times> fs" where
  "acquire_daemon_lock flock state_dir fs =
     io_bind (open_create fs (state_dir @ [''daemon.lock''])) (\<lambda>_ fs1.
       (case flock of Locked \<Rightarrow> Inr () | WouldBlock \<Rightarrow> Inl Other | FlockFailed e \<Rightarrow> Inl e, fs1))"

text \<open>
  The part of \<open>run_sync\<close> before the first message: \<open>lock\<close> is the answer to locking the lock file,
  \<open>watch\<close> the start of the watcher, \<open>bind\<close> the listener, which returns the port it listens on. The
  result is the daemon, the peers known from the group file, and the port.
\<close>

definition requested_port :: "u16 option \<Rightarrow> fs \<Rightarrow> abspath \<Rightarrow> u16" where
  "requested_port port fs state_dir =
     (case port of Some p \<Rightarrow> p | None \<Rightarrow> (case load_port fs state_dir of Some p \<Rightarrow> p | None \<Rightarrow> 0))"

definition initial_daemon ::
    "folder_state \<Rightarrow> group_state \<Rightarrow> address_book \<Rightarrow> string \<Rightarrow> abspath \<Rightarrow> fs \<Rightarrow> daemon" where
  "initial_daemon s g book origin state_dir fs =
     \<lparr>da_state = s, da_fs = fs, da_group = g, da_reports = fmempty,
      da_activity = \<lparr>sa_active = False, sa_pending_rescan = False\<rparr>, da_status = None, da_book = book,
      da_tracker = \<lparr>pt_last_sync = None, pt_last_sync_at = None, pt_last_peers = None, pt_last_peers_at = None\<rparr>,
      da_sent = [], da_probes = [], da_peer_requests = [], da_origin = origin, da_state_dir = state_dir,
      da_recv = 0, da_request = 1\<rparr>"

definition daemon_start ::
    "cmd_env \<Rightarrow> (string \<Rightarrow> (string, peer_info) fmap option) \<Rightarrow> flock_answer \<Rightarrow> unit io_result \<Rightarrow>
     (u16 \<Rightarrow> u16 io_result) \<Rightarrow> abspath \<Rightarrow> u16 option \<Rightarrow> fs \<Rightarrow> (daemon \<times> node_id list \<times> u16) io_result \<times> fs" where
  "daemon_start E book_from_json lock watch bind folder port fs =
     (let state_dir = folder @ [STATE_DIR] in
      io_bind (create_dir_all fs folder) (\<lambda>_ fs1.
        io_bind (create_dir_all fs1 state_dir) (\<lambda>_ fs2.
          io_bind (acquire_daemon_lock lock state_dir fs2) (\<lambda>_ fs2.
            io_bind (load_node E state_dir fs2) (\<lambda>(n, g) fs3.
              io_bind (folder_state_new (ce_lib E) folder (node_id_to_string n) fs3) (\<lambda>s fs4.
                io_bind (watch, fs4) (\<lambda>_ fs4.
                  io_bind (bind (requested_port port fs4 state_dir), fs4) (\<lambda>rpc_port fs4.
                    io_bind (save_port fs4 state_dir rpc_port) (\<lambda>_ fs5.
                      (Inr (initial_daemon s g (load_address_book book_from_json fs4 state_dir) (node_id_to_string n)
                              state_dir fs5, active_peers g, rpc_port), fs5))))))))))"

end
