(* ===== verification/Lil_Codec.thy ===== *)
theory Lil_Codec
  imports Lil_Group
begin

text \<open>
  A text format for the group file and the invitations that satisfies what is assumed of
  \<open>serde_json\<close>: every value can be written, as valid UTF-8, and is read back as it was. A value is
  a list of byte fields, each printed in hexadecimal and ended by a comma.
\<close>

section \<open>Fields\<close>

definition enc_fields :: "bytes list \<Rightarrow> string" where
  "enc_fields parts = concat (map (\<lambda>b. hex b @ '','') parts)"

fun dec_fields :: "string \<Rightarrow> string \<Rightarrow> bytes list option" where
  "dec_fields acc [] = (if acc = [] then Some [] else None)"
| "dec_fields acc (c # s) =
     (if c = CHR '','' then
        (case parse_hex_chunks acc of None \<Rightarrow> None | Some b \<Rightarrow> map_option ((#) b) (dec_fields [] s))
      else dec_fields (acc @ [c]) s)"

lemma dec_field: "CHR '','' \<notin> set h \<Longrightarrow>
    dec_fields acc (h @ '','' @ s) =
      (case parse_hex_chunks (acc @ h) of None \<Rightarrow> None | Some b \<Rightarrow> map_option ((#) b) (dec_fields [] s))"
  by (induction h arbitrary: acc) auto

lemma hex_digit_not_comma: "n < 16 \<Longrightarrow> hex_digit n \<noteq> CHR '','' \<and> byte_of_char (hex_digit n) < 0x80"
proof -
  have "\<forall>n \<in> {0..<16}. hex_digit n \<noteq> CHR '','' \<and> byte_of_char (hex_digit n) < 0x80" by code_simp
  then show "n < 16 \<Longrightarrow> hex_digit n \<noteq> CHR '','' \<and> byte_of_char (hex_digit n) < 0x80" by simp
qed

lemma hex_chars: "c \<in> set (hex b) \<Longrightarrow> c \<noteq> CHR '','' \<and> byte_of_char c < 0x80"
proof -
  assume "c \<in> set (hex b)"
  then obtain x where "c \<in> set (hex_byte x)" by (auto simp: hex_def)
  moreover have "unat x < 256" using unsigned_less [of x] by simp
  then have "unat x div 16 < 16" "unat x mod 16 < 16" by auto
  ultimately show ?thesis using hex_digit_not_comma by (auto simp: hex_byte_def)
qed

lemma dec_enc_fields: "dec_fields [] (enc_fields parts) = Some parts"
proof (induction parts)
  case (Cons b parts)
  have "CHR '','' \<notin> set (hex b)" using hex_chars by blast
  from dec_field [OF this, of "[]" "enc_fields parts"] Cons parse_hex_chunks_hex [of b] show ?case
    by (simp add: enc_fields_def hex_def)
qed (simp add: enc_fields_def)

lemma enc_fields_utf8: "from_utf8 (as_bytes (enc_fields parts)) = Some (enc_fields parts)"
proof -
  have "byte_of_char CHR '','' < 0x80" by code_simp
  then have "list_all (\<lambda>b. b < 0x80) (as_bytes (enc_fields parts))"
    using hex_chars by (auto simp: enc_fields_def as_bytes_def list_all_iff)
  from utf8_valid_ascii [OF this] show ?thesis
    by (simp add: from_utf8_def as_bytes_def map_idI)
qed

section \<open>The files\<close>

fun member_fields :: "member_entry \<Rightarrow> bytes list" where
  "member_fields m = [as_bytes (m_id m), [if m_status m = Active then 1 else 0], u64_to_be_bytes (m_lamport m)]"

fun members_of :: "bytes list \<Rightarrow> member_entry list" where
  "members_of (i # s # l # rest) =
     \<lparr>m_id = map char_of_byte i, m_status = (if s = [1] then Active else Removed), m_lamport = u64_from_be_bytes l\<rparr> #
     members_of rest"
| "members_of _ = []"

fun invite_fields :: "pending_invite \<Rightarrow> bytes list" where
  "invite_fields i = [as_bytes (pi_secret_hash i), u64_to_be_bytes (pi_expires_at_ms i)]"

fun invites_of :: "bytes list \<Rightarrow> pending_invite list" where
  "invites_of (h # e # rest) =
     \<lparr>pi_secret_hash = map char_of_byte h, pi_expires_at_ms = u64_from_be_bytes e\<rparr> # invites_of rest"
| "invites_of _ = []"

fun peers_fields :: "peers_file \<Rightarrow> bytes list" where
  "peers_fields f =
     (case pf_topic_id f of None \<Rightarrow> [] | Some t \<Rightarrow> 1 # as_bytes t) # concat (map member_fields (pf_members f))"

fun peers_of :: "bytes list \<Rightarrow> peers_file option" where
  "peers_of [] = None"
| "peers_of (t # rest) =
     Some \<lparr>pf_topic_id = (case t of [] \<Rightarrow> None | _ # s \<Rightarrow> Some (map char_of_byte s)), pf_members = members_of rest\<rparr>"

definition plain_json :: json where
  "plain_json =
     \<lparr>peers_to_json = (\<lambda>f. Some (as_bytes (enc_fields (peers_fields f)))),
      peers_from_json = (\<lambda>s. case dec_fields [] s of None \<Rightarrow> None | Some fs \<Rightarrow> peers_of fs),
      invites_to_json = (\<lambda>l. Some (as_bytes (enc_fields (concat (map invite_fields l))))),
      invites_from_json = (\<lambda>s. map_option invites_of (dec_fields [] s))\<rparr>"

lemma chars_of_as_bytes: "map char_of_byte (as_bytes t) = t"
  by (simp add: as_bytes_def map_idI)

lemma members_of_fields: "members_of (concat (map member_fields ms)) = ms"
proof (induction ms)
  case (Cons m ms)
  then show ?case by (cases "m_status m") (simp_all add: chars_of_as_bytes)
qed simp

lemma invites_of_fields: "invites_of (concat (map invite_fields l)) = l"
  by (induction l) (simp_all add: chars_of_as_bytes)

lemma plain_json_reads_back:
  "\<exists>b c. invites_to_json plain_json l = Some b \<and> from_utf8 b = Some c \<and> invites_from_json plain_json c = Some l"
  "\<exists>b c. peers_to_json plain_json f = Some b \<and> from_utf8 b = Some c \<and> peers_from_json plain_json c = Some f"
  by (simp_all add: plain_json_def enc_fields_utf8 dec_enc_fields invites_of_fields members_of_fields chars_of_as_bytes
      split: option.split)

end
