(* ===== verification/Lil_CommandFacts.thy ===== *)
theory Lil_CommandFacts
  imports Lil_Commands Lil_Codec
begin

text \<open>
  What the commands achieve together: an invitation printed on one node admits the node that joins
  with it, the node that joined starts with the inviter's list of members, and a daemon that starts
  is consistent.
\<close>

section \<open>Invitations\<close>

definition json_reads_back :: "json \<Rightarrow> bool" where
  "json_reads_back J \<longleftrightarrow>
     (\<forall>l. \<exists>b c. invites_to_json J l = Some b \<and> from_utf8 b = Some c \<and> invites_from_json J c = Some l) \<and>
     (\<forall>f. \<exists>b c. peers_to_json J f = Some b \<and> from_utf8 b = Some c \<and> peers_from_json J c = Some f)"

text \<open>A state directory in which the group and the invitations can be written.\<close>

definition group_dir_ok :: "fs \<Rightarrow> abspath \<Rightarrow> bool" where
  "group_dir_ok fs d \<longleftrightarrow> writable_slot fs d INVITES_FILE \<and> writable_slot fs d PEERS_FILE \<and> no_fault fs d"

lemma command_file_names [simp]:
  "with_extension_tmp INVITES_FILE = ''invites.tmp''" "with_extension_tmp PEERS_FILE = ''peers.tmp''"
  by code_simp+

lemma wrote_group_dir:
  assumes "group_dir_ok fs d" "wrote fs d n c fs'" "n = INVITES_FILE \<or> n = PEERS_FILE"
  shows "group_dir_ok fs' d"
proof -
  have disjoint: "{PEERS_FILE, with_extension_tmp PEERS_FILE} \<inter> {INVITES_FILE, with_extension_tmp INVITES_FILE} = {}"
    "{INVITES_FILE, with_extension_tmp INVITES_FILE} \<inter> {PEERS_FILE, with_extension_tmp PEERS_FILE} = {}" by code_simp+
  have "no_fault fs' d" using assms(1,2) by (simp add: group_dir_ok_def wrote_def)
  moreover have slots: "writable_slot fs d INVITES_FILE" "writable_slot fs d PEERS_FILE" using assms(1) by (simp_all add: group_dir_ok_def)
  ultimately show ?thesis
    using assms(2,3) wrote_slot(1) [OF slots(1)] wrote_slot(1) [OF slots(2)] wrote_slot(2) [OF slots(1) _ slots(2) disjoint(1)]
      wrote_slot(2) [OF slots(2) _ slots(1) disjoint(2)]
    unfolding group_dir_ok_def by metis
qed

lemma save_invites_wrote:
  assumes "group_dir_ok fs d" "json_reads_back J"
  obtains fs' where "save_invites J fs (d @ [INVITES_FILE]) l = (Inr (), fs')"
    "load_invites J fs' (d @ [INVITES_FILE]) = Inr l" "group_dir_ok fs' d"
proof -
  obtain b c where j: "invites_to_json J l = Some b" "from_utf8 b = Some c" "invites_from_json J c = Some l"
    using assms(2) unfolding json_reads_back_def by blast
  have slot: "writable_slot fs d INVITES_FILE" "create_dir_all fs d = (Inr (), fs)"
    using assms(1) by (simp_all add: group_dir_ok_def create_dir_all_real writable_slot_def)
  obtain fs' where w: "write_atomic fs (d @ [INVITES_FILE]) b = (Inr (), fs')" "wrote fs d INVITES_FILE b fs'"
    using write_atomic_wrote [OF slot(1)] by blast
  show thesis
    by (rule that [of fs'])
      (use slot j w wrote_read [OF slot(1) w(2)] wrote_group_dir [OF assms(1) w(2)] in
        \<open>auto simp: save_invites_def io_seq_def load_invites_def read_to_string_def and_then_def\<close>)
qed

lemma save_peers_wrote:
  assumes "group_dir_ok fs d" "json_reads_back J"
  obtains b c fs' where "save_peers_file J fs (d @ [PEERS_FILE]) ms = (Inr (), fs')"
    "read_to_string fs' (d @ [PEERS_FILE]) = Inr c" "group_dir_ok fs' d" "wrote fs d PEERS_FILE b fs'"
    "peers_from_json J c = Some \<lparr>pf_topic_id = None, pf_members = sort_key m_id ms\<rparr>"
proof -
  let ?f = "\<lparr>pf_topic_id = None, pf_members = sort_key m_id ms\<rparr>"
  obtain b c where j: "peers_to_json J ?f = Some b" "from_utf8 b = Some c" "peers_from_json J c = Some ?f"
    using assms(2) unfolding json_reads_back_def by blast
  have slot: "writable_slot fs d PEERS_FILE" "create_dir_all fs d = (Inr (), fs)"
    using assms(1) by (simp_all add: group_dir_ok_def create_dir_all_real writable_slot_def)
  obtain fs' where w: "write_atomic fs (d @ [PEERS_FILE]) b = (Inr (), fs')" "wrote fs d PEERS_FILE b fs'"
    using write_atomic_wrote [OF slot(1)] by blast
  show thesis
    by (rule that [of fs' c b])
      (use slot j w wrote_read [OF slot(1) w(2)] wrote_group_dir [OF assms(1) w(2)] in
        \<open>auto simp: save_peers_file_def io_seq_def read_to_string_def and_then_def\<close>)
qed

lemma added_invite_is_consumed:
  assumes "group_dir_ok fs d" "json_reads_back J"
    and "add_invite J X earlier fs (d @ [INVITES_FILE]) secret expires = (Inr (), fs1)" "now < expires"
  shows "group_dir_ok fs1 d \<and> (\<exists>fs2. consume_invite J X now fs1 (d @ [INVITES_FILE]) secret = (Inr True, fs2) \<and> group_dir_ok fs2 d)"
proof -
  let ?p = "d @ [INVITES_FILE]" and ?new = "\<lparr>pi_secret_hash = hash_secret X secret, pi_expires_at_ms = expires\<rparr>"
  obtain l where l: "save_invites J fs ?p (l @ [?new]) = (Inr (), fs1)"
    using assms(3) by (auto simp: add_invite_def split: sum.splits)
  from save_invites_wrote [OF assms(1,2), of "l @ [?new]"] l have
    f1: "load_invites J fs1 ?p = Inr (l @ [?new])" "group_dir_ok fs1 d" by auto
  let ?h = "hash_secret X secret"
  let ?kept = "filter (keep_invite now ?h) (l @ [?new])"
  have "\<not> keep_invite now ?h ?new" by (simp add: keep_invite_def)
  then have ne: "length ?kept \<noteq> length (l @ [?new])" using length_filter_le [of "keep_invite now ?h" l] by (simp del: length_filter_le)
  from save_invites_wrote [OF f1(2) assms(2), of ?kept] obtain fs2 where
    "save_invites J fs1 ?p ?kept = (Inr (), fs2)" "group_dir_ok fs2 d" by blast
  with f1 ne assms(4) show ?thesis
    unfolding consume_invite_def by (simp add: Let_def not_le)
qed

lemma add_peer_saved:
  assumes "group_dir_ok fs d" "json_reads_back J" "g_path g = d @ [PEERS_FILE]"
  shows "\<exists>a g' fs'. add_active_peer J peer g fs = (Inr a, g', fs')"
proof -
  have "\<exists>fs'. group_persist J (g\<lparr>g_members := ms\<rparr>) fs = (Inr (), fs')" for ms
    using save_peers_wrote [OF assms(1,2), of "group_members (g\<lparr>g_members := ms\<rparr>)"] assms(3)
    by (auto simp: group_persist_def)
  then obtain f where f: "group_persist J (g\<lparr>g_members := ms\<rparr>) fs = (Inr (), f ms)" for ms by metis
  show ?thesis
    unfolding add_active_peer_def Let_def
    by (cases "fmlookup (g_members g) (node_id_to_string peer)") (auto simp: f)
qed


section \<open>Joining\<close>

lemma fm_collect_members:
  assumes "fmpred (\<lambda>k e. m_id e = k) ms" "set l = set (fm_values ms)"
  shows "fm_collect (map (\<lambda>e. (m_id e, e)) l) = ms"
proof -
  have look: "fmlookup (fold (\<lambda>(k, v) m. fmupd k v m) (map (\<lambda>e. (m_id e, e)) xs) m0) k =
      (if \<exists>e \<in> set xs. m_id e = k then fmlookup ms k else fmlookup m0 k)"
    if "set xs \<subseteq> set (fm_values ms)" for xs m0 k
    using that
  proof (induction xs arbitrary: m0)
    case (Cons e xs)
    from Cons.prems have "e \<in> set (fm_values ms)" by simp
    then have "fmlookup ms (m_id e) = Some e" using assms(1) by (auto simp: in_fm_values dest: fmpredD)
    with Cons.IH [of "fmupd (m_id e) e m0"] Cons.prems show ?case by auto
  qed simp
  show ?thesis
  proof (rule fmap_ext)
    fix k
    have "\<exists>e \<in> set l. m_id e = k" if "fmlookup ms k = Some e" for e
      using that assms fmpredD [OF assms(1) that] by (auto simp: in_fm_values)
    then have "\<not> (\<exists>e \<in> set l. m_id e = k) \<Longrightarrow> fmlookup ms k = None" by (meson not_Some_eq)
    with look [of l fmempty k] assms(2) show "fmlookup (fm_collect (map (\<lambda>e. (m_id e, e)) l)) k = fmlookup ms k"
      by (simp add: fm_collect_def)
  qed
qed

text \<open>Saving the address book touches its own file and its temporary only.\<close>

lemma save_book_frame:
  assumes "endpoint_slot fs d" "save_address_book to_json fs d book = (Inr (), fs')"
  shows "q \<noteq> d @ [ENDPOINTS_FILE] \<Longrightarrow> q \<noteq> d @ [ENDPOINTS_FILE @ ''.tmp''] \<Longrightarrow> node_at fs' q = node_at fs q"
    and "no_fault fs' = no_fault fs" "real_dir fs e \<Longrightarrow> real_dir fs' e"
proof -
  let ?n = ENDPOINTS_FILE and ?t = "ENDPOINTS_FILE @ ''.tmp''"
  obtain b where b: "to_json (fm_collect (map (\<lambda>(n, info). (node_id_to_string n, info)) (fm_iter book))) = Some b"
    using assms(2) by (auto simp: save_address_book_def split: option.splits)
  have s: "real_dir fs d" "no_fault fs (d @ [?n])" "no_fault fs (d @ [?t])" "plain (node_at fs (d @ [?n]))"
    "node_at fs (d @ [?t]) = None \<or> (\<exists>c m t. node_at fs (d @ [?t]) = Some (FsFile c m t))"
    using assms(1) by (auto simp: endpoint_slot_def elim: plainE)
  obtain m where w: "write_file fs (d @ [?t]) b = (Inr (), put_node (d @ [?t]) (FsFile b m (fs_now fs)) fs)"
    by (rule write_file_real [OF s(1,3,5)])
  let ?fs1 = "put_node (d @ [?t]) (FsFile b m (fs_now fs)) fs"
  let ?fs2 = "put_node (d @ [?n]) (FsFile b m (fs_now fs)) (drop_node (d @ [?t]) ?fs1)"
  have nd: "\<not> is_dir_node (node_at fs (d @ [?t]))" using s(5) by (auto simp: is_dir_node_iff)
  have "real_dir ?fs1 d" using s(1) nd by (intro real_dir_put) auto
  then have "rename ?fs1 (d @ [?t]) (d @ [?n]) = (Inr (), ?fs2)" by (intro rename_real) (use s in auto)
  with w b assms(2) have fs': "fs' = ?fs2" by (simp add: save_address_book_def io_seq_def Let_def)
  show "q \<noteq> d @ [?n] \<Longrightarrow> q \<noteq> d @ [?t] \<Longrightarrow> node_at fs' q = node_at fs q" by (simp add: fs')
  show "no_fault fs' = no_fault fs" by (simp add: fs')
  show "real_dir fs e \<Longrightarrow> real_dir fs' e" by (rule real_dir_frame) (use s(4) nd in \<open>auto simp: fs'\<close>)
qed

lemma group_file_names:
  "ENDPOINTS_FILE \<notin> {PEERS_FILE, INVITES_FILE, ''peers.tmp'', ''invites.tmp''}"
  "ENDPOINTS_FILE @ ''.tmp'' \<notin> {PEERS_FILE, INVITES_FILE, ''peers.tmp'', ''invites.tmp''}"
  by code_simp+

lemma save_book_group_dir:
  assumes "endpoint_slot fs d" "save_address_book to_json fs d book = (Inr (), fs')" "group_dir_ok fs d"
  shows "group_dir_ok fs' d" "read_to_string fs' (d @ [PEERS_FILE]) = read_to_string fs (d @ [PEERS_FILE])"
proof -
  have same: "node_at fs' (d @ [x]) = node_at fs (d @ [x])" if "x \<in> {PEERS_FILE, INVITES_FILE, ''peers.tmp'', ''invites.tmp''}" for x
    using save_book_frame(1) [OF assms(1,2), of "d @ [x]"] that group_file_names by (metis last_snoc)
  note frame = save_book_frame(2,3) [OF assms(1,2)]
  show "group_dir_ok fs' d"
    using assms(3) same by (simp add: group_dir_ok_def writable_slot_def frame)
  have "real_dir fs d" "no_fault fs (d @ [PEERS_FILE])" "plain (node_at fs (d @ [PEERS_FILE]))" using assms(3) by (simp_all add: group_dir_ok_def writable_slot_def)
  with same [of PEERS_FILE] show "read_to_string fs' (d @ [PEERS_FILE]) = read_to_string fs (d @ [PEERS_FILE])"
    by (simp add: read_to_string_def read_file_def stat_real frame)
qed

lemma wrote_endpoint_slot:
  assumes "endpoint_slot fs d" "wrote fs d PEERS_FILE b fs'"
  shows "endpoint_slot fs' d"
  using assms group_file_names by (auto simp: endpoint_slot_def wrote_def)

text \<open>
  C22. A node that has joined starts with the inviter's ledger: when \<open>join\<close> succeeds against a peer
  that accepts with its list of members, in which the node itself is, loading the group file
  afterwards gives exactly those members, each with its status and Lamport value.
\<close>

theorem joined_node_has_inviters_ledger:
  assumes "join_cmd E call rid d key ticket book fs = (Inr (), fs')"
    and "parse_join_ticket ticket = Inr t"
    and "\<And>bk req. call bk (jt_issuer t) req = Inr (JoinAccepted rid (group_members g))"
    and "fmpred (\<lambda>k e. m_id e = k) (g_members g)" "is_active_member g (identity_node_id (ce_vk E) key)"
    and "group_dir_ok fs d" "endpoint_slot fs d" "json_reads_back (ce_json E)"
  shows "\<exists>h fs''. load_or_init_group (ce_json E) fs' (d @ [PEERS_FILE]) (identity_node_id (ce_vk E) key) = (Inr h, fs'') \<and>
    g_members h = g_members g"
proof -
  let ?p = "d @ [PEERS_FILE]" and ?me = "identity_node_id (ce_vk E) key"
  obtain fs1 where fs1: "save_peers_file (ce_json E) fs ?p (group_members g) = (Inr (), fs1)"
    and b: "save_address_book (ce_book_to_json E) fs1 d
      (fmupd (jt_issuer t) \<lparr>pi_endpoints = jt_endpoints t, pi_name = None\<rparr> book) = (Inr (), fs')"
    using assms(1-3)
    by (auto simp: join_cmd_def join_group_def and_then_def io_seq_def Let_def split: if_splits prod.splits sum.splits)
  let ?ms = "sort_key m_id (group_members g)"
  obtain b1 c x where "save_peers_file (ce_json E) fs ?p (group_members g) = (Inr (), x)" and
    x: "read_to_string x ?p = Inr c" "group_dir_ok x d" "wrote fs d PEERS_FILE b1 x"
      "peers_from_json (ce_json E) c = Some \<lparr>pf_topic_id = None, pf_members = ?ms\<rparr>"
    by (rule save_peers_wrote [OF assms(6,8)])
  with fs1 have "x = fs1" by simp
  note c = x [unfolded this]
  note dir' = save_book_group_dir [OF wrote_endpoint_slot [OF assms(7) c(3)] b c(2)]
  have ledger: "fm_collect (map (\<lambda>e. (m_id e, e)) ?ms) = g_members g"
    by (rule fm_collect_members [OF assms(4)]) (simp add: group_members_def)
  have me: "node_id_to_string ?me |\<in>| fmdom (g_members g)"
    using assms(5) by (auto simp: is_active_member_def split: option.splits intro: fmdomI)
  let ?h = "\<lparr>g_path = ?p, g_local_id = node_id_to_string ?me, g_members = g_members g\<rparr>"
  from save_peers_wrote [OF dir'(1) assms(8), of "group_members ?h"] obtain fs'' where
    "group_persist (ce_json E) ?h fs' = (Inr (), fs'')" by (auto simp: group_persist_def)
  then have "load_or_init_group (ce_json E) fs' ?p ?me = (Inr ?h, fs'')"
    using dir'(2) c(1,4) ledger me by (simp add: load_or_init_group_def Let_def)
  then show ?thesis by (intro exI [of _ ?h] exI [of _ fs'']) simp
qed

section \<open>Starting\<close>

lemma load_or_init_group_effect:
  assumes "load_or_init_group J fs p n = (Inr g, fs')"
  shows "g_path g = p \<and> g_local_id g = node_id_to_string n \<and> node_id_to_string n |\<in>| fmdom (g_members g)"
  using assms by (auto simp: load_or_init_group_def Let_def split: sum.splits option.splits prod.splits if_splits)

lemma load_node_effect:
  assumes "load_node E d fs = (Inr (n, g), fs')"
  shows "g_path g = d @ [PEERS_FILE] \<and> g_local_id g = node_id_to_string n \<and> node_id_to_string n |\<in>| fmdom (g_members g)"
  using assms load_or_init_group_effect by (auto simp: load_node_def Let_def)

lemma folder_state_new_effect:
  assumes "folder_state_new X root origin fs = (Inr s, fs')"
  shows "fo_origin s = origin \<and> trees_ok X s"
proof -
  obtain r E fs2 fs3 s1 n changes fs4 where p: "prune_tombstones_covered_by_watermark X (loaded_state X r origin E fs2) = (n, s1)"
    and r: "rescan X s1 fs3 = (Inr changes, s, fs4)"
    using assms by (auto simp: folder_state_new_def start_scan_def Let_def split: sum.splits prod.splits)
  obtain s2 where s2: "local_run (s1, []) (s2, changes)" "s = rebuild_trees X s2" using r by (rule rescan_run)
  have "fo_origin s1 = origin" using prune_entries(3) [OF p] by (simp add: loaded_state_def Let_def)
  moreover have "fo_origin s2 = fo_origin s1" by (rule local_run_summary [OF s2(1)])
  ultimately have "fo_origin s2 = origin" by simp
  then show ?thesis by (simp add: s2(2) rebuild_trees_def trees_ok_def)
qed

text \<open>
  C19. A daemon that starts is well formed: it speaks under the id of its key in all its parts, is a
  member of its own group, has exactly the trees of its index, and begins with no synchronisation
  running and no reported root, so nothing can be collected before every peer has reported.
\<close>

theorem started_daemon_is_well_formed:
  assumes "daemon_start E book_from_json lock watch bind folder port fs = (Inr (d, bootstrap, rpc_port), fs')"
  shows "fo_origin (da_state d) = da_origin d \<and> g_local_id (da_group d) = da_origin d \<and>
    da_origin d |\<in>| fmdom (g_members (da_group d)) \<and> bootstrap = active_peers (da_group d) \<and>
    trees_ok (ce_lib E) (da_state d) \<and> \<not> sa_active (da_activity d) \<and>
    (active_peer_ids (da_group d) \<noteq> [] \<longrightarrow> gc_check d = None)"
proof -
  let ?sd = "folder @ [STATE_DIR]"
  obtain n g s fs2 fs3 fs4 book where ld: "load_node E ?sd fs2 = (Inr (n, g), fs3)"
    and st: "folder_state_new (ce_lib E) folder (node_id_to_string n) fs3 = (Inr s, fs4)"
    and d: "d = initial_daemon s g book (node_id_to_string n) ?sd fs'" "bootstrap = active_peers g"
    using assms by (auto simp: daemon_start_def Let_def)
  have "gc_check d = None" if "active_peer_ids g \<noteq> []"
    using that by (cases "active_peer_ids g") (simp_all add: gc_check_def all_active_match_def d(1) initial_daemon_def Let_def)
  with load_node_effect [OF ld] folder_state_new_effect [OF st] show ?thesis by (simp add: d initial_daemon_def)
qed

section \<open>Instances\<close>

definition ex_cmd :: cmd_env where
  "ex_cmd =
     \<lparr>ce_json = plain_json, ce_lib = ex_lib, ce_vk = (\<lambda>k. k), ce_random_key = Inr (replicate 32 5),
      ce_random_secret = Inr (replicate 32 9), ce_now = 50, ce_interfaces = Inr [V4 [10, 0, 0, 1]],
      ce_book_to_json = (\<lambda>_. Some [0x41])\<rparr>"

abbreviation ex_dir :: abspath where
  "ex_dir \<equiv> [''r'', ''.lil'']"

lemma plain_json_ok: "json_reads_back plain_json"
  unfolding json_reads_back_def using plain_json_reads_back by blast

lemma ex_ticket:
  "\<exists>t. encode_ticket (replicate 32 5) (replicate 32 9) [''h:1''] = Inr t \<and>
     parse_join_ticket t = Inr \<lparr>jt_issuer = replicate 32 5, jt_secret = hex (replicate 32 9), jt_endpoints = [''h:1'']\<rparr>"
proof -
  have "utf8_valid (as_bytes (join_char CHR '','' [''h:1'']))" by code_simp
  then show ?thesis
    using encoded_ticket_parses [of "replicate 32 5" "replicate 32 9" "[''h:1'']"] by (simp add: MAX_TICKET_ENDPOINT_BYTES_def)
qed


definition ex_inviter :: group_state where
  "ex_inviter = ex_group 5 [ex_member 5 Active 1, ex_member 4 Active 3, ex_member 2 Removed 2]"

theorem joined_node_has_inviters_ledger_witness:
  "\<exists>ticket fs' h fs''. join_cmd ex_cmd (\<lambda>_ _ _. Inr (JoinAccepted 7 (group_members ex_inviter))) 7 ex_dir (ex_node 4) ticket fmempty ex_fs =
      (Inr (), fs') \<and> load_or_init_group plain_json fs' (ex_dir @ [PEERS_FILE]) (ex_node 4) = (Inr h, fs'') \<and>
    g_members h = g_members ex_inviter"
proof -
  obtain ticket where t: "parse_join_ticket ticket =
      Inr \<lparr>jt_issuer = replicate 32 5, jt_secret = hex (replicate 32 9), jt_endpoints = [''h:1'']\<rparr>" using ex_ticket by blast
  let ?call = "\<lambda>_ _ _. Inr (JoinAccepted 7 (group_members ex_inviter))"
  have "fst (io_seq (save_peers_file plain_json ex_fs (ex_dir @ [PEERS_FILE]) (group_members ex_inviter))
      (\<lambda>fs1. save_address_book (\<lambda>_. Some [0x41]) fs1 ex_dir
         (fmupd (replicate 32 5) \<lparr>pi_endpoints = [''h:1''], pi_name = None\<rparr> fmempty))) = Inr ()" by code_simp
  then have "fst (join_cmd ex_cmd ?call 7 ex_dir (ex_node 4) ticket fmempty ex_fs) = Inr ()"
    by (simp add: join_cmd_def t join_group_def and_then_def ex_cmd_def)
  then obtain fs' where j: "join_cmd ex_cmd ?call 7 ex_dir (ex_node 4) ticket fmempty ex_fs = (Inr (), fs')" by (metis prod.collapse)
  have v: "fmpred (\<lambda>k e. m_id e = k) (g_members ex_inviter) \<and> is_active_member ex_inviter (ex_node 4) \<and>
      group_dir_ok ex_fs ex_dir \<and> endpoint_slot ex_fs ex_dir" by code_simp
  have env: "ce_json ex_cmd = plain_json" "identity_node_id (ce_vk ex_cmd) (ex_node 4) = ex_node 4"
    by (simp_all add: ex_cmd_def identity_node_id_def)
  from joined_node_has_inviters_ledger [OF j t refl] v plain_json_ok j show ?thesis unfolding env by blast
qed

theorem started_daemon_is_well_formed_witness:
  "(case daemon_start ex_cmd (\<lambda>_. None) Locked (Inr ()) (\<lambda>_. Inr 7) [''r''] None ex_fs of
      (Inr (d, bootstrap, p), _) \<Rightarrow> fo_origin (da_state d) = da_origin d \<and> trees_ok ex_lib (da_state d)
    | _ \<Rightarrow> False)"
proof -
  have "case daemon_start ex_cmd (\<lambda>_. None) Locked (Inr ()) (\<lambda>_. Inr 7) [''r''] None ex_fs of (Inr _, _) \<Rightarrow> True | _ \<Rightarrow> False"
    by code_simp
  then obtain d b p fs' where "daemon_start ex_cmd (\<lambda>_. None) Locked (Inr ()) (\<lambda>_. Inr 7) [''r''] None ex_fs = (Inr (d, b, p), fs')"
    by (auto split: prod.splits sum.splits)
  with started_daemon_is_well_formed [OF this] show ?thesis by (simp add: ex_cmd_def)
qed

end
