(* ===== verification/Lil_Logging.thy ===== *)
theory Lil_Logging
  imports Lil_Ignore
begin

text \<open>
  The rolling log file, \<open>src/logging.rs\<close>: the file behind the writer's open handle, the backup, the
  count of bytes written, and rotation. What the operating system answers (whether the rename and
  the creation succeed, how much of a buffer one write takes) is an argument of each call.
\<close>

section \<open>The writer\<close>

definition MAX_LOG_BYTES :: nat where
  "MAX_LOG_BYTES = 10 * 1024 * 1024"

datatype rotation_mode = Roll | Trim

record rolling_writer =
  rw_file :: bytes
  rw_backup :: "bytes option"
  rw_written :: nat
  rw_mode :: rotation_mode

record os_answers =
  os_rename_ok :: bool
  os_create_ok :: bool
  os_write :: "nat option"

definition rw_open :: "bytes \<Rightarrow> bytes option \<Rightarrow> rotation_mode \<Rightarrow> rolling_writer" where
  "rw_open content backup mode =
     \<lparr>rw_file = content, rw_backup = backup, rw_written = length content, rw_mode = mode\<rparr>"

definition trim_marker :: bytes where
  "trim_marker = as_bytes ''--- log trimmed ---'' @ [10]"

text \<open>
  When the rename succeeds and the creation fails, the handle goes on writing to the renamed file:
  there is no other backup then.
\<close>

definition rotate_log :: "os_answers \<Rightarrow> rolling_writer \<Rightarrow> bool \<times> rolling_writer" where
  "rotate_log os w =
     (case rw_mode w of
        Roll \<Rightarrow>
          let w1 = (if os_rename_ok os then w\<lparr>rw_backup := (if os_create_ok os then Some (rw_file w) else None)\<rparr> else w)
          in if os_create_ok os then (True, w1\<lparr>rw_file := [], rw_written := 0\<rparr>) else (False, w1)
      | Trim \<Rightarrow>
          if os_create_ok os then (True, w\<lparr>rw_file := trim_marker, rw_written := 0\<rparr>) else (False, w))"

text \<open>\<open>write\<close>: \<open>note\<close> is the line that reports a failed rotation. The result is the number of bytes
  taken, or nothing when the write fails.\<close>

definition rw_write :: "os_answers \<Rightarrow> bytes \<Rightarrow> bytes \<Rightarrow> rolling_writer \<Rightarrow> nat option \<times> rolling_writer" where
  "rw_write os failure_note buf w =
     (let w1 = (if MAX_LOG_BYTES \<le> rw_written w
                then case rotate_log os w of
                       (True, w2) \<Rightarrow> w2
                     | (False, w2) \<Rightarrow> w2\<lparr>rw_file := rw_file w2 @ failure_note\<rparr>
                else w)
      in case os_write os of
           None \<Rightarrow> (None, w1)
         | Some k \<Rightarrow>
             let n = min k (length buf)
             in (Some n, w1\<lparr>rw_file := rw_file w1 @ take n buf, rw_written := rw_written w1 + n\<rparr>))"

text \<open>\<open>to_lowercase\<close> for the letters that can occur in a level name.\<close>

definition ascii_lower :: "char \<Rightarrow> char" where
  "ascii_lower c = (let v = (of_char c :: nat) in if 65 \<le> v \<and> v \<le> 90 then char_of (v + 32) else c)"

definition rotation_mode_of :: "string \<Rightarrow> rotation_mode" where
  "rotation_mode_of env_filter =
     (let level = map ascii_lower (str_trim env_filter) in if level = ''debug'' \<or> level = ''warn'' then Roll else Trim)"

primrec rw_writes :: "bytes \<Rightarrow> (os_answers \<times> bytes) list \<Rightarrow> rolling_writer \<Rightarrow> rolling_writer" where
  "rw_writes failure_note [] w = w"
| "rw_writes failure_note (x # xs) w = rw_writes failure_note xs (snd (rw_write (fst x) failure_note (snd x) w))"

section \<open>The log stays small\<close>

definition log_within :: "nat \<Rightarrow> rolling_writer \<Rightarrow> bool" where
  "log_within b w \<longleftrightarrow> length (rw_file w) \<le> rw_written w + 20 \<and> rw_written w \<le> MAX_LOG_BYTES + b"

lemma length_trim_marker: "length trim_marker = 20"
  by (simp add: trim_marker_def)

lemma rw_write_within:
  assumes "log_within b w" "os_create_ok os" "length buf \<le> b"
  shows "log_within b (snd (rw_write os note buf w))"
proof (cases "MAX_LOG_BYTES \<le> rw_written w")
  case True
  have "0 < MAX_LOG_BYTES" by (simp add: MAX_LOG_BYTES_def)
  with True assms show ?thesis
    by (cases "rw_mode w") (auto simp: rw_write_def rotate_log_def log_within_def length_trim_marker Let_def split: option.split)
next
  case False
  with assms show ?thesis by (auto simp: rw_write_def log_within_def Let_def split: option.split)
qed

lemma rw_writes_within:
  assumes "log_within b w" "\<forall>x \<in> set xs. os_create_ok (fst x) \<and> length (snd x) \<le> b"
  shows "log_within b (rw_writes failure_note xs w)"
  using assms by (induction xs arbitrary: w) (simp_all add: rw_write_within)

text \<open>
  The log stays small: as long as the file can be recreated, whatever is written, in pieces of
  at most \<open>b\<close> bytes, to a log that starts within the limit, the file never exceeds ten megabytes by more
  than one piece and the trim marker, in both rotation modes and whether or not renaming works.
\<close>

theorem log_file_is_bounded:
  assumes "length content \<le> MAX_LOG_BYTES" "\<forall>x \<in> set xs. os_create_ok (fst x) \<and> length (snd x) \<le> b"
  shows "length (rw_file (rw_writes failure_note xs (rw_open content backup mode))) \<le> MAX_LOG_BYTES + b + 20"
proof -
  have "log_within b (rw_open content backup mode)" using assms(1) by (simp add: log_within_def rw_open_def)
  from rw_writes_within [OF this assms(2), of failure_note] show ?thesis by (simp add: log_within_def)
qed

theorem log_file_is_bounded_witness:
  "length (rw_file (rw_writes [1] [(\<lparr>os_rename_ok = False, os_create_ok = True, os_write = Some 2\<rparr>, [1, 2, 3])]
     (rw_open (replicate MAX_LOG_BYTES 0) None Trim))) \<le> MAX_LOG_BYTES + 3 + 20"
  using log_file_is_bounded [of "replicate MAX_LOG_BYTES 0"
      "[(\<lparr>os_rename_ok = False, os_create_ok = True, os_write = Some 2\<rparr>, [1, 2, 3])]" 3 "[1]" None Trim]
  by simp

end
