(* ===== verification/Lil_Cli.thy ===== *)
theory Lil_Cli
  imports Lil_CommandFacts Lil_Logging
begin

text \<open>
  The entry point, \<open>src/main.rs\<close> with the commands of \<open>src/cli.rs\<close>: what each command does to the
  file system and what it reports, up to the event loop of the daemon; and the rows of the status
  view of \<open>src/ui.rs\<close>. The daemon's options that only matter inside the loop are carried along.
\<close>

section \<open>Commands\<close>

datatype command =
    Start abspath "string option" bool nat nat "u16 option"
  | Watch abspath "string option" bool nat nat bool "u16 option"
  | Invite abspath u64 "string list"
  | JoinGroup abspath string "string option" bool bool "u16 option"
  | Remove abspath string
  | Peers abspath
  | Status abspath
  | Stop abspath
  | DumpState abspath "string option"

fun daemon_log_path :: "command \<Rightarrow> abspath option" where
  "daemon_log_path (Start folder _ _ _ _ _) = Some (folder @ [''.lil'', ''sync.log''])"
| "daemon_log_path _ = None"

fun status_mode :: "command \<Rightarrow> bool" where
  "status_mode (Watch _ _ _ _ _ status _) = status"
| "status_mode (JoinGroup _ _ _ exit status _) = (status \<and> \<not> exit)"
| "status_mode _ = False"

text \<open>What a command ends with, or the daemon it goes on to run.\<close>

datatype outcome =
    Ticket string
  | RemovedPeer "string option"
  | PeerList "(member_status \<times> string \<times> bool) list"
  | StatusReport status_report
  | StoppedPid int
  | Dump "dump_line list"
  | JoinedOnly
  | RunsDaemon daemon "node_id list" u16

record system =
  sy_env :: cmd_env
  sy_book_from_json :: "string \<Rightarrow> (string, peer_info) fmap option"
  sy_call :: "address_book \<Rightarrow> node_id \<Rightarrow> request_message \<Rightarrow> response_message io_result"
  sy_rid :: u64
  sy_alive :: "int \<Rightarrow> bool"
  sy_kill :: "int \<Rightarrow> kill_answer"
  sy_log_filter :: string
  sy_lock :: flock_answer
  sy_watch :: "unit io_result"
  sy_bind :: "u16 \<Rightarrow> u16 io_result"
  sy_pid :: nat

definition with_state_dir :: "abspath \<Rightarrow> fs \<Rightarrow> (abspath \<Rightarrow> fs \<Rightarrow> 'a io_result \<times> fs) \<Rightarrow> 'a io_result \<times> fs" where
  "with_state_dir folder fs k =
     io_bind (create_dir_all fs folder) (\<lambda>_ fs1.
       io_bind (create_dir_all fs1 (folder @ [STATE_DIR])) (\<lambda>_ fs2. k (folder @ [STATE_DIR]) fs2))"

definition run_sync :: "system \<Rightarrow> abspath \<Rightarrow> u16 option \<Rightarrow> fs \<Rightarrow> outcome io_result \<times> fs" where
  "run_sync Y folder port fs =
     io_bind (daemon_start (sy_env Y) (sy_book_from_json Y) (sy_lock Y) (sy_watch Y) (sy_bind Y) folder port fs)
       (\<lambda>(d, bootstrap, rpc_port) fs1. (Inr (RunsDaemon d bootstrap rpc_port), fs1))"

fun run_cli :: "system \<Rightarrow> command \<Rightarrow> fs \<Rightarrow> outcome io_result \<times> fs" where
  "run_cli Y (Invite folder secs endpoints) fs =
     with_state_dir folder fs (\<lambda>sd fs1.
       io_bind (create_invite (sy_env Y) sd secs endpoints fs1) (\<lambda>t fs2. (Inr (Ticket t), fs2)))"
| "run_cli Y (Remove folder target) fs =
     with_state_dir folder fs (\<lambda>sd fs1.
       io_bind (remove_peer_cmd (sy_env Y) sd target fs1) (\<lambda>r fs2. (Inr (RemovedPeer r), fs2)))"
| "run_cli Y (Peers folder) fs =
     with_state_dir folder fs (\<lambda>sd fs1.
       io_bind (peers_cmd (sy_env Y) sd fs1) (\<lambda>r fs2. (Inr (PeerList r), fs2)))"
| "run_cli Y (Status folder) fs =
     io_bind (status_cmd (sy_env Y) (sy_alive Y) folder fs) (\<lambda>r fs1. (Inr (StatusReport r), fs1))"
| "run_cli Y (Stop folder) fs =
     io_bind (stop_cmd (sy_kill Y) (folder @ [STATE_DIR]) fs) (\<lambda>pid fs1. (Inr (StoppedPid pid), fs1))"
| "run_cli Y (DumpState folder prefix) fs =
     io_bind (dump_state_cmd (ce_lib (sy_env Y)) fs folder prefix, fs) (\<lambda>l fs1. (Inr (Dump l), fs1))"
| "run_cli Y (JoinGroup folder ticket _ exit _ port) fs =
     with_state_dir folder fs (\<lambda>sd fs1.
       io_bind (load_or_create_identity fs1 (sd @ [KEY_FILE]) (ce_random_key (sy_env Y))) (\<lambda>key fs2.
         io_bind (join_cmd (sy_env Y) (sy_call Y) (sy_rid Y) sd key ticket fmempty fs2) (\<lambda>_ fs3.
           if exit then (Inr JoinedOnly, fs3) else run_sync Y folder port fs3)))"
| "run_cli Y (Start folder _ _ _ _ port) fs = run_sync Y folder port fs"
| "run_cli Y (Watch folder _ _ _ _ _ port) fs = run_sync Y folder port fs"

text \<open>Opening the log: its directory is created, and the writer starts from what the file holds.\<close>

definition init_file_logging :: "string \<Rightarrow> abspath \<Rightarrow> fs \<Rightarrow> rolling_writer io_result \<times> fs" where
  "init_file_logging env_filter path fs =
     io_bind (create_dir_all fs (butlast path)) (\<lambda>_ fs1.
       io_bind (open_create fs1 path) (\<lambda>content fs2.
         let backup = (case read_file fs2 (butlast path @ [last path @ ''.1'']) of Inl _ \<Rightarrow> None | Inr b \<Rightarrow> Some b)
         in (Inr (rw_open content backup (rotation_mode_of env_filter)), fs2)))"

text \<open>
  \<open>main\<close>: a command that runs in the background records the process id before anything else; that
  the file cannot be written is ignored.
\<close>

definition main_cli :: "system \<Rightarrow> command \<Rightarrow> fs \<Rightarrow> outcome io_result \<times> fs" where
  "main_cli Y cmd fs =
     (case daemon_log_path cmd of
        None \<Rightarrow> run_cli Y cmd fs
      | Some log_path \<Rightarrow>
          let fs1 = snd (write_file fs (butlast log_path @ [PID_FILE]) (as_bytes (nat_to_string (sy_pid Y))))
          in io_bind (init_file_logging (sy_log_filter Y) log_path fs1) (\<lambda>_ fs2. run_cli Y cmd fs2))"

section \<open>The status view\<close>

datatype peer_view = PeerOffline | PeerSyncing | PeerSynced

text \<open>\<open>chars().take(n)\<close>: a character is a byte that starts one and the bytes that continue it.\<close>

fun take_chars :: "nat \<Rightarrow> string \<Rightarrow> string" where
  "take_chars n [] = []"
| "take_chars n (c # s) =
     (if starts_char c then (case n of 0 \<Rightarrow> [] | Suc m \<Rightarrow> c # take_chars m s) else c # take_chars n s)"

definition short_id :: "string \<Rightarrow> string" where
  "short_id i = take_chars 12 i"

definition truncate_label :: "string \<Rightarrow> string" where
  "truncate_label label = (let out = take_chars 32 label in if out = label then out else out @ ''...'')"

definition peer_row :: "daemon \<Rightarrow> state_snapshot \<Rightarrow> member_entry \<Rightarrow> peer_view \<times> string" where
  "peer_row d local member =
     (let peer = (case parse_node_id (m_id member) of Inl _ \<Rightarrow> None | Inr n \<Rightarrow> Some n);
          info = (case peer of None \<Rightarrow> None | Some n \<Rightarrow> fmlookup (da_book d) n);
          is_syncing = (peer \<noteq> None \<and> da_status d = peer);
          label = (case info of None \<Rightarrow> m_id member | Some i \<Rightarrow> (case pi_name i of None \<Rightarrow> m_id member | Some t \<Rightarrow> t))
      in (if info = None then PeerOffline
          else if is_syncing \<or> \<not> is_synced (da_reports d) (m_id member) local then PeerSyncing
          else PeerSynced, truncate_label label))"

definition render_status_view :: "daemon \<Rightarrow> string \<times> string \<times> nat \<times> (peer_view \<times> string) list" where
  "render_status_view d =
     (let local = snapshot_from_state (da_state d)
      in (short_id (da_origin d), hex (sn_state_root local), sn_state_nodes local,
          map (peer_row d local)
            (filter (\<lambda>m. m_status m = Active) (filter (\<lambda>m. m_id m \<noteq> da_origin d) (group_members (da_group d))))))"

section \<open>The recorded process\<close>

definition ex_system :: "nat \<Rightarrow> flock_answer \<Rightarrow> (int \<Rightarrow> bool) \<Rightarrow> system" where
  "ex_system pid lock alive =
     \<lparr>sy_env = ex_cmd, sy_book_from_json = (\<lambda>_. None), sy_call = (\<lambda>_ _ _. Inl Other), sy_rid = 1, sy_alive = alive,
      sy_kill = (\<lambda>i. if alive i then Killed else NoSuchProcess), sy_log_filter = ''info'', sy_lock = lock, sy_watch = Inr (),
      sy_bind = (\<lambda>_. Inr 7), sy_pid = pid\<rparr>"

abbreviation ex_start :: command where
  "ex_start \<equiv> Start [''r''] None False 500 10 None"

text \<open>
  The process id is recorded before the lock is taken. When a daemon with process 10 is running, a
  second start as process 20 fails on the lock but has replaced the recorded id; stopping then
  finds no process 20, removes the file and fails, and the running daemon is reported as stopped.
\<close>

theorem second_start_orphans_daemon:
  "(let alive = (\<lambda>i. i = 10);
        fs1 = snd (write_file ex_fs [''r'', ''.lil'', PID_FILE] (as_bytes ''10''));
        (r2, fs2) = main_cli (ex_system 20 WouldBlock alive) ex_start fs1;
        (r3, fs3) = main_cli (ex_system 30 Locked alive) (Stop [''r'']) fs2
    in daemon_running_status alive fs1 [''r'', ''.lil''] = Running 10 \<and> isl r2 \<and> isl r3 \<and>
       daemon_running_status alive fs3 [''r'', ''.lil''] = Stopped)"
  by code_simp

text \<open>
  The process id is recorded before the state directory is created. The first start on a folder
  runs the daemon, but nothing records its process: it is reported as stopped and cannot be stopped.
\<close>

definition ex_fresh :: fs where
  "ex_fresh = ex_fs\<lparr>fs_nodes := fmap_of_list [([''r''], FsDir 0x41ED), ([''r'', ''a.txt''], FsFile [1, 2, 3] 0x81A4 5)]\<rparr>"

theorem first_start_is_not_recorded:
  "(let alive = (\<lambda>i. i = 10);
        (r1, fs1) = main_cli (ex_system 10 Locked alive) ex_start ex_fresh;
        (r2, fs2) = main_cli (ex_system 30 Locked alive) (Stop [''r'']) fs1
    in (case r1 of Inr (RunsDaemon _ _ _) \<Rightarrow> True | _ \<Rightarrow> False) \<and> isl r2 \<and>
       daemon_running_status alive fs1 [''r'', ''.lil''] = Stopped)"
  by code_simp

end
