(* ===== verification/Lil_Ui.thy ===== *)
theory Lil_Ui
  imports Lil_Cli
begin

text \<open>
  What the user sees. The lines of the log and of the terminal, \<open>src/ui.rs\<close>: a macro of \<open>tracing\<close> or
  \<open>println\<close> is the text it is given. And the processes a command leaves behind: \<open>daemonize\<close>
  (\<open>src/commands.rs\<close>), and the exit codes of \<open>main\<close> (\<open>src/main.rs\<close>). The folder as the path displays it
  is an argument.
\<close>

section \<open>Log lines\<close>

definition show_bool :: "bool \<Rightarrow> string" where
  "show_bool b = (if b then ''true'' else ''false'')"

abbreviation show_u64 :: "u64 \<Rightarrow> string" where
  "show_u64 n \<equiv> nat_to_string (unat n)"

definition hint_nodes :: "tree_hint option \<Rightarrow> nat" where
  "hint_nodes hint = (case hint of None \<Rightarrow> 0 | Some h \<Rightarrow> length (th_nodes h))"

definition hint_truncated :: "tree_hint option \<Rightarrow> bool" where
  "hint_truncated hint = (case hint of None \<Rightarrow> False | Some h \<Rightarrow> th_truncated h)"

fun summarize_message :: "gossip_message \<Rightarrow> string" where
  "summarize_message (SyncState origin state_root _ lamport _ _ _) =
     ''sync-state origin='' @ origin @ '' lamport='' @ show_u64 lamport @ '' state_root='' @ hex state_root"
| "summarize_message (FilesystemChanged origin _ _ lamport hint) =
     ''filesystem-changed origin='' @ origin @ '' lamport='' @ show_u64 lamport @ '' hint_nodes='' @ nat_to_string (hint_nodes hint)"
| "summarize_message (GossipPeers origin members) =
     ''peers origin='' @ origin @ '' members='' @ nat_to_string (length members)"
| "summarize_message (GossipEndpoints origin _ endpoints _) =
     ''endpoints origin='' @ origin @ '' count='' @ nat_to_string (length endpoints)"

fun print_remote_message :: "gossip_message \<Rightarrow> state_snapshot \<Rightarrow> string" where
  "print_remote_message (SyncState origin state_root live_root lamport state_nodes live_nodes gc_watermark) local =
     ''peer state origin='' @ origin @ '' lamport='' @ show_u64 lamport @ '' state_root='' @ hex state_root @
     '' live_root='' @ hex live_root @ '' state_nodes='' @ nat_to_string state_nodes @ '' live_nodes='' @ nat_to_string live_nodes @
     '' gc_origins='' @ nat_to_string (fcard (fmdom gc_watermark)) @
     '' state_match='' @ show_bool (state_root = sn_state_root local) @ '' live_match='' @ show_bool (live_root = sn_live_root local)"
| "print_remote_message (FilesystemChanged origin state_root live_root lamport hint) local =
     ''peer filesystem origin='' @ origin @ '' lamport='' @ show_u64 lamport @ '' hint_nodes='' @ nat_to_string (hint_nodes hint) @
     '' hint_truncated='' @ show_bool (hint_truncated hint) @ '' state_root='' @ hex state_root @ '' live_root='' @ hex live_root @
     '' state_match='' @ show_bool (state_root = sn_state_root local) @ '' live_match='' @ show_bool (live_root = sn_live_root local)"
| "print_remote_message (GossipPeers origin members) local =
     ''peer list origin='' @ origin @ '' members='' @ nat_to_string (length members)"
| "print_remote_message (GossipEndpoints origin _ endpoints _) local =
     ''peer endpoints origin='' @ origin @ '' endpoints='' @ join_char CHR '','' endpoints"

definition change_line :: "change \<Rightarrow> string" where
  "change_line c =
     change_verb c @ '' '' @ c_path c @ '' v'' @ show_u64 (v_lamport (e_version (c_new c))) @ '':'' @ v_origin (e_version (c_new c))"

definition print_changes :: "hash32 \<Rightarrow> hash32 \<Rightarrow> folder_state \<Rightarrow> change list \<Rightarrow> string list" where
  "print_changes before_state before_live s changes =
     map change_line changes @
     [''state root '' @ hex before_state @ '' -> '' @ hex (root_hash s) @ '' nodes='' @ nat_to_string (sn_state_nodes (snapshot_from_state s)),
      ''live root '' @ hex before_live @ '' -> '' @ hex (live_root_hash s) @ '' nodes='' @ nat_to_string (sn_live_nodes (snapshot_from_state s))]"

definition print_start :: "string \<Rightarrow> folder_state \<Rightarrow> node_id \<Rightarrow> u16 \<Rightarrow> node_id list \<Rightarrow> bool \<Rightarrow> u64 \<Rightarrow> string list" where
  "print_start folder s local_id rpc_port bootstrap poll interval_ms =
     [''node '' @ node_id_to_string local_id,
      ''rpc port '' @ nat_to_string (unat rpc_port),
      ''invite command: lilsync invite '' @ folder,
      ''known peers '' @ nat_to_string (length bootstrap),
      ''watching '' @ folder,
      (if poll then ''mode poll interval='' @ show_u64 (max interval_ms 50) @ ''ms''
       else ''mode fs-events debounce='' @ show_u64 (max interval_ms 20) @ ''ms''),
      ''state root '' @ hex (root_hash s),
      ''live root '' @ hex (live_root_hash s),
      ''nodes state='' @ nat_to_string (sn_state_nodes (snapshot_from_state s)) @
        '' live='' @ nat_to_string (sn_live_nodes (snapshot_from_state s))]"

section \<open>The status view on the terminal\<close>

definition ESC :: char where
  "ESC = char_of (27 :: nat)"

definition peer_view_text :: "string \<Rightarrow> peer_view \<Rightarrow> string" where
  "peer_view_text spinner v =
     (case v of
        PeerOffline \<Rightarrow> ESC # ''[31moffline'' @ ESC # ''[0m  ''
      | PeerSyncing \<Rightarrow> ESC # ''[33msyncing'' @ ESC # ''[0m '' @ spinner
      | PeerSynced \<Rightarrow> ESC # ''[32msynced'' @ ESC # ''[0m   '')"

definition status_lines :: "string \<Rightarrow> daemon \<Rightarrow> string list" where
  "status_lines spinner d =
     (let (local_id, root, nodes, rows) = render_status_view d
      in [ESC # ''[2J'' @ ESC # ''[Hlilsync '' @ local_id,
          ''root '' @ root @ ''  entries '' @ nat_to_string nodes, []] @
         map (\<lambda>(v, label). peer_view_text spinner v @ '' '' @ label) rows @
         (if rows = [] then [''no peers''] else []))"

text \<open>The frames of the spinner, in UTF-8.\<close>

definition frames :: "string list" where
  "frames = map (map char_of)
     [[0xE2, 0xA3, 0xBE], [0xE2, 0xA3, 0xBD], [0xE2, 0xA3, 0xBB], [0xE2, 0xA2, 0xBF],
      [0xE2, 0xA1, 0xBF], [0xE2, 0xA3, 0x9F], [0xE2, 0xA3, 0xAF], [0xE2, 0xA3, 0xB7 :: nat]]"

text \<open>One turn of the loop, on the daemon as it is then: what is shown, and the next tick, which wraps.\<close>

definition status_view_turn :: "daemon \<Rightarrow> u64 \<Rightarrow> string list \<times> u64" where
  "status_view_turn d tick = (status_lines (frames ! (unat tick mod length frames)) d, tick + 1)"

lemma length_frames: "length frames = 8"
  by (simp add: frames_def)

lemma spinner_turns: "unat (tick + 1 :: u64) mod 8 = (unat tick + 1) mod 8"
  by (simp add: unat_word_ariths mod_mod_cancel)

definition char_count :: "string \<Rightarrow> nat" where
  "char_count s = length (filter starts_char s)"

lemma take_chars_count: "char_count (take_chars n s) = min n (char_count s)"
  by (induction n s rule: take_chars.induct) (auto simp: char_count_def split: nat.splits)

lemma take_chars_all: "char_count s \<le> n \<Longrightarrow> take_chars n s = s"
  by (induction n s rule: take_chars.induct) (auto simp: char_count_def split: nat.splits)

lemma take_chars_prefix: "\<exists>r. s = take_chars n s @ r \<and> (r = [] \<or> starts_char (hd r))"
proof (induction n s rule: take_chars.induct)
  case (2 n c s)
  then show ?case by (cases n) (auto intro: exI [of _ "c # s"])
qed simp

lemma truncate_label_cases:
  "truncate_label label =
     (if char_count label \<le> 32 then label else take_chars 32 label @ ''...'')"
proof (cases "char_count label \<le> 32")
  case False
  then have "char_count (take_chars 32 label) \<noteq> char_count label" by (simp add: take_chars_count)
  then have "take_chars 32 label \<noteq> label" by metis
  with False show ?thesis by (simp add: truncate_label_def Let_def)
qed (simp add: truncate_label_def Let_def take_chars_all)

text \<open>
  The view has one line for every active member but the node itself, in the order of the ledger, with a
  label of at most 35 characters that is never cut inside a character; the spinner goes through its
  frames in turn, also when the tick wraps.
\<close>

theorem status_view_lines:
  assumes "ms = filter (\<lambda>m. m_status m = Active) (filter (\<lambda>m. m_id m \<noteq> da_origin d) (group_members (da_group d)))"
    and "status_view_turn d tick = (lines, tick')"
  shows "length lines = 3 + max 1 (length ms) \<and> unat tick' mod 8 = (unat tick + 1) mod 8 \<and>
    (\<forall>i < length ms. \<exists>v label. lines ! (3 + i) = peer_view_text (frames ! (unat tick mod 8)) v @ '' '' @ label \<and>
       (v, label) = peer_row d (snapshot_from_state (da_state d)) (ms ! i) \<and> char_count label \<le> 35)"
proof -
  let ?local = "snapshot_from_state (da_state d)"
  let ?line = "\<lambda>(v, label). peer_view_text (frames ! (unat tick mod 8)) v @ '' '' @ label"
  have row: "\<exists>v label. ?line (peer_row d ?local m) = peer_view_text (frames ! (unat tick mod 8)) v @ '' '' @ label \<and>
      (v, label) = peer_row d ?local m \<and> char_count label \<le> 35" for m
  proof -
    obtain v label where r: "peer_row d ?local m = (v, label)" by (metis prod.exhaust)
    then obtain l where "label = truncate_label l" by (auto simp: peer_row_def Let_def)
    then have "char_count label \<le> 35"
      by (auto simp: truncate_label_cases char_count_def take_chars_count [unfolded char_count_def] starts_char_def)
    with r show ?thesis by auto
  qed
  define tail where "tail = (if ms = [] then [''no peers''] else [])"
  obtain a b c where l: "lines = [a, b, c] @ map (?line \<circ> peer_row d ?local) ms @ tail"
    using assms by (auto simp: status_view_turn_def status_lines_def render_status_view_def Let_def length_frames tail_def)
  have "lines ! (3 + i) = ?line (peer_row d ?local (ms ! i))" if "i < length ms" for i
    using that by (simp add: l nth_append)
  moreover have "length lines = 3 + max 1 (length ms)" by (cases ms) (simp_all add: l tail_def)
  moreover have "unat tick' mod 8 = (unat tick + 1) mod 8" using assms(2) spinner_turns by (auto simp: status_view_turn_def)
  ultimately show ?thesis using row by metis
qed

section \<open>Processes\<close>

text \<open>
  The answers of \<open>fork\<close>. A process that calls \<open>daemonize\<close> exits, or returns from it, with its standard
  streams on the null device when that could be opened.
\<close>

datatype fork_answer = ForkFailed io_error | ForkChild | ForkParent

datatype daemonized = ExitsNow nat | Returns "unit io_result" bool

definition daemonize :: "fork_answer \<Rightarrow> unit io_result \<Rightarrow> fork_answer \<Rightarrow> bool \<Rightarrow> daemonized" where
  "daemonize fork1 setsid fork2 devnull_ok =
     (case fork1 of
        ForkFailed err \<Rightarrow> Returns (Inl err) False
      | ForkParent \<Rightarrow> ExitsNow 0
      | ForkChild \<Rightarrow>
          (case setsid of
             Inl err \<Rightarrow> Returns (Inl err) False
           | Inr _ \<Rightarrow>
               (case fork2 of
                  ForkFailed err \<Rightarrow> Returns (Inl err) False
                | ForkParent \<Rightarrow> ExitsNow 0
                | ForkChild \<Rightarrow> Returns (Inr ()) devnull_ok)))"

text \<open>A fork that succeeds goes on in two processes; the second one is called by the child of the first.\<close>

definition forks :: "unit io_result \<Rightarrow> fork_answer list" where
  "forks r = (case r of Inl err \<Rightarrow> [ForkFailed err] | Inr _ \<Rightarrow> [ForkParent, ForkChild])"

definition daemonize_processes :: "unit io_result \<Rightarrow> unit io_result \<Rightarrow> unit io_result \<Rightarrow> bool \<Rightarrow> daemonized list" where
  "daemonize_processes fork1 setsid fork2 devnull_ok =
     concat (map (\<lambda>a. case a of
         ForkChild \<Rightarrow> (if isl setsid then [daemonize a setsid ForkParent devnull_ok]
                       else map (\<lambda>b. daemonize a setsid b devnull_ok) (forks fork2))
       | _ \<Rightarrow> [daemonize a setsid ForkParent devnull_ok]) (forks fork1))"

text \<open>How a process of \<open>main\<close> ends, as far as the start of the daemon.\<close>

datatype process = Exited nat | Serving daemon

definition process_of :: "outcome io_result \<Rightarrow> process" where
  "process_of r = (case r of Inl _ \<Rightarrow> Exited 1 | Inr (RunsDaemon d _ _) \<Rightarrow> Serving d | Inr _ \<Rightarrow> Exited 0)"

definition main_process :: "system \<Rightarrow> command \<Rightarrow> fs \<Rightarrow> daemonized \<Rightarrow> process" where
  "main_process Y cmd fs p =
     (case p of
        ExitsNow code \<Rightarrow> Exited code
      | Returns (Inl _) _ \<Rightarrow> Exited 1
      | Returns (Inr _) _ \<Rightarrow> process_of (fst (main_cli Y cmd fs)))"

definition main_processes :: "unit io_result \<Rightarrow> unit io_result \<Rightarrow> unit io_result \<Rightarrow> bool \<Rightarrow> system \<Rightarrow> command \<Rightarrow> fs \<Rightarrow> process list" where
  "main_processes fork1 setsid fork2 devnull_ok Y cmd fs =
     (case daemon_log_path cmd of
        None \<Rightarrow> [process_of (fst (main_cli Y cmd fs))]
      | Some _ \<Rightarrow> map (main_process Y cmd fs) (daemonize_processes fork1 setsid fork2 devnull_ok))"

definition serving :: "process \<Rightarrow> bool" where
  "serving p \<longleftrightarrow> (case p of Serving _ \<Rightarrow> True | Exited _ \<Rightarrow> False)"

text \<open>
  Starting in the background: at most one process of those that come out of the two forks runs the
  daemon, and it does exactly when both forks and the new session succeeded and the daemon started;
  every other process has exited. The process the shell waits for, the first, exits with code 0 once
  the first fork succeeded, whatever happens to the daemon afterwards.
\<close>

theorem start_leaves_one_process:
  "let ps = main_processes fork1 setsid fork2 devnull_ok Y (Start folder name poll i a port) fs;
       started = serving (process_of (fst (main_cli Y (Start folder name poll i a port) fs)))
   in length (filter serving ps) = (if \<not> isl fork1 \<and> \<not> isl setsid \<and> \<not> isl fork2 \<and> started then 1 else 0) \<and>
      hd ps = Exited (if isl fork1 then 1 else 0)"
  by (simp add: main_processes_def daemonize_processes_def forks_def daemonize_def main_process_def serving_def Let_def split: sum.split)

text \<open>A second start, which fails on the lock, ends with code 0 for the shell, as one that serves does.\<close>

theorem failed_start_exits_with_zero:
  "(let ps = main_processes (Inr ()) (Inr ()) (Inr ()) True (ex_system 20 WouldBlock (\<lambda>_. True)) ex_start ex_fs
    in map (\<lambda>p. case p of Exited n \<Rightarrow> Some n | Serving _ \<Rightarrow> None) ps = [Some 0, Some 0, Some 1])"
  by code_simp

end
