(* ===== verification/Lil_Joins.thy ===== *)
theory Lil_Joins
  imports Lil_CommandFacts
begin

text \<open>
  Joins that overlap. \<open>spawn_server\<close> (\<open>src/rpc.rs\<close>) runs every connection in a task of its own, and the
  tasks share the group, behind a lock, and the file of invitations, behind none. The handler of a
  join is cut where another task can come in between: it reads the file, it writes the file back
  without the invitation it found, and it adds the peer under the lock of the group. The invitations
  may also grow, by the command \<open>invite\<close> in another process. Each of these steps is atomic here.
\<close>

section \<open>Tasks\<close>

datatype join_phase =
    Asked
  | Invites "pending_invite list"
  | Admitted
  | Answered response_message

record join_task =
  jn_peer :: node_id
  jn_request :: u64
  jn_secret :: string
  jn_joiner :: string
  jn_now :: u64
  jn_phase :: join_phase

fun join_step :: "json \<Rightarrow> lib \<Rightarrow> abspath \<Rightarrow> join_task \<Rightarrow> join_phase \<Rightarrow> server \<Rightarrow> join_phase \<times> server" where
  "join_step J X invites_path t Asked sv =
     (if jn_joiner t \<noteq> node_id_to_string (jn_peer t)
      then (Answered (JoinRejected (jn_request t) ''joiner id does not match RPC peer''), sv)
      else case load_invites J (sv_fs sv) invites_path of
             Inl _ \<Rightarrow> (Answered (JoinRejected (jn_request t) ''could not validate ticket''), sv)
           | Inr invites \<Rightarrow> (Invites invites, sv))"
| "join_step J X invites_path t (Invites invites) sv =
     (let h = hash_secret X (jn_secret t);
          kept = filter (keep_invite (jn_now t) h) invites;
          found = list_ex (\<lambda>i. \<not> pi_expires_at_ms i \<le> jn_now t \<and> pi_secret_hash i = h) invites;
          next = (if found then Admitted else Answered (JoinRejected (jn_request t) ''invalid or expired ticket''))
      in if length kept \<noteq> length invites
         then (case save_invites J (sv_fs sv) invites_path kept of
                 (Inl _, fs1) \<Rightarrow> (Answered (JoinRejected (jn_request t) ''could not validate ticket''), sv\<lparr>sv_fs := fs1\<rparr>)
               | (Inr _, fs1) \<Rightarrow> (next, sv\<lparr>sv_fs := fs1\<rparr>))
         else (next, sv))"
| "join_step J X invites_path t Admitted sv =
     (case add_active_peer J (jn_peer t) (sv_group sv) (sv_fs sv) of
        (Inr _, g, fs2) \<Rightarrow>
          (Answered (JoinAccepted (jn_request t) (group_members g)),
           sv\<lparr>sv_group := g, sv_fs := fs2, sv_events := sv_events sv @ [PeerJoined (jn_peer t)]\<rparr>)
      | (Inl _, g, fs2) \<Rightarrow>
          (Answered (JoinRejected (jn_request t) ''could not add peer''), sv\<lparr>sv_group := g, sv_fs := fs2\<rparr>))"
| "join_step J X invites_path t (Answered r) sv = (Answered r, sv)"

text \<open>A join that no other task comes in between.\<close>

definition join_alone :: "json \<Rightarrow> lib \<Rightarrow> abspath \<Rightarrow> join_task \<Rightarrow> server \<Rightarrow> join_phase \<times> server" where
  "join_alone J X invites_path t sv =
     (let (p1, sv1) = join_step J X invites_path t Asked sv;
          (p2, sv2) = join_step J X invites_path t p1 sv1
      in join_step J X invites_path t p2 sv2)"

lemma join_alone_is_handle_join:
  "join_alone J X path t sv =
     (case handle_join J X (jn_now t) path (jn_peer t) (jn_request t) (jn_secret t) (jn_joiner t) sv of
        (r, sv') \<Rightarrow> (Answered r, sv'))"
  by (auto simp: join_alone_def handle_join_def consume_invite_def Let_def split: sum.splits prod.splits bool.splits)

section \<open>Interleavings\<close>

text \<open>The tasks, the shared parts of the server, and, to state what is shown, every invitation that was ever issued.\<close>

record joins =
  jo_tasks :: "join_task list"
  jo_server :: server
  jo_issued :: "pending_invite list"

definition reading :: "join_task \<Rightarrow> bool" where
  "reading t \<longleftrightarrow> (case jn_phase t of Invites _ \<Rightarrow> True | _ \<Rightarrow> False)"

text \<open>
  With \<open>lock\<close> the file of invitations is not read by anyone while a task is between reading and writing
  it. The source has no such lock: its runs are those with \<open>lock = False\<close>.
\<close>

inductive joins_step :: "bool \<Rightarrow> json \<Rightarrow> lib \<Rightarrow> abspath \<Rightarrow> joins \<Rightarrow> joins \<Rightarrow> bool"
  for lock J X invites_path where
  arrive: "jn_phase t = Asked \<Longrightarrow>
    joins_step lock J X invites_path s (s\<lparr>jo_tasks := jo_tasks s @ [t]\<rparr>)"
| run: "i < length (jo_tasks s) \<Longrightarrow> t = jo_tasks s ! i \<Longrightarrow>
    (lock \<and> jn_phase t = Asked \<Longrightarrow> \<not> list_ex reading (jo_tasks s)) \<Longrightarrow>
    join_step J X invites_path t (jn_phase t) (jo_server s) = (p, sv) \<Longrightarrow>
    joins_step lock J X invites_path s (s\<lparr>jo_tasks := (jo_tasks s)[i := t\<lparr>jn_phase := p\<rparr>], jo_server := sv\<rparr>)"
| invite: "(lock \<Longrightarrow> \<not> list_ex reading (jo_tasks s)) \<Longrightarrow>
    add_invite J X now (sv_fs (jo_server s)) invites_path secret expires = (Inr (), fs1) \<Longrightarrow>
    joins_step lock J X invites_path s
      (s\<lparr>jo_server := (jo_server s)\<lparr>sv_fs := fs1\<rparr>,
         jo_issued := jo_issued s @ [\<lparr>pi_secret_hash = hash_secret X secret, pi_expires_at_ms = expires\<rparr>]\<rparr>)"

abbreviation joins_run :: "bool \<Rightarrow> json \<Rightarrow> lib \<Rightarrow> abspath \<Rightarrow> joins \<Rightarrow> joins \<Rightarrow> bool" where
  "joins_run lock J X invites_path \<equiv> (joins_step lock J X invites_path)\<^sup>*\<^sup>*"

text \<open>A task whose invitation was found.\<close>

fun let_in :: "join_phase \<Rightarrow> bool" where
  "let_in Admitted = True"
| "let_in (Answered (JoinAccepted _ _)) = True"
| "let_in _ = False"

definition invited :: "lib \<Rightarrow> pending_invite set \<Rightarrow> join_task \<Rightarrow> bool" where
  "invited X I t \<longleftrightarrow> jn_joiner t = node_id_to_string (jn_peer t) \<and>
     (\<exists>i \<in> I. jn_now t < pi_expires_at_ms i \<and> pi_secret_hash i = hash_secret X (jn_secret t))"

section \<open>The shared file\<close>

lemma add_peer_keeps_invites:
  assumes "group_dir_ok fs d" "json_reads_back J" "g_path g = d @ [PEERS_FILE]"
    and "add_active_peer J peer g fs = (r, g', fs')"
  shows "group_dir_ok fs' d \<and> g_path g' = d @ [PEERS_FILE] \<and> (\<exists>b. r = Inr b) \<and>
    load_invites J fs' (d @ [INVITES_FILE]) = load_invites J fs (d @ [INVITES_FILE])"
proof -
  have "\<exists>fs1. group_persist J (g\<lparr>g_members := ms\<rparr>) fs = (Inr (), fs1) \<and> group_dir_ok fs1 d \<and>
      load_invites J fs1 (d @ [INVITES_FILE]) = load_invites J fs (d @ [INVITES_FILE])" for ms
  proof -
    obtain b c fs1 where s: "save_peers_file J fs (d @ [PEERS_FILE]) (group_members (g\<lparr>g_members := ms\<rparr>)) = (Inr (), fs1)"
      "group_dir_ok fs1 d" "wrote fs d PEERS_FILE b fs1"
      using save_peers_wrote [OF assms(1,2), of "group_members (g\<lparr>g_members := ms\<rparr>)"] by metis
    have ne: "INVITES_FILE \<noteq> PEERS_FILE" "INVITES_FILE \<noteq> with_extension_tmp PEERS_FILE" by code_simp+
    have "writable_slot fs d PEERS_FILE" "writable_slot fs d INVITES_FILE" using assms(1) by (simp_all add: group_dir_ok_def)
    from wrote_slot(3) [OF this(1) s(3) this(2) ne]
    show ?thesis using s assms(3) by (simp add: group_persist_def load_invites_def read_to_string_def)
  qed
  then obtain f where f: "group_persist J (g\<lparr>g_members := ms\<rparr>) fs = (Inr (), f ms)" "group_dir_ok (f ms) d"
      "load_invites J (f ms) (d @ [INVITES_FILE]) = load_invites J fs (d @ [INVITES_FILE])" for ms by metis
  show ?thesis
    using assms(4) assms(1,3) unfolding add_active_peer_def Let_def
    by (cases "fmlookup (g_members g) (node_id_to_string peer)") (auto simp: f split: if_splits)
qed

section \<open>Nobody joins without an invitation\<close>

definition shared_ok :: "json \<Rightarrow> abspath \<Rightarrow> pending_invite set \<Rightarrow> server \<Rightarrow> bool" where
  "shared_ok J d I sv \<longleftrightarrow>
     group_dir_ok (sv_fs sv) d \<and> g_path (sv_group sv) = d @ [PEERS_FILE] \<and>
     (\<exists>l. load_invites J (sv_fs sv) (d @ [INVITES_FILE]) = Inr l \<and> set l \<subseteq> I)"

fun phase_ok :: "lib \<Rightarrow> pending_invite set \<Rightarrow> join_task \<Rightarrow> join_phase \<Rightarrow> bool" where
  "phase_ok X I t (Invites l) \<longleftrightarrow> jn_joiner t = node_id_to_string (jn_peer t) \<and> set l \<subseteq> I"
| "phase_ok X I t p \<longleftrightarrow> (let_in p \<longrightarrow> invited X I t)"

lemma phase_ok_mono: "phase_ok X I t p \<Longrightarrow> I \<subseteq> I' \<Longrightarrow> phase_ok X I' t p"
  by (cases p) (auto simp: invited_def)

lemma phase_ok_task [simp]:
  "phase_ok X I (t\<lparr>jn_phase := q\<rparr>) p = phase_ok X I t p" "invited X I (t\<lparr>jn_phase := q\<rparr>) = invited X I t"
  by (cases p) (auto simp: invited_def)

lemma let_in_invited: "phase_ok X I t p \<Longrightarrow> let_in p \<Longrightarrow> invited X I t"
  by (cases p) auto

lemma save_invites_shared:
  assumes "shared_ok J d I sv" "json_reads_back J" "set l \<subseteq> I"
  obtains fs1 where "save_invites J (sv_fs sv) (d @ [INVITES_FILE]) l = (Inr (), fs1)" "shared_ok J d I (sv\<lparr>sv_fs := fs1\<rparr>)"
    "load_invites J fs1 (d @ [INVITES_FILE]) = Inr l"
proof -
  have "group_dir_ok (sv_fs sv) d" using assms(1) by (simp add: shared_ok_def)
  then obtain fs1 where "save_invites J (sv_fs sv) (d @ [INVITES_FILE]) l = (Inr (), fs1)"
    "load_invites J fs1 (d @ [INVITES_FILE]) = Inr l" "group_dir_ok fs1 d" using assms(2) by (rule save_invites_wrote)
  then show thesis using that assms by (auto simp: shared_ok_def)
qed

lemma add_peer_shared:
  assumes "add_active_peer J peer (sv_group sv) (sv_fs sv) = (r, g, fs2)" "shared_ok J d I sv" "json_reads_back J"
  shows "\<exists>b. r = Inr b" "shared_ok J d I (sv\<lparr>sv_group := g, sv_fs := fs2\<rparr>)"
    "load_invites J fs2 (d @ [INVITES_FILE]) = load_invites J (sv_fs sv) (d @ [INVITES_FILE])"
  using add_peer_keeps_invites [OF _ assms(3) _ assms(1), of d] assms(2) by (auto simp: shared_ok_def)

lemma join_step_ok:
  assumes "join_step J X (d @ [INVITES_FILE]) t p sv = (p', sv')" "shared_ok J d I sv" "phase_ok X I t p" "json_reads_back J"
  shows "shared_ok J d I sv' \<and> phase_ok X I t p'"
proof (cases p)
  case Asked
  with assms show ?thesis by (auto simp: shared_ok_def split: if_splits)
next
  case (Invites k)
  let ?kept = "filter (keep_invite (jn_now t) (hash_secret X (jn_secret t))) k"
  have "set ?kept \<subseteq> I" using assms(3) Invites by auto
  from save_invites_shared [OF assms(2,4) this] obtain fs1 where
    "save_invites J (sv_fs sv) (d @ [INVITES_FILE]) ?kept = (Inr (), fs1)" "shared_ok J d I (sv\<lparr>sv_fs := fs1\<rparr>)" by blast
  with assms Invites show ?thesis by (auto simp: Let_def invited_def list_ex_iff not_le split: if_splits)
next
  case Admitted
  obtain r g fs2 where a: "add_active_peer J (jn_peer t) (sv_group sv) (sv_fs sv) = (r, g, fs2)" by (metis prod_cases3)
  from add_peer_shared [OF a assms(2,4)] a assms(1,3) Admitted show ?thesis by (auto simp: shared_ok_def)
qed (use assms in auto)

definition joins_inv :: "json \<Rightarrow> lib \<Rightarrow> abspath \<Rightarrow> joins \<Rightarrow> bool" where
  "joins_inv J X d s \<longleftrightarrow>
     shared_ok J d (set (jo_issued s)) (jo_server s) \<and>
     (\<forall>t \<in> set (jo_tasks s). phase_ok X (set (jo_issued s)) t (jn_phase t))"

lemma add_invite_shared:
  assumes "add_invite J X now (sv_fs sv) (d @ [INVITES_FILE]) secret expires = (Inr (), fs1)"
    and "shared_ok J d I sv" "json_reads_back J" "new = \<lparr>pi_secret_hash = hash_secret X secret, pi_expires_at_ms = expires\<rparr>"
  shows "shared_ok J d (insert new I) (sv\<lparr>sv_fs := fs1\<rparr>) \<and>
    (\<exists>l. load_invites J (sv_fs sv) (d @ [INVITES_FILE]) = Inr l \<and>
       load_invites J fs1 (d @ [INVITES_FILE]) = Inr (filter (\<lambda>i. now < pi_expires_at_ms i) l @ [new]))"
proof -
  obtain l where l: "load_invites J (sv_fs sv) (d @ [INVITES_FILE]) = Inr l" "set l \<subseteq> I"
    using assms(2) by (auto simp: shared_ok_def)
  then have "shared_ok J d (insert new I) sv" "set (filter (\<lambda>i. now < pi_expires_at_ms i) l @ [new]) \<subseteq> insert new I"
    using assms(2) by (auto simp: shared_ok_def)
  from save_invites_shared [OF this(1) assms(3) this(2)] l assms(1,4) show ?thesis
    by (auto simp: add_invite_def)
qed

lemma joins_inv_step:
  assumes "joins_step lock J X (d @ [INVITES_FILE]) s s'" "joins_inv J X d s" "json_reads_back J"
  shows "joins_inv J X d s'"
  using assms(1)
proof cases
  case (arrive t)
  with assms(2) show ?thesis by (auto simp: joins_inv_def)
next
  case (run i t p sv)
  then have "phase_ok X (set (jo_issued s)) t (jn_phase t)" using assms(2) by (auto simp: joins_inv_def)
  with join_step_ok [OF run(5)] assms(2,3) run show ?thesis
    by (auto simp: joins_inv_def dest!: set_update_subset_insert [THEN subsetD])
next
  case (invite now secret expires fs1)
  from add_invite_shared [OF invite(3) _ assms(3) refl] assms(2) invite(1) show ?thesis
    by (auto simp: joins_inv_def intro: phase_ok_mono)
qed

text \<open>The start: no task yet, and the invitations on file are the ones issued.\<close>

definition joins_start :: "json \<Rightarrow> abspath \<Rightarrow> joins \<Rightarrow> bool" where
  "joins_start J d s \<longleftrightarrow>
     jo_tasks s = [] \<and> group_dir_ok (sv_fs (jo_server s)) d \<and> g_path (sv_group (jo_server s)) = d @ [PEERS_FILE] \<and>
     load_invites J (sv_fs (jo_server s)) (d @ [INVITES_FILE]) = Inr (jo_issued s)"

lemma joins_inv_run:
  assumes "joins_run lock J X (d @ [INVITES_FILE]) s s'" "joins_start J d s" "json_reads_back J"
  shows "joins_inv J X d s'"
  using assms(1)
proof (induction rule: rtranclp_induct)
  case base
  then show ?case using assms(2) by (simp add: joins_inv_def joins_start_def shared_ok_def)
qed (blast intro: joins_inv_step assms(3))

section \<open>Members\<close>

definition members_ok :: "group_state \<Rightarrow> joins \<Rightarrow> bool" where
  "members_ok g0 s \<longleftrightarrow> (\<forall>q. is_active_member (sv_group (jo_server s)) q \<longrightarrow> is_active_member g0 q \<or>
     (\<exists>t \<in> set (jo_tasks s). let_in (jn_phase t) \<and> node_id_to_string (jn_peer t) = node_id_to_string q))"

lemma join_step_members:
  assumes "join_step J X (d @ [INVITES_FILE]) t p sv = (p', sv')" "shared_ok J d I sv" "json_reads_back J"
  shows "let_in p \<Longrightarrow> let_in p'"
    and "is_active_member (sv_group sv') q \<Longrightarrow> is_active_member (sv_group sv) q \<or>
      let_in p' \<and> node_id_to_string (jn_peer t) = node_id_to_string q"
proof -
  obtain r g fs2 where a: "add_active_peer J (jn_peer t) (sv_group sv) (sv_fs sv) = (r, g, fs2)" by (metis prod_cases3)
  from add_peer_shared(1) [OF a assms(2,3)] obtain b where r: "r = Inr b" by blast
  show "let_in p \<Longrightarrow> let_in p'" using assms(1) a r by (cases p rule: let_in.cases) auto
  show "is_active_member (sv_group sv') q \<Longrightarrow> is_active_member (sv_group sv) q \<or>
      let_in p' \<and> node_id_to_string (jn_peer t) = node_id_to_string q"
    using assms(1) a r add_active_peer_effect(2) [OF a [unfolded r], of q]
    by (cases p; cases "node_id_to_string q = node_id_to_string (jn_peer t)")
      (auto simp: Let_def split: if_splits sum.splits prod.splits)
qed

lemma members_ok_step:
  assumes "joins_step lock J X (d @ [INVITES_FILE]) s s'" "joins_inv J X d s" "json_reads_back J" "members_ok g0 s"
  shows "members_ok g0 s'"
  using assms(1)
proof cases
  case (run i t p sv)
  have sh: "shared_ok J d (set (jo_issued s)) (jo_server s)" using assms(2) by (simp add: joins_inv_def)
  note m = join_step_members [OF run(5) sh assms(3)]
  have new: "t\<lparr>jn_phase := p\<rparr> \<in> set ((jo_tasks s)[i := t\<lparr>jn_phase := p\<rparr>])" using run(2) by (rule set_update_memI)
  have keep: "\<exists>u \<in> set ((jo_tasks s)[i := t\<lparr>jn_phase := p\<rparr>]). let_in (jn_phase u) \<and> jn_peer u = jn_peer v"
    if v: "v \<in> set (jo_tasks s)" "let_in (jn_phase v)" for v
  proof -
    obtain j where j: "j < length (jo_tasks s)" "v = jo_tasks s ! j" using v(1) by (auto simp: in_set_conv_nth)
    show ?thesis
    proof (cases "j = i")
      case True
      then have "let_in p" "jn_peer (t\<lparr>jn_phase := p\<rparr>) = jn_peer v" using m(1) v(2) j(2) run(3) by simp_all
      with new show ?thesis by (intro bexI [of _ "t\<lparr>jn_phase := p\<rparr>"]) simp_all
    next
      case False
      then have "v \<in> set ((jo_tasks s)[i := t\<lparr>jn_phase := p\<rparr>])" using j by (metis in_set_conv_nth length_list_update nth_list_update_neq)
      with v(2) show ?thesis by blast
    qed
  qed
  show ?thesis
    unfolding members_ok_def
  proof (intro allI impI)
    fix q
    assume "is_active_member (sv_group (jo_server s')) q"
    then have "is_active_member (sv_group (jo_server s)) q \<or> let_in p \<and> node_id_to_string (jn_peer t) = node_id_to_string q"
      using m(2) run(1) by simp
    then show "is_active_member g0 q \<or>
        (\<exists>t \<in> set (jo_tasks s'). let_in (jn_phase t) \<and> node_id_to_string (jn_peer t) = node_id_to_string q)"
      using assms(4) keep new run(1) unfolding members_ok_def by (fastforce dest: keep)
  qed
qed (use assms(4) in \<open>auto simp: members_ok_def\<close>)

text \<open>
  C34. However the joins overlap, nobody gets in without an invitation: a join that is accepted was made
  by the node it names, with a secret for which an invitation was issued that had not expired, and
  every active member of the group was one before or has had a join accepted.
\<close>

theorem overlapping_joins_need_invitations:
  assumes "joins_run False J X (d @ [INVITES_FILE]) s s'" "joins_start J d s" "json_reads_back J"
  shows "(\<forall>t \<in> set (jo_tasks s'). let_in (jn_phase t) \<longrightarrow> invited X (set (jo_issued s')) t) \<and>
    (\<forall>q. is_active_member (sv_group (jo_server s')) q \<longrightarrow> is_active_member (sv_group (jo_server s)) q \<or>
       (\<exists>t \<in> set (jo_tasks s'). let_in (jn_phase t) \<and> node_id_to_string (jn_peer t) = node_id_to_string q))"
proof -
  have "joins_inv J X d s'" by (rule joins_inv_run [OF assms])
  moreover have "members_ok (sv_group (jo_server s)) s'"
    using assms(1)
  proof (induction rule: rtranclp_induct)
    case (step a b)
    then show ?case using members_ok_step joins_inv_run [OF step(1) assms(2,3)] assms(3) by blast
  qed (simp add: members_ok_def)
  ultimately show ?thesis by (auto simp: joins_inv_def members_ok_def dest: let_in_invited)
qed

section \<open>With a lock\<close>

definition used :: "lib \<Rightarrow> string \<Rightarrow> join_task list \<Rightarrow> nat" where
  "used X h ts = length (filter (\<lambda>t. let_in (jn_phase t) \<and> hash_secret X (jn_secret t) = h) ts)"

definition for_hash :: "string \<Rightarrow> pending_invite list \<Rightarrow> nat" where
  "for_hash h l = length (filter (\<lambda>i. pi_secret_hash i = h) l)"

lemma length_filter_update:
  assumes "i < length xs"
  shows "length (filter P (xs[i := x])) + (if P (xs ! i) then 1 else 0) = length (filter P xs) + (if P x then 1 else 0)"
  using assms
proof (induction xs arbitrary: i)
  case (Cons y ys)
  then show ?case by (cases i) (auto split: if_splits)
qed simp

lemma for_hash_append [simp]: "for_hash h (a @ b) = for_hash h a + for_hash h b"
  by (simp add: for_hash_def)

lemma for_hash_filter: "for_hash h (filter P l) \<le> for_hash h l"
  by (induction l) (auto simp: for_hash_def)

lemma for_hash_consumed:
  assumes "list_ex (\<lambda>i. \<not> pi_expires_at_ms i \<le> now \<and> pi_secret_hash i = h) l"
  shows "for_hash h (filter (keep_invite now h) l) < for_hash h l"
proof -
  have "filter (\<lambda>i. pi_secret_hash i = h) (filter (keep_invite now h) l) = []"
    by (auto simp: keep_invite_def filter_empty_conv)
  moreover have "filter (\<lambda>i. pi_secret_hash i = h) l \<noteq> []" using assms by (auto simp: list_ex_iff filter_empty_conv)
  ultimately show ?thesis by (simp add: for_hash_def)
qed

definition locked_inv :: "json \<Rightarrow> lib \<Rightarrow> abspath \<Rightarrow> joins \<Rightarrow> bool" where
  "locked_inv J X d s \<longleftrightarrow>
     (\<exists>l. load_invites J (sv_fs (jo_server s)) (d @ [INVITES_FILE]) = Inr l \<and>
        (\<forall>h. used X h (jo_tasks s) + for_hash h l \<le> for_hash h (jo_issued s)) \<and>
        (\<forall>i k. i < length (jo_tasks s) \<longrightarrow> jn_phase (jo_tasks s ! i) = Invites k \<longrightarrow>
           k = l \<and> (\<forall>j < length (jo_tasks s). reading (jo_tasks s ! j) \<longrightarrow> j = i)))"

text \<open>What one step of a task does to the file and to the number of joins let in, when its list is the file.\<close>

lemma join_step_counts:
  assumes "join_step J X (d @ [INVITES_FILE]) t p sv = (p', sv')" "shared_ok J d I sv" "json_reads_back J" "phase_ok X I t p"
    and "load_invites J (sv_fs sv) (d @ [INVITES_FILE]) = Inr l" "\<And>k. p = Invites k \<Longrightarrow> k = l"
  shows "\<exists>l'. load_invites J (sv_fs sv') (d @ [INVITES_FILE]) = Inr l' \<and>
    (\<forall>h. for_hash h l' + (if let_in p' \<and> hash_secret X (jn_secret t) = h then 1 else 0) \<le>
       for_hash h l + (if let_in p \<and> hash_secret X (jn_secret t) = h then 1 else 0)) \<and>
    (\<forall>k. p' = Invites k \<longrightarrow> k = l \<and> p = Asked) \<and> ((\<exists>k. p = Invites k) \<or> l' = l)"
proof (cases p)
  case Asked
  with assms show ?thesis by (auto split: if_splits)
next
  case (Invites k)
  let ?h = "hash_secret X (jn_secret t)"
  let ?kept = "filter (keep_invite (jn_now t) ?h) l"
  have "set ?kept \<subseteq> I" using assms(4,6) Invites by auto
  from save_invites_shared [OF assms(2,3) this] obtain fs1 where
    s: "save_invites J (sv_fs sv) (d @ [INVITES_FILE]) ?kept = (Inr (), fs1)" "load_invites J fs1 (d @ [INVITES_FILE]) = Inr ?kept" by blast
  have less: "for_hash h ?kept \<le> for_hash h l" for h by (rule for_hash_filter)
  show ?thesis
  proof (cases "list_ex (\<lambda>i. \<not> pi_expires_at_ms i \<le> jn_now t \<and> pi_secret_hash i = ?h) l")
    case True
    note c = for_hash_consumed [OF True]
    then have "length ?kept \<noteq> length l" by (metis filter_id_conv length_filter_less less_irrefl)
    with True assms(1,5,6) Invites s c less show ?thesis by (auto simp: Let_def Suc_le_eq)
  next
    case False
    then show ?thesis using assms(1,5,6) Invites s less by (auto simp: Let_def split: if_splits)
  qed
next
  case Admitted
  obtain r g fs2 where a: "add_active_peer J (jn_peer t) (sv_group sv) (sv_fs sv) = (r, g, fs2)" by (metis prod_cases3)
  with add_peer_shared [OF a assms(2,3)] assms(1,5) Admitted show ?thesis by auto
qed (use assms in auto)

lemma locked_inv_run_step:
  assumes s: "locked_inv J X d s" "joins_inv J X d s" "json_reads_back J"
    and t: "i < length (jo_tasks s)" "t = jo_tasks s ! i" "jn_phase t = Asked \<Longrightarrow> \<not> list_ex reading (jo_tasks s)"
    and step: "join_step J X (d @ [INVITES_FILE]) t (jn_phase t) (jo_server s) = (p, sv)"
  shows "locked_inv J X d (s\<lparr>jo_tasks := (jo_tasks s)[i := t\<lparr>jn_phase := p\<rparr>], jo_server := sv\<rparr>)"
proof -
  let ?ts = "jo_tasks s" and ?new = "t\<lparr>jn_phase := p\<rparr>"
  obtain l where l: "load_invites J (sv_fs (jo_server s)) (d @ [INVITES_FILE]) = Inr l"
      "\<And>h. used X h ?ts + for_hash h l \<le> for_hash h (jo_issued s)"
      "\<And>a k. a < length ?ts \<Longrightarrow> jn_phase (?ts ! a) = Invites k \<Longrightarrow> k = l \<and> (\<forall>j < length ?ts. reading (?ts ! j) \<longrightarrow> j = a)"
    using s(1) unfolding locked_inv_def by blast
  have ok: "shared_ok J d (set (jo_issued s)) (jo_server s)" "phase_ok X (set (jo_issued s)) t (jn_phase t)"
    using s(2) t(1,2) by (auto simp: joins_inv_def)
  have own: "k = l" if "jn_phase t = Invites k" for k using l(3) [OF t(1), of k] t(2) that by simp
  from join_step_counts [OF step ok(1) s(3) ok(2) l(1) own]
  obtain l' where l': "load_invites J (sv_fs sv) (d @ [INVITES_FILE]) = Inr l'"
      "\<And>h. for_hash h l' + (if let_in p \<and> hash_secret X (jn_secret t) = h then 1 else 0) \<le>
         for_hash h l + (if let_in (jn_phase t) \<and> hash_secret X (jn_secret t) = h then 1 else 0)"
      "\<And>k. p = Invites k \<Longrightarrow> k = l \<and> jn_phase t = Asked" "(\<exists>k. jn_phase t = Invites k) \<or> l' = l"
    by metis
  have count: "used X h (?ts[i := ?new]) + for_hash h l' \<le> for_hash h (jo_issued s)" for h
    using length_filter_update [OF t(1), of "\<lambda>t. let_in (jn_phase t) \<and> hash_secret X (jn_secret t) = h" ?new] l(2) [of h] l'(2) [of h]
    unfolding used_def t(2) [symmetric] by (simp split: if_splits)
  have quiet: "\<not> reading (?ts ! j)" if "p = Invites k" "j < length ?ts" for j k
    using t(3) l'(3) [OF that(1)] that(2) by (auto simp: list_ex_iff)
  have "k = l' \<and> (\<forall>j < length ?ts. reading ((?ts[i := ?new]) ! j) \<longrightarrow> j = a)"
    if a: "a < length ?ts" "jn_phase ((?ts[i := ?new]) ! a) = Invites k" for a k
  proof (cases "a = i")
    case True
    with a(2) t(1) have p: "p = Invites k" by simp
    then have "k = l" "l' = l" using l'(3) [OF p] l'(4) by auto
    moreover have "j = a" if "j < length ?ts" "reading ((?ts[i := ?new]) ! j)" for j
      using that quiet [OF p] True by (cases "j = i") auto
    ultimately show ?thesis by blast
  next
    case False
    with a have k: "jn_phase (?ts ! a) = Invites k" by simp
    then have ra: "reading (?ts ! a)" by (simp add: reading_def)
    have u: "k = l" "\<And>j. j < length ?ts \<Longrightarrow> reading (?ts ! j) \<Longrightarrow> j = a" using l(3) [OF a(1) k] by auto
    have "\<not> reading t" using u(2) [OF t(1)] False t(2) by auto
    then have "l' = l" using l'(4) by (auto simp: reading_def)
    moreover have "\<not> reading ?new" using quiet [OF _ a(1)] ra by (auto simp: reading_def split: join_phase.splits)
    then have "j = a" if "j < length ?ts" "reading ((?ts[i := ?new]) ! j)" for j
      using that u(2) t(1) by (cases "j = i") auto
    ultimately show ?thesis using u(1) by blast
  qed
  then show ?thesis using l'(1) count by (auto simp: locked_inv_def)
qed

lemma locked_inv_step:
  assumes "joins_step True J X (d @ [INVITES_FILE]) s s'" "joins_inv J X d s" "json_reads_back J" "locked_inv J X d s"
  shows "locked_inv J X d s'"
  using assms(1)
proof cases
  case (arrive t)
  then have "jn_phase ((jo_tasks s @ [t]) ! a) = Invites k \<longleftrightarrow> a < length (jo_tasks s) \<and> jn_phase (jo_tasks s ! a) = Invites k"
    "reading ((jo_tasks s @ [t]) ! a) \<longleftrightarrow> a < length (jo_tasks s) \<and> reading (jo_tasks s ! a)"
    if "a < Suc (length (jo_tasks s))" for a k
    using that by (auto simp: nth_append reading_def)
  with assms(4) arrive show ?thesis by (auto simp: locked_inv_def used_def)
next
  case (run i t p sv)
  then show ?thesis using locked_inv_run_step [OF assms(4,2,3) run(2,3) _ run(5)] by simp
next
  case (invite now secret expires fs1)
  let ?new = "\<lparr>pi_secret_hash = hash_secret X secret, pi_expires_at_ms = expires\<rparr>"
  have "shared_ok J d (set (jo_issued s)) (jo_server s)" using assms(2) by (simp add: joins_inv_def)
  from add_invite_shared [OF invite(3) this assms(3) refl] obtain l where
    l: "load_invites J (sv_fs (jo_server s)) (d @ [INVITES_FILE]) = Inr l"
      "load_invites J fs1 (d @ [INVITES_FILE]) = Inr (filter (\<lambda>i. now < pi_expires_at_ms i) l @ [?new])" by blast
  have quiet: "jn_phase (jo_tasks s ! a) \<noteq> Invites k" if "a < length (jo_tasks s)" for a k
    using invite(2) that by (auto simp: list_ex_iff reading_def split: join_phase.splits dest!: nth_mem)
  have "used X h (jo_tasks s) + for_hash h (filter (\<lambda>i. now < pi_expires_at_ms i) l @ [?new]) \<le> for_hash h (jo_issued s @ [?new])" for h
    using assms(4) l(1) for_hash_filter [of h "\<lambda>i. now < pi_expires_at_ms i" l] unfolding locked_inv_def
    by (auto intro: le_trans [of _ "used X h (jo_tasks s) + for_hash h l"])
  with l(2) quiet invite(1) show ?thesis by (auto simp: locked_inv_def)
qed


section \<open>Without the lock\<close>

lemma task_same: "jn_phase t = p \<Longrightarrow> t\<lparr>jn_phase := p\<rparr> = t"
  by (cases t) simp

lemma join_step_task [simp]: "join_step J X path (t\<lparr>jn_phase := q\<rparr>) p sv = join_step J X path t p sv"
  by (cases p) (auto simp: Let_def split: sum.splits prod.splits)

lemma arrivals_are_run:
  assumes "\<forall>t \<in> set ts. jn_phase t = Asked"
  shows "joins_run lock J X path s (s\<lparr>jo_tasks := jo_tasks s @ ts\<rparr>)"
  using assms
proof (induction ts rule: rev_induct)
  case (snoc t ts)
  then have "joins_run lock J X path s (s\<lparr>jo_tasks := jo_tasks s @ ts\<rparr>)" by simp
  also have "joins_step lock J X path (s\<lparr>jo_tasks := jo_tasks s @ ts\<rparr>) (s\<lparr>jo_tasks := jo_tasks s @ ts @ [t]\<rparr>)"
    using arrive [of t lock J X path "s\<lparr>jo_tasks := jo_tasks s @ ts\<rparr>"] snoc.prems by simp
  finally show ?case .
qed simp

text \<open>What each step of a task with a good ticket does.\<close>

lemma good_ticket_steps:
  assumes "shared_ok J d I sv" "json_reads_back J" "path = d @ [INVITES_FILE]"
  shows "jn_joiner t = node_id_to_string (jn_peer t) \<Longrightarrow> load_invites J (sv_fs sv) path = Inr l \<Longrightarrow>
      join_step J X path t Asked sv = (Invites l, sv)"
    and "invited X (set l) t \<Longrightarrow> set l \<subseteq> I \<Longrightarrow>
      \<exists>fs1. join_step J X path t (Invites l) sv = (Admitted, sv\<lparr>sv_fs := fs1\<rparr>) \<and> shared_ok J d I (sv\<lparr>sv_fs := fs1\<rparr>) \<and>
        load_invites J fs1 path = Inr (filter (keep_invite (jn_now t) (hash_secret X (jn_secret t))) l)"
    and "\<exists>r sv'. join_step J X path t Admitted sv = (Answered r, sv') \<and> let_in (Answered r) \<and> shared_ok J d I sv' \<and>
        is_active_member (sv_group sv') (jn_peer t) \<and> (\<forall>q. is_active_member (sv_group sv) q \<longrightarrow> is_active_member (sv_group sv') q)"
proof -
  show "join_step J X path t Asked sv = (Invites l, sv)"
    if "jn_joiner t = node_id_to_string (jn_peer t)" "load_invites J (sv_fs sv) path = Inr l" using that by simp
next
  assume l: "invited X (set l) t" "set l \<subseteq> I"
  let ?keep = "keep_invite (jn_now t) (hash_secret X (jn_secret t))"
  from l(1) obtain i where i: "i \<in> set l" "jn_now t < pi_expires_at_ms i" "pi_secret_hash i = hash_secret X (jn_secret t)"
    by (auto simp: invited_def)
  then have "length (filter ?keep l) < length l" by (intro length_filter_less [of i]) (simp_all add: keep_invite_def)
  moreover have "list_ex (\<lambda>i. \<not> pi_expires_at_ms i \<le> jn_now t \<and> pi_secret_hash i = hash_secret X (jn_secret t)) l"
    using i by (auto simp: list_ex_iff not_le)
  moreover have "set (filter ?keep l) \<subseteq> I" using l(2) by auto
  from save_invites_shared [OF assms(1,2) this] obtain fs1 where "save_invites J (sv_fs sv) (d @ [INVITES_FILE]) (filter ?keep l) = (Inr (), fs1)"
    "shared_ok J d I (sv\<lparr>sv_fs := fs1\<rparr>)" "load_invites J fs1 (d @ [INVITES_FILE]) = Inr (filter ?keep l)" by blast
  ultimately show "\<exists>fs1. join_step J X path t (Invites l) sv = (Admitted, sv\<lparr>sv_fs := fs1\<rparr>) \<and> shared_ok J d I (sv\<lparr>sv_fs := fs1\<rparr>) \<and>
      load_invites J fs1 path = Inr (filter ?keep l)"
    using assms(3) by (intro exI [of _ fs1]) (simp add: Let_def)
next
  obtain r g fs2 where a: "add_active_peer J (jn_peer t) (sv_group sv) (sv_fs sv) = (r, g, fs2)" by (metis prod_cases3)
  with add_peer_shared [OF a assms(1,2)] obtain b where
    b: "r = Inr b" "shared_ok J d I (sv\<lparr>sv_group := g, sv_fs := fs2\<rparr>)" by blast
  note e = add_active_peer_effect [OF a [unfolded b(1)]]
  have "is_active_member g q" if "is_active_member (sv_group sv) q" for q
  proof (cases "node_id_to_string q = node_id_to_string (jn_peer t)")
    case True
    then show ?thesis using e(1) by (simp add: is_active_member_def)
  qed (use e(2) that in blast)
  with a b e(1) show "\<exists>r sv'. join_step J X path t Admitted sv = (Answered r, sv') \<and> let_in (Answered r) \<and> shared_ok J d I sv' \<and>
      is_active_member (sv_group sv') (jn_peer t) \<and> (\<forall>q. is_active_member (sv_group sv) q \<longrightarrow> is_active_member (sv_group sv') q)"
    by (auto simp: shared_ok_def)
qed

lemma start_shared:
  assumes "joins_start J d s"
  shows "shared_ok J d (set (jo_issued s)) (jo_server s)" "jo_tasks s = []"
    "load_invites J (sv_fs (jo_server s)) (d @ [INVITES_FILE]) = Inr (jo_issued s)"
  using assms by (auto simp: joins_start_def shared_ok_def)

text \<open>The first task of a server reads, writes and is admitted, lock or not.\<close>

lemma run_first:
  assumes "jo_tasks s = t # ts" "join_step J X path t (jn_phase t) (jo_server s) = (p, sv)" "jn_phase t = Asked \<Longrightarrow> \<not> list_ex reading (t # ts)"
  shows "joins_step lock J X path s (s\<lparr>jo_tasks := t\<lparr>jn_phase := p\<rparr> # ts, jo_server := sv\<rparr>)"
proof -
  have "joins_step lock J X path s (s\<lparr>jo_tasks := (jo_tasks s)[0 := t\<lparr>jn_phase := p\<rparr>], jo_server := sv\<rparr>)"
    by (rule run) (use assms in simp_all)
  then show ?thesis by (simp add: assms(1))
qed

lemma run_second:
  assumes "jo_tasks s = u # t # ts" "join_step J X path t (jn_phase t) (jo_server s) = (p, sv)"
  shows "joins_step False J X path s (s\<lparr>jo_tasks := u # t\<lparr>jn_phase := p\<rparr> # ts, jo_server := sv\<rparr>)"
proof -
  have "joins_step False J X path s (s\<lparr>jo_tasks := (jo_tasks s)[1 := t\<lparr>jn_phase := p\<rparr>], jo_server := sv\<rparr>)"
    by (rule run) (use assms in simp_all)
  then show ?thesis by (simp add: assms(1))
qed

text \<open>
  The source has no such lock, and an invitation can be used twice: when two joins with the same secret
  both read the file before either writes it, both are accepted and both nodes are members, whatever
  the two nodes are and however few invitations there were.
\<close>

theorem one_invitation_admits_two:
  assumes "joins_start J d s" "json_reads_back J" "jn_phase t = Asked" "jn_phase u = Asked"
    and "invited X (set (jo_issued s)) t" "invited X (set (jo_issued s)) u" "jn_secret t = jn_secret u"
  shows "\<exists>s'. joins_run False J X (d @ [INVITES_FILE]) s s' \<and> jo_issued s' = jo_issued s \<and>
     used X (hash_secret X (jn_secret u)) (jo_tasks s') = 2 \<and>
     is_active_member (sv_group (jo_server s')) (jn_peer t) \<and> is_active_member (sv_group (jo_server s')) (jn_peer u)"
proof -
  let ?path = "d @ [INVITES_FILE]" and ?l = "jo_issued s"
  let ?run = "joins_step False J X ?path"
  define at where "at p q sv = s\<lparr>jo_tasks := [t\<lparr>jn_phase := p\<rparr>, u\<lparr>jn_phase := q\<rparr>], jo_server := sv\<rparr>" for p q sv
  have first: "?run (at p q sv) (at p' q sv')" if "join_step J X ?path t p sv = (p', sv')" "p = Asked \<Longrightarrow> q = Asked" for p q sv p' sv'
    using run_first [of "at p q sv" "t\<lparr>jn_phase := p\<rparr>" "[u\<lparr>jn_phase := q\<rparr>]" J X ?path p' sv' False] that
    by (auto simp: at_def reading_def)
  have second: "?run (at p q sv) (at p q' sv')" if "join_step J X ?path u q sv = (q', sv')" for p q sv q' sv'
    using run_second [of "at p q sv" "t\<lparr>jn_phase := p\<rparr>" "u\<lparr>jn_phase := q\<rparr>" "[]" J X ?path q' sv'] that
    by (simp add: at_def)
  note st = start_shared [OF assms(1)]
  have id: "jn_joiner t = node_id_to_string (jn_peer t)" "jn_joiner u = node_id_to_string (jn_peer u)"
    using assms(5,6) by (simp_all add: invited_def)
  note ok = good_ticket_steps [OF _ assms(2) refl]
  obtain fs1 where 1: "join_step J X ?path t (Invites ?l) (jo_server s) = (Admitted, (jo_server s)\<lparr>sv_fs := fs1\<rparr>)"
    "shared_ok J d (set ?l) ((jo_server s)\<lparr>sv_fs := fs1\<rparr>)" using ok(2) [OF st(1) assms(5)] by blast
  obtain fs2 where 2: "join_step J X ?path u (Invites ?l) ((jo_server s)\<lparr>sv_fs := fs1\<rparr>) = (Admitted, (jo_server s)\<lparr>sv_fs := fs2\<rparr>)"
    "shared_ok J d (set ?l) ((jo_server s)\<lparr>sv_fs := fs2\<rparr>)" using ok(2) [OF 1(2) assms(6)] by auto
  from ok(3) [OF 2(2), of X t] obtain r3 sv3 where 3: "join_step J X ?path t Admitted ((jo_server s)\<lparr>sv_fs := fs2\<rparr>) = (Answered r3, sv3)"
    "let_in (Answered r3)" "shared_ok J d (set ?l) sv3" "is_active_member (sv_group sv3) (jn_peer t)" by blast
  from ok(3) [OF 3(3), of X u] obtain r4 sv4 where 4: "join_step J X ?path u Admitted sv3 = (Answered r4, sv4)"
    "let_in (Answered r4)" "is_active_member (sv_group sv4) (jn_peer u)" "is_active_member (sv_group sv4) (jn_peer t)"
    using 3(4) by blast
  have "joins_run False J X ?path s (at Asked Asked (jo_server s))"
    using arrivals_are_run [of "[t, u]" False J X ?path s] assms(3,4) st(2) by (simp add: at_def task_same)
  also have "?run (at Asked Asked (jo_server s)) (at (Invites ?l) Asked (jo_server s))" by (intro first ok(1) [OF st(1)] id st(3)) simp
  also have "?run (at (Invites ?l) Asked (jo_server s)) (at (Invites ?l) (Invites ?l) (jo_server s))" by (intro second ok(1) [OF st(1)] id st(3))
  also have "?run (at (Invites ?l) (Invites ?l) (jo_server s)) (at Admitted (Invites ?l) ((jo_server s)\<lparr>sv_fs := fs1\<rparr>))" by (rule first [OF 1(1)]) simp
  also have "?run (at Admitted (Invites ?l) ((jo_server s)\<lparr>sv_fs := fs1\<rparr>)) (at Admitted Admitted ((jo_server s)\<lparr>sv_fs := fs2\<rparr>))" by (rule second [OF 2(1)])
  also have "?run (at Admitted Admitted ((jo_server s)\<lparr>sv_fs := fs2\<rparr>)) (at (Answered r3) Admitted sv3)" by (rule first [OF 3(1)]) simp
  also have "?run (at (Answered r3) Admitted sv3) (at (Answered r3) (Answered r4) sv4)" by (rule second [OF 4(1)])
  finally show ?thesis
    using 3(2) 4 assms(7) by (intro exI [of _ "at (Answered r3) (Answered r4) sv4"]) (simp add: at_def used_def)
qed

text \<open>
  An invitation that is added while a join is between reading and writing the file is lost: the file
  is left as the join read it, less what the join used or found expired.
\<close>

theorem added_invitation_can_be_lost:
  assumes "joins_start J d s" "json_reads_back J" "jn_phase t = Asked" "invited X (set (jo_issued s)) t"
    and "new = \<lparr>pi_secret_hash = hash_secret X secret, pi_expires_at_ms = expires\<rparr>"
  shows "\<exists>s'. joins_run False J X (d @ [INVITES_FILE]) s s' \<and> jo_issued s' = jo_issued s @ [new] \<and>
     load_invites J (sv_fs (jo_server s')) (d @ [INVITES_FILE]) =
       Inr (filter (keep_invite (jn_now t) (hash_secret X (jn_secret t))) (jo_issued s))"
proof -
  let ?path = "d @ [INVITES_FILE]" and ?l = "jo_issued s" and ?new = "\<lparr>pi_secret_hash = hash_secret X secret, pi_expires_at_ms = expires\<rparr>"
  let ?run = "joins_step False J X ?path"
  define at where "at p fs1 l = \<lparr>jo_tasks = [t\<lparr>jn_phase := p\<rparr>], jo_server = (jo_server s)\<lparr>sv_fs := fs1\<rparr>, jo_issued = l\<rparr>" for p fs1 l
  have first: "?run (at p f l) (at p' f' l)"
    if "join_step J X ?path t p ((jo_server s)\<lparr>sv_fs := f\<rparr>) = (p', (jo_server s)\<lparr>sv_fs := f'\<rparr>)" for p f p' f' l
    using run_first [of "at p f l" "t\<lparr>jn_phase := p\<rparr>" "[]" J X ?path p' "(jo_server s)\<lparr>sv_fs := f'\<rparr>" False] that
    by (auto simp: at_def reading_def)
  note st = start_shared [OF assms(1)]
  have id: "jn_joiner t = node_id_to_string (jn_peer t)" using assms(4) by (simp add: invited_def)
  let ?fs = "sv_fs (jo_server s)"
  have sh: "shared_ok J d (insert ?new (set ?l)) (jo_server s)" using st(1) by (auto simp: shared_ok_def)
  obtain fs1 where 1: "add_invite J X 0 ?fs ?path secret expires = (Inr (), fs1)" "shared_ok J d (insert ?new (set ?l)) ((jo_server s)\<lparr>sv_fs := fs1\<rparr>)"
    using save_invites_shared [OF sh assms(2), of "filter (\<lambda>i. 0 < pi_expires_at_ms i) ?l @ [?new]"] st(3)
    by (auto simp: add_invite_def)
  have "set ?l \<subseteq> insert ?new (set ?l)" by blast
  from good_ticket_steps(2) [OF 1(2) assms(2) refl assms(4) this] obtain fs2 where
    2: "join_step J X ?path t (Invites ?l) ((jo_server s)\<lparr>sv_fs := fs1\<rparr>) = (Admitted, (jo_server s)\<lparr>sv_fs := fs2\<rparr>)"
      "load_invites J fs2 ?path = Inr (filter (keep_invite (jn_now t) (hash_secret X (jn_secret t))) ?l)" by auto
  have "joins_run False J X ?path s (at Asked ?fs ?l)"
    using arrivals_are_run [of "[t]" False J X ?path s] assms(3) st(2) by (cases s) (simp add: at_def task_same)
  also have "?run (at Asked ?fs ?l) (at (Invites ?l) ?fs ?l)"
    using good_ticket_steps(1) [OF st(1) assms(2) refl id st(3), of X] by (intro first) simp
  also have "?run (at (Invites ?l) ?fs ?l) (at (Invites ?l) fs1 (?l @ [?new]))"
    using invite [of False "at (Invites ?l) ?fs ?l" J X 0 ?path secret expires fs1] 1(1) by (simp add: at_def)
  also have "?run (at (Invites ?l) fs1 (?l @ [?new])) (at Admitted fs2 (?l @ [?new]))" by (rule first [OF 2(1)])
  finally show ?thesis using 2(2) assms(5) by (intro exI [of _ "at Admitted fs2 (?l @ [?new])"]) (simp add: at_def)
qed

section \<open>Witnesses\<close>

text \<open>A group with one invitation, and a node that joins with its secret.\<close>

definition ex_invitation :: pending_invite where
  "ex_invitation = \<lparr>pi_secret_hash = hash_secret ex_lib ''s'', pi_expires_at_ms = 90\<rparr>"

definition ex_joins :: joins where
  "ex_joins =
     \<lparr>jo_tasks = [],
      jo_server = ex_server\<lparr>sv_fs := snd (add_invite plain_json ex_lib 50 ex_fs (ex_dir @ [INVITES_FILE]) ''s'' 90)\<rparr>,
      jo_issued = [ex_invitation]\<rparr>"

definition ex_join :: "u8 \<Rightarrow> join_task" where
  "ex_join b = \<lparr>jn_peer = ex_node b, jn_request = 7, jn_secret = ''s'', jn_joiner = node_id_to_string (ex_node b),
     jn_now = 60, jn_phase = Asked\<rparr>"

lemma ex_joins_start: "joins_start plain_json ex_dir ex_joins"
proof -
  have "group_dir_ok (snd (add_invite plain_json ex_lib 50 ex_fs (ex_dir @ [INVITES_FILE]) ''s'' 90)) ex_dir" by code_simp
  moreover have "load_invites plain_json (snd (add_invite plain_json ex_lib 50 ex_fs (ex_dir @ [INVITES_FILE]) ''s'' 90))
      (ex_dir @ [INVITES_FILE]) = Inr [ex_invitation]" by code_simp
  moreover have "ex_dir @ [PEERS_FILE] = [''r'', ''.lil'', ''peers.json'']" by code_simp
  ultimately show ?thesis by (simp add: joins_start_def ex_joins_def ex_server_def ex_group_def)
qed

text \<open>The node joins alone, with the lock or without.\<close>

lemma ex_run:
  "\<exists>s'. joins_run lock plain_json ex_lib (ex_dir @ [INVITES_FILE]) ex_joins s' \<and>
     used ex_lib (pi_secret_hash ex_invitation) (jo_tasks s') = 1 \<and> for_hash (pi_secret_hash ex_invitation) (jo_issued s') = 1 \<and>
     is_active_member (sv_group (jo_server s')) (ex_node 4)"
proof -
  let ?path = "ex_dir @ [INVITES_FILE]" and ?t = "ex_join 4"
  let ?run = "joins_step lock plain_json ex_lib ?path"
  define at where "at p sv = ex_joins\<lparr>jo_tasks := [?t\<lparr>jn_phase := p\<rparr>], jo_server := sv\<rparr>" for p sv
  have first: "?run (at p sv) (at p' sv')" if "join_step plain_json ex_lib ?path ?t p sv = (p', sv')" for p p' sv sv'
    using run_first [of "at p sv" "?t\<lparr>jn_phase := p\<rparr>" "[]" plain_json ex_lib ?path p' sv' lock] that
    by (auto simp: at_def reading_def)
  note st = start_shared [OF ex_joins_start]
  note ok = good_ticket_steps [OF _ plain_json_ok refl]
  have inv: "invited ex_lib (set (jo_issued ex_joins)) ?t" by (simp add: invited_def ex_join_def ex_joins_def ex_invitation_def)
  then have id: "jn_joiner ?t = node_id_to_string (jn_peer ?t)" by (simp add: invited_def)
  obtain fs1 where 1: "join_step plain_json ex_lib ?path ?t (Invites (jo_issued ex_joins)) (jo_server ex_joins) = (Admitted, (jo_server ex_joins)\<lparr>sv_fs := fs1\<rparr>)"
    "shared_ok plain_json ex_dir (set (jo_issued ex_joins)) ((jo_server ex_joins)\<lparr>sv_fs := fs1\<rparr>)" using ok(2) [OF st(1) inv] by blast
  from ok(3) [OF 1(2), of ex_lib ?t] obtain r sv where 2: "join_step plain_json ex_lib ?path ?t Admitted ((jo_server ex_joins)\<lparr>sv_fs := fs1\<rparr>) = (Answered r, sv)"
    "let_in (Answered r)" "is_active_member (sv_group sv) (jn_peer ?t)" by blast
  have "joins_run lock plain_json ex_lib ?path ex_joins (at Asked (jo_server ex_joins))"
    using arrivals_are_run [of "[?t]" lock plain_json ex_lib ?path ex_joins] by (simp add: at_def ex_join_def ex_joins_def)
  also have "?run (at Asked (jo_server ex_joins)) (at (Invites (jo_issued ex_joins)) (jo_server ex_joins))" by (intro first ok(1) [OF st(1)] id st(3))
  also have "?run (at (Invites (jo_issued ex_joins)) (jo_server ex_joins)) (at Admitted ((jo_server ex_joins)\<lparr>sv_fs := fs1\<rparr>))" by (rule first [OF 1(1)])
  also have "?run (at Admitted ((jo_server ex_joins)\<lparr>sv_fs := fs1\<rparr>)) (at (Answered r) sv)" by (rule first [OF 2(1)])
  finally show ?thesis using 2(2,3)
    by (intro exI [of _ "at (Answered r) sv"]) (simp add: at_def used_def for_hash_def ex_joins_def ex_invitation_def ex_join_def)
qed

theorem overlapping_joins_need_invitations_witness:
  "\<exists>s'. joins_run False plain_json ex_lib (ex_dir @ [INVITES_FILE]) ex_joins s' \<and>
     is_active_member (sv_group (jo_server s')) (ex_node 4) \<and>
     (\<exists>t \<in> set (jo_tasks s'). let_in (jn_phase t) \<and> invited ex_lib (set (jo_issued s')) t)"
proof -
  obtain s' where s': "joins_run False plain_json ex_lib (ex_dir @ [INVITES_FILE]) ex_joins s'"
    "used ex_lib (pi_secret_hash ex_invitation) (jo_tasks s') = 1" "is_active_member (sv_group (jo_server s')) (ex_node 4)" using ex_run by blast
  then have "\<exists>t \<in> set (jo_tasks s'). let_in (jn_phase t)"
    by (force simp: used_def length_Suc_conv filter_eq_Cons_iff)
  with overlapping_joins_need_invitations [OF s'(1) ex_joins_start plain_json_ok] s' show ?thesis by blast
qed


end
