(* ===== verification/Spec2Isabelle.thy ===== *)
theory Spec2Isabelle
  imports Lil_Findings Lil_Fuel Lil_Converge Lil_DownloadFacts Lil_Tasks Lil_Wire Lil_Watcher Lil_Ui Lil_Joins
begin

text \<open>
  A verification library for lilsync, a peer-to-peer folder synchroniser (the Rust sources are under
  \<open>src/src/\<close>). Every node keeps an index of its folder (path, kind, content hash, mode, version),
  a Merkle tree over the index, and a ledger of the members of its group. A daemon scans and watches
  the folder, announces its root hash to the members, and, when a peer announces another one, walks
  the peer's tree and takes over the entries that are newer. Deletions are tombstones, collected when
  all members have reported the same root.

  \<^bold>\<open>The parts and the theories that model them.\<close>

  \<^item> Shared: \<open>Lil_Prelude\<close> (widths of integers, results, finite maps in key order, named
    collections of rules), \<open>Lil_Bytes\<close> (byte orders, hexadecimal, length prefixes),
    \<open>Lil_Paths\<close> (slash-separated paths), \<open>Lil_Fs\<close> and \<open>Lil_FsFacts\<close> (the part of \<open>std::fs\<close> in use, as a
    finite map from paths to nodes with links, modes and faults).
  \<^item> \<open>entries.rs\<close>: \<open>Lil_Entries\<close>. The version order is registered as a \<open>linorder\<close>.
  \<^item> \<open>ignore.rs\<close>: \<open>Lil_Ignore\<close>, with the glob matcher equal to a language of strings.
  \<^item> \<open>tree.rs\<close>: \<open>Lil_Tree\<close>. \<open>Lil_Merkle\<close> specifies a Merkle tree of an index and shows that the rebuild
    meets it, \<open>Lil_Incremental\<close> that the incremental update equals the rebuild, \<open>Lil_Soundness\<close> that
    equal hashes mean equal entries.
  \<^item> \<open>scan.rs\<close>: \<open>Lil_Scan\<close>; \<open>Lil_Fuel\<close> shows that its recursion ends.
  \<^item> \<open>state.rs\<close>: \<open>Lil_State\<close> and \<open>Lil_Apply\<close> (definitions), \<open>Lil_Versions\<close> (local changes as a step
    relation), \<open>Lil_Replica\<close>, \<open>Lil_Remote\<close>, \<open>Lil_Gc\<close>, \<open>Lil_Install\<close>, \<open>Lil_Persist\<close> (what scans, watcher
    events, remote entries, collection of tombstones, installation and a restart keep and achieve),
    \<open>Lil_Findings\<close> (runs on concrete folders that depart from the intent).
  \<^item> \<open>identity.rs\<close>, \<open>group.rs\<close>, \<open>endpoints.rs\<close>, \<open>cli.rs\<close>: \<open>Lil_Identity\<close>, \<open>Lil_Group\<close>, \<open>Lil_Endpoints\<close>,
    \<open>Lil_Ticket\<close>.
  \<^item> \<open>message.rs\<close>, \<open>protocol.rs\<close>: \<open>Lil_Protocol\<close>.
  \<^item> \<open>rpc.rs\<close>: \<open>Lil_Rpc\<close> (handlers, client calls, pool, object transfer), \<open>Lil_Joins\<close> (joins on several
    connections and new invitations, as a step relation over the shared server and file).
  \<^item> \<open>transport.rs\<close>: \<open>Lil_Transport\<close> (frames, chunks, blobs, JSON messages, handshake, and the request
    loop of \<open>handle_connection\<close> over them), \<open>Lil_TransportFacts\<close> (what arrives is what was sent, sizes,
    authentication), \<open>Lil_Wire\<close> (the two ends of a connection against each other).
  \<^item> \<open>sync.rs\<close>: \<open>Lil_Sync\<close>, with \<open>Lil_Reconcile\<close> and \<open>Lil_Walk\<close> (the walk ends and covers the peer) and
    \<open>Lil_Converge\<close> (two nodes that pull from each other agree);
    \<open>Lil_Downloads\<close> and \<open>Lil_DownloadFacts\<close> (the tasks that share a download, as a step relation).
  \<^item> \<open>daemon.rs\<close>: \<open>Lil_Daemon\<close> (events, announcements, publication, hints, collection, tasks),
    \<open>Lil_DaemonFacts\<close>, \<open>Lil_Tasks\<close>.
  \<^item> \<open>watcher.rs\<close>: \<open>Lil_Watcher\<close>. \<open>logging.rs\<close>: \<open>Lil_Logging\<close>.
  \<^item> \<open>commands.rs\<close>, and the start of the daemon: \<open>Lil_Commands\<close>, with \<open>Lil_CommandFacts\<close> (inviting,
    joining and starting together). \<open>main.rs\<close>, the commands of \<open>cli.rs\<close> and the rows of the status view:
    \<open>Lil_Cli\<close>. The lines of \<open>ui.rs\<close>, \<open>daemonize\<close>, and the processes and exit codes of \<open>main\<close>: \<open>Lil_Ui\<close>.
  \<^item> \<open>Lil_Example\<close> and \<open>Lil_Codec\<close> hold the concrete folder, and a text format with the assumed laws,
    on which theorems are instantiated.

  \<^bold>\<open>Conventions.\<close> A struct is a record, an enum a datatype, a method a function that takes the state
  (and the file system) and returns it together with the result, also on failure, so that an early
  return keeps the effects before it. Lamport values and lengths keep their width; where the code
  can wrap, the theorems have a bound as hypothesis, and \<open>Lil_Findings\<close> shows the wrap.

  \<^bold>\<open>Interfaces.\<close> \<open>newest_wins\<close> (\<open>Lil_Merge\<close>) is the contract of the replicated maps, interpreted for the
  watermark and the ledger; \<open>bottom_up\<close> (\<open>Lil_Merkle\<close>) is the bottom-up pass of the tree algorithms,
  interpreted for the rebuild and the update; \<open>message_layer\<close> (\<open>Lil_TransportFacts\<close>) is the contract of a
  layer of the transport, interpreted for frames, chunks, blobs and JSON messages, each on the one below.

  \<^bold>\<open>What the theorems show.\<close> The index and its trees stay consistent under every operation;
  versions only grow and the newest entry wins; equal roots mean equal folders; a reconciliation with a
  truthful peer ends and leaves nothing behind, and one in each direction makes two nodes agree; shared downloads are safe in every interleaving;
  paths and links from peers stay inside the folder; tombstones are collected only in agreement;
  only members are served and only announcements of the authenticated peer count; a connection carries
  the id of a node that signed this very handshake; a session over the wire gives what the handlers
  give; an invitation admits its bearer and is then gone, nobody joins without one however joins overlap,
  and with a lock on the file of invitations, which the source lacks, none is used twice; ledgers agree after an exchange; a restart restores the state;
  tickets, encodings and saved files read back; received messages, hints and logs are bounded.

  \<^bold>\<open>Bounds.\<close> \<open>scan_dir\<close> and \<open>make_dir_tree_writable\<close> have the depth of the file system as bound, which
  is shown to be enough (\<open>Lil_Fuel\<close>). Path resolution follows at most 40 links, as the operating system
  does. The loop of the reconciliation and the loop over the requests of a connection are partial
  functions in the option monad: that they end is a theorem, under the hypotheses it states. The
  stability loop makes the 8 attempts of the source. \<open>recv_plain_exact\<close> ends because every turn
  takes bytes off the stream.

  \<^bold>\<open>Parameters.\<close> Third-party code is an argument of the definitions that use it: BLAKE3 (a function from
  bytes; collision freedom, where needed, is a hypothesis on the inputs at hand), bincode and \<open>serde_json\<close>
  (pairs of functions that read back what they write), Noise and Ed25519 (records of functions), the
  events of \<open>notify\<close>, the interfaces of the machine, random bytes and the clock.

  \<^bold>\<open>Not modelled.\<close> File names that are not UTF-8, a file system that changes during a directory scan (the
  stability loop around one file is modelled with changes), removal of a directory that fails half-way;
  scheduling, except for the download tasks, the reconciliation task against the event loop, and
  joins; two processes that write the same file at the same moment (saving the invitations is one step);
  sockets; signals; what \<open>tracing\<close> puts before a line; the variants for systems other than unix;
  the parsing of arguments by clap.
\<close>

end
